(* ===== verification/Task_Model.thy ===== *)
theory Task_Model
  imports Tysel_Prelude
begin

text \<open>
  The unified task model of \<^verbatim>\<open>crates/tysel-task/src/lib.rs\<close>: identities, triggers, the
  lifecycle state machine and the two operations that move a task along it.
  \<open>serde_json::Value\<close> is third-party: a task is polymorphic in the type \<open>'v\<close> of its input and
  \<open>Task_new\<close> takes the \<open>Null\<close> value as an argument.
\<close>

subsection \<open>Data\<close>

type_synonym TaskId = u128

definition TaskId_to_string :: "TaskId \<Rightarrow> string" where
  "TaskId_to_string i = hex_fixed 32 (unat i)"

datatype TaskTrigger =
    TT_Http (tt_method: string) (tt_path: string)
  | TT_Cron (tt_cron_name: string) (tt_expression: string)
  | TT_Queue (tt_queue_name: string) (tt_handler: string) (tt_message_id: "string option")
  | TT_Mcp (tt_tool: string)
  | TT_Agent (tt_agent_name: string)

datatype TaskState =
    Created | Queued | Running | WaitingIo | Suspended | Retrying
  | Completed | Failed | Canceled | TimedOut

definition is_terminal :: "TaskState \<Rightarrow> bool" where
  "is_terminal s \<longleftrightarrow> s \<in> {Completed, Failed, Canceled, TimedOut}"

fun can_transition_to :: "TaskState \<Rightarrow> TaskState \<Rightarrow> bool" where
  "can_transition_to Created n = (n \<in> {Queued, Canceled})"
| "can_transition_to Queued n = (n \<in> {Running, Canceled, TimedOut})"
| "can_transition_to Running n =
     (n \<in> {WaitingIo, Suspended, Retrying, Completed, Failed, Canceled, TimedOut})"
| "can_transition_to WaitingIo n =
     (n \<in> {Running, Suspended, Retrying, Failed, Canceled, TimedOut})"
| "can_transition_to Suspended n = (n \<in> {Queued, Canceled, TimedOut})"
| "can_transition_to Retrying n = (n \<in> {Queued, Canceled, TimedOut})"
| "can_transition_to _ n = False"

record TaskMeta =
  m_id :: TaskId
  m_application_id :: string
  m_tenant_id :: "string option"
  m_idempotency_key :: "string option"
  m_trace_id :: "string option"

record 'v Task =
  t_meta :: TaskMeta
  t_trigger :: TaskTrigger
  t_input :: 'v
  t_state :: TaskState
  t_attempt :: u32
  t_deadline_ms :: "u64 option"

record TaskTransitionError =
  tte_id :: TaskId
  tte_from :: TaskState
  tte_to :: TaskState

abbreviation task_ident :: "'v Task \<Rightarrow> TaskId" where
  "task_ident t \<equiv> m_id (t_meta t)"

subsection \<open>Operations\<close>

definition Task_new :: "'v \<Rightarrow> TaskMeta \<Rightarrow> TaskTrigger \<Rightarrow> u64 option \<Rightarrow> 'v Task" where
  "Task_new json_null meta trg deadline =
     \<lparr>t_meta = meta, t_trigger = trg, t_input = json_null, t_state = Created,
      t_attempt = 0, t_deadline_ms = deadline\<rparr>"

definition with_input :: "'v Task \<Rightarrow> 'v \<Rightarrow> 'v Task" where
  "with_input t v = t\<lparr>t_input := v\<rparr>"

definition Task_transition ::
  "'v Task \<Rightarrow> TaskState \<Rightarrow> (TaskTransitionError, 'v Task) result" where
  "Task_transition t n =
     (if \<not> can_transition_to (t_state t) n
      then Inl \<lparr>tte_id = task_ident t, tte_from = t_state t, tte_to = n\<rparr>
      else Inr (t\<lparr>t_state := n\<rparr>))"

definition begin_attempt :: "'v Task \<Rightarrow> (TaskTransitionError, 'v Task) result" where
  "begin_attempt t =
     rbind (Task_transition t Running)
       (\<lambda>t'. Inr (t'\<lparr>t_attempt := saturating_add (t_attempt t') 1\<rparr>))"

definition deadline_reached :: "'v Task \<Rightarrow> u64 \<Rightarrow> bool" where
  "deadline_reached t now =
     (case t_deadline_ms t of None \<Rightarrow> False | Some deadline \<Rightarrow> deadline \<le> now)"

subsection \<open>Lifecycle lemmas\<close>

lemma is_terminal_simps [simp]:
  "is_terminal Completed" "is_terminal Failed" "is_terminal Canceled" "is_terminal TimedOut"
  "\<not> is_terminal Created" "\<not> is_terminal Queued" "\<not> is_terminal Running"
  "\<not> is_terminal WaitingIo" "\<not> is_terminal Suspended" "\<not> is_terminal Retrying"
  by (simp_all add: is_terminal_def)

lemma terminal_no_successor: "is_terminal s \<Longrightarrow> \<not> can_transition_to s n"
  by (cases s) simp_all

lemma cancel_enabled_iff: "can_transition_to s Canceled \<longleftrightarrow> \<not> is_terminal s"
  by (cases s) simp_all

lemma stuck_iff_terminal: "(\<forall>n. \<not> can_transition_to s n) \<longleftrightarrow> is_terminal s"
  using cancel_enabled_iff terminal_no_successor by blast

lemma can_transition_to_not_Created: "\<not> can_transition_to s Created"
  by (cases s) simp_all

lemma can_transition_irrefl: "\<not> can_transition_to s s"
  by (cases s) simp_all

lemma Task_transition_Inr_iff [result_simps]:
  "Task_transition t n = Inr t' \<longleftrightarrow> can_transition_to (t_state t) n \<and> t' = t\<lparr>t_state := n\<rparr>"
  by (auto simp: Task_transition_def)

lemma begin_attempt_Inr_iff [result_simps]:
  "begin_attempt t = Inr t' \<longleftrightarrow>
     can_transition_to (t_state t) Running \<and>
     t' = t\<lparr>t_state := Running, t_attempt := saturating_add (t_attempt t) 1\<rparr>"
  by (auto simp: begin_attempt_def result_simps)

lemma TaskId_to_string_length [simp]: "length (TaskId_to_string i) = 32"
  by (simp add: TaskId_to_string_def)

lemma TaskId_parse: "hex_parse 0 (TaskId_to_string i) = Some (unat i)"
proof -
  have "unat i < 16 ^ 32"
    using unat_less_2p [of i] by simp
  then show ?thesis
    by (simp add: TaskId_to_string_def hex_parse_hex_fixed del: One_nat_def)
qed

lemma TaskId_to_string_inj: "TaskId_to_string i = TaskId_to_string j \<longleftrightarrow> i = j"
proof
  assume "TaskId_to_string i = TaskId_to_string j"
  then have "unat i = unat j"
    using TaskId_parse [of i] TaskId_parse [of j] by simp
  then show "i = j" by (rule unsigned_word_eqI)
qed simp

subsection \<open>Runs of a task\<close>

text \<open>The two mutators as the steps of a state machine; a failed call leaves the task as it was.\<close>

inductive task_step :: "'v Task \<Rightarrow> 'v Task \<Rightarrow> bool" where
  transition: "Task_transition t n = Inr t' \<Longrightarrow> task_step t t'"
| attempt: "begin_attempt t = Inr t' \<Longrightarrow> task_step t t'"

inductive_cases task_stepE: "task_step t t'"

definition same_identity :: "'v Task \<Rightarrow> 'v Task \<Rightarrow> bool" where
  "same_identity t t' \<longleftrightarrow>
     t_meta t' = t_meta t \<and> t_trigger t' = t_trigger t \<and> t_input t' = t_input t \<and>
     t_deadline_ms t' = t_deadline_ms t"

lemma task_step_facts:
  assumes "task_step t t'"
  shows "same_identity t t'" and "t_attempt t \<le> t_attempt t'"
    and "can_transition_to (t_state t) (t_state t')"
  using assms
  by (auto elim!: task_stepE simp: result_simps same_identity_def saturating_add_mono)

lemma task_run_facts:
  assumes "task_step\<^sup>*\<^sup>* t t'"
  shows "same_identity t t' \<and> t_attempt t \<le> t_attempt t' \<and> (is_terminal (t_state t) \<longrightarrow> t' = t)"
  using assms
proof (induction rule: rtranclp_induct)
  case base
  then show ?case by (simp add: same_identity_def)
next
  case (step u v)
  note s = task_step_facts [OF step.hyps(2)]
  have "\<not> is_terminal (t_state u)"
    using s(3) terminal_no_successor by blast
  with step.IH s show ?case
    by (auto simp: same_identity_def)
qed

text \<open>
  Terminal states are absorbing: whatever sequence of successful \<open>transition\<close> and
  \<open>begin_attempt\<close> calls a task goes through, its identity, trigger, input and deadline never
  change, its attempt counter never decreases (it saturates instead of wrapping), and once it is
  Completed, Failed, Canceled or TimedOut it never changes again; a non-terminal task can always
  still be cancelled.
\<close>

theorem task_lifecycle_safe:
  assumes "task_step\<^sup>*\<^sup>* t t'"
  shows "same_identity t t' \<and> t_attempt t \<le> t_attempt t'
    \<and> (is_terminal (t_state t) \<longrightarrow> t' = t)
    \<and> (\<not> is_terminal (t_state t') \<longrightarrow>
         Task_transition t' Canceled = Inr (t'\<lparr>t_state := Canceled\<rparr>))"
  using task_run_facts [OF assms] by (simp add: Task_transition_def cancel_enabled_iff)

definition demo_meta :: TaskMeta where
  "demo_meta = \<lparr>m_id = 42, m_application_id = ''orders'', m_tenant_id = None,
     m_idempotency_key = None, m_trace_id = None\<rparr>"

definition demo_task :: "unit Task" where
  "demo_task = Task_new () demo_meta (TT_Agent ''planner'') (Some 100)"

theorem task_lifecycle_safe_witness:
  "task_step\<^sup>*\<^sup>* demo_task (demo_task\<lparr>t_state := Queued\<rparr>)
    \<and> t_attempt demo_task \<le> t_attempt (demo_task\<lparr>t_state := Queued\<rparr>)"
proof -
  have "task_step demo_task (demo_task\<lparr>t_state := Queued\<rparr>)"
    by (rule task_step.transition [of _ Queued])
      (simp add: Task_transition_def demo_task_def Task_new_def)
  then have r: "task_step\<^sup>*\<^sup>* demo_task (demo_task\<lparr>t_state := Queued\<rparr>)" by blast
  show ?thesis using r task_lifecycle_safe [OF r] by simp
qed

end
