(* ===== verification/Lease_Fencing.thy ===== *)
theory Lease_Fencing
  imports Tysel_Prelude
begin

text \<open>
  The contract that every lease of the system keeps, stated once. A provider hands out tokens on
  keys; each token carries a generation; a token is honoured only while it carries the last
  generation of its key, and generations never go back. What follows from it, for any interleaving
  of steps, is proved here and used by the scheduler (claims) and by the durable store
  (executions).
\<close>

locale fenced_lease =
  fixes valid :: "'s \<Rightarrow> bool"
    and step :: "'s \<Rightarrow> 's \<Rightarrow> bool"
    and last_gen :: "'s \<Rightarrow> 'k \<Rightarrow> nat"
    and honoured :: "'s \<Rightarrow> 'k \<Rightarrow> 'token \<Rightarrow> 't \<Rightarrow> bool"
    and token_gen :: "'token \<Rightarrow> nat"
  assumes valid_step: "valid s \<Longrightarrow> step s s' \<Longrightarrow> valid s'"
    and gen_mono: "valid s \<Longrightarrow> step s s' \<Longrightarrow> last_gen s k \<le> last_gen s' k"
    and honoured_gen: "valid s \<Longrightarrow> honoured s k tok now \<Longrightarrow> token_gen tok = last_gen s k"
begin

lemma valid_run: "step\<^sup>*\<^sup>* s s' \<Longrightarrow> valid s \<Longrightarrow> valid s'"
  by (induction rule: rtranclp_induct) (auto intro: valid_step)

lemma gen_mono_run: "step\<^sup>*\<^sup>* s s' \<Longrightarrow> valid s \<Longrightarrow> last_gen s k \<le> last_gen s' k"
proof (induction rule: rtranclp_induct)
  case base
  then show ?case by simp
next
  case (step u v)
  then have "valid u" by (blast intro: valid_run)
  with step show ?case by (blast intro: gen_mono order_trans)
qed

lemma stale_never_honoured:
  assumes "valid s" and "step\<^sup>*\<^sup>* s s'" and "token_gen tok < last_gen s k"
  shows "\<not> honoured s' k tok now"
proof
  assume "honoured s' k tok now"
  then have "token_gen tok = last_gen s' k"
    using honoured_gen valid_run assms by blast
  moreover have "last_gen s k \<le> last_gen s' k"
    using gen_mono_run assms by blast
  ultimately show False using assms(3) by simp
qed

lemma superseded_never_honoured:
  assumes "valid s" and "honoured s k old now" and "step\<^sup>*\<^sup>* s s'"
    and "honoured s' k new later" and "token_gen new \<noteq> token_gen old"
    and "step\<^sup>*\<^sup>* s' s''"
  shows "\<not> honoured s'' k old t"
proof -
  have v': "valid s'" using valid_run assms by blast
  have "token_gen old = last_gen s k" and "token_gen new = last_gen s' k"
    using honoured_gen assms v' by blast+
  moreover have "last_gen s k \<le> last_gen s' k"
    using gen_mono_run assms by blast
  ultimately have "token_gen old < last_gen s' k"
    using assms(5) by simp
  then show ?thesis using stale_never_honoured v' assms(6) by blast
qed

lemma one_generation_at_a_time:
  "valid s \<Longrightarrow> honoured s k a t \<Longrightarrow> honoured s k b u \<Longrightarrow> token_gen a = token_gen b"
  by (metis honoured_gen)

end

end
