(* ===== verification/Scheduler.thy ===== *)
theory Scheduler
  imports Task_Model Lease_Fencing
begin

text \<open>
  The bounded task queue of \<^verbatim>\<open>crates/tysel-scheduler/src/lib.rs\<close>. The scheduler is a record with
  the fields of the Rust struct; its \<open>HashMap\<close>s are association lists. Nothing rolls a scheduler
  back when a call fails half way, so an operation maps a state to a result \<^emph>\<open>and\<close> the state the
  call leaves behind, also when the result is an error.
\<close>

subsection \<open>State\<close>

definition MAX_LEASE_OWNER_BYTES :: nat where
  "MAX_LEASE_OWNER_BYTES = 128"

definition MAX_LEASE_MS :: u64 where
  "MAX_LEASE_MS = 24 * 60 * 60 * 1000"

record 'v TaskClaim =
  tc_task :: "'v Task"
  tc_generation :: u64
  tc_lease_owner :: string
  tc_lease_until_ms :: u64

record ActiveClaim =
  ac_generation :: u64
  ac_lease_owner :: string
  ac_lease_until_ms :: u64

record 'v Scheduler =
  s_capacity :: nat
  s_queue :: "TaskId list"
  s_tasks :: "(TaskId \<times> 'v Task) list"
  s_claims :: "(TaskId \<times> ActiveClaim) list"
  s_generations :: "(TaskId \<times> u64) list"

datatype SchedulerError =
    SE_InvalidCapacity
  | SE_Full nat
  | SE_Duplicate TaskId
  | SE_Unknown TaskId
  | SE_InvalidLeaseOwner
  | SE_InvalidLeaseDuration
  | SE_TimeRange
  | SE_GenerationExhausted
  | SE_LeaseLost
  | SE_InvalidClaimOutcome TaskState
  | SE_InvalidTransition TaskTransitionError

type_synonym ('v, 'a) sched_op = "'v Scheduler \<Rightarrow> (SchedulerError, 'a) result \<times> 'v Scheduler"

subsection \<open>Validation\<close>

definition is_lease_owner_byte :: "char \<Rightarrow> bool" where
  "is_lease_owner_byte c \<longleftrightarrow> is_ascii_alphanumeric c \<or> c \<in> set ''._:@-''"

definition validate_lease_owner :: "string \<Rightarrow> (SchedulerError, unit) result" where
  "validate_lease_owner owner =
     (if owner = [] \<or> MAX_LEASE_OWNER_BYTES < length owner
         \<or> \<not> list_all is_lease_owner_byte owner
      then Inl SE_InvalidLeaseOwner else Inr ())"

definition validate_lease :: "string \<Rightarrow> u64 \<Rightarrow> (SchedulerError, unit) result" where
  "validate_lease owner lease_ms =
     rbind (validate_lease_owner owner)
       (\<lambda>_. if lease_ms = 0 \<or> MAX_LEASE_MS < lease_ms
            then Inl SE_InvalidLeaseDuration else Inr ())"

subsection \<open>Operations\<close>

definition Scheduler_new :: "nat \<Rightarrow> (SchedulerError, 'v Scheduler) result" where
  "Scheduler_new capacity =
     (if capacity = 0 then Inl SE_InvalidCapacity
      else Inr \<lparr>s_capacity = capacity, s_queue = [], s_tasks = [], s_claims = [],
                s_generations = []\<rparr>)"

definition enqueue :: "'v Task \<Rightarrow> ('v, unit) sched_op" where
  "enqueue task s =
     (let i = task_ident task in
      if map_of (s_tasks s) i \<noteq> None then (Inl (SE_Duplicate i), s)
      else if s_capacity s \<le> length (s_queue s) then (Inl (SE_Full (s_capacity s)), s)
      else case Task_transition task Queued of
          Inl e \<Rightarrow> (Inl (SE_InvalidTransition e), s)
        | Inr task' \<Rightarrow>
            (Inr (), s\<lparr>s_queue := s_queue s @ [i],
                       s_tasks := AList.update i task' (s_tasks s)\<rparr>))"

definition sched_transition :: "TaskId \<Rightarrow> TaskState \<Rightarrow> ('v, 'v Task) sched_op" where
  "sched_transition i next s =
     (case map_of (s_tasks s) i of
        None \<Rightarrow> (Inl (SE_Unknown i), s)
      | Some task \<Rightarrow>
          if next = Queued \<and> s_capacity s \<le> length (s_queue s)
          then (Inl (SE_Full (s_capacity s)), s)
          else case Task_transition task next of
              Inl e \<Rightarrow> (Inl (SE_InvalidTransition e), s)
            | Inr task' \<Rightarrow>
                (let s1 = s\<lparr>s_tasks := AList.update i task' (s_tasks s)\<rparr>;
                     s2 = (if next = Queued then s1\<lparr>s_queue := s_queue s1 @ [i]\<rparr>
                           else if is_terminal next
                           then s1\<lparr>s_queue := filter (\<lambda>queued. queued \<noteq> i) (s_queue s1)\<rparr>
                           else s1);
                     s3 = (if next \<in> {Queued, Suspended, Retrying} \<or> is_terminal next
                           then s2\<lparr>s_claims := AList.delete i (s_claims s2)\<rparr>
                           else s2)
                 in (Inr task', s3)))"

lemma sched_transition_queue_le:
  "next \<noteq> Queued \<Longrightarrow> length (s_queue (snd (sched_transition i next s))) \<le> length (s_queue s)"
  by (auto simp: sched_transition_def Let_def split: option.splits sum.splits)

function peek_runnable :: "u64 \<Rightarrow> ('v, 'v Task option) sched_op" where
  "peek_runnable now s =
     (case s_queue s of
        [] \<Rightarrow> (Inr None, s)
      | i # rest \<Rightarrow>
          (case map_of (s_tasks s) i of
             None \<Rightarrow> (Inl (SE_Unknown i), s)
           | Some task \<Rightarrow>
               if \<not> deadline_reached task now then (Inr (Some task), s)
               else (case sched_transition i TimedOut (s\<lparr>s_queue := rest\<rparr>) of
                       (Inl e, s') \<Rightarrow> (Inl e, s')
                     | (Inr _, s') \<Rightarrow> peek_runnable now s')))"
  by pat_completeness auto
termination
proof (relation "measure (\<lambda>(now, s). length (s_queue s))", goal_cases)
  case (2 now s i rest task r s' x)
  have "length (s_queue (snd (sched_transition i TimedOut (s\<lparr>s_queue := rest\<rparr>)))) \<le> length rest"
    using sched_transition_queue_le [of TimedOut i "s\<lparr>s_queue := rest\<rparr>"] by simp
  moreover have "s' = snd (sched_transition i TimedOut (s\<lparr>s_queue := rest\<rparr>))"
    using 2 by (metis snd_conv)
  ultimately show ?case using 2 by simp
qed simp

declare peek_runnable.simps [simp del]

definition claim :: "u64 \<Rightarrow> ('v, 'v Task option) sched_op" where
  "claim now s =
     (case peek_runnable now s of
        (Inl e, s1) \<Rightarrow> (Inl e, s1)
      | (Inr None, s1) \<Rightarrow> (Inr None, s1)
      | (Inr (Some next), s1) \<Rightarrow>
          (let i = task_ident next in
           case s_queue s1 of
             [] \<Rightarrow> (Inl (SE_Unknown i), s1)
           | _ # rest \<Rightarrow>
               (let s2 = s1\<lparr>s_queue := rest\<rparr> in
                case map_of (s_tasks s2) i of
                  None \<Rightarrow> (Inl (SE_Unknown i), s2)
                | Some task \<Rightarrow>
                    (case begin_attempt task of
                       Inl e \<Rightarrow> (Inl (SE_InvalidTransition e), s2)
                     | Inr task' \<Rightarrow>
                         (Inr (Some task'),
                          s2\<lparr>s_tasks := AList.update i task' (s_tasks s2)\<rparr>)))))"

definition claim_with_lease ::
  "u64 \<Rightarrow> string \<Rightarrow> u64 \<Rightarrow> ('v, 'v TaskClaim option) sched_op" where
  "claim_with_lease now owner lease_ms s =
     (case validate_lease owner lease_ms of
        Inl e \<Rightarrow> (Inl e, s)
      | Inr _ \<Rightarrow>
     (case checked_add now lease_ms of
        None \<Rightarrow> (Inl SE_TimeRange, s)
      | Some until \<Rightarrow>
     (case claim now s of
        (Inl e, s1) \<Rightarrow> (Inl e, s1)
      | (Inr None, s1) \<Rightarrow> (Inr None, s1)
      | (Inr (Some task), s1) \<Rightarrow>
          (let i = task_ident task in
           case checked_add (case map_of (s_generations s1) i of None \<Rightarrow> 0 | Some g \<Rightarrow> g) 1 of
             None \<Rightarrow>
               (case sched_transition i Retrying s1 of
                  (Inl e, s2) \<Rightarrow> (Inl e, s2)
                | (Inr _, s2) \<Rightarrow>
                    (case sched_transition i Queued s2 of
                       (Inl e, s3) \<Rightarrow> (Inl e, s3)
                     | (Inr _, s3) \<Rightarrow> (Inl SE_GenerationExhausted, s3)))
           | Some generation \<Rightarrow>
               (let active = \<lparr>ac_generation = generation, ac_lease_owner = owner,
                              ac_lease_until_ms = until\<rparr>
                in (Inr (Some \<lparr>tc_task = task, tc_generation = generation,
                               tc_lease_owner = owner, tc_lease_until_ms = until\<rparr>),
                    s1\<lparr>s_generations := AList.update i generation (s_generations s1),
                       s_claims := AList.update i active (s_claims s1)\<rparr>))))))"

definition require_live_claim ::
  "'v TaskClaim \<Rightarrow> u64 \<Rightarrow> 'v Scheduler \<Rightarrow> (SchedulerError, ActiveClaim) result" where
  "require_live_claim c now s =
     (case map_of (s_claims s) (task_ident (tc_task c)) of
        None \<Rightarrow> Inl SE_LeaseLost
      | Some active \<Rightarrow>
          if ac_generation active \<noteq> tc_generation c
             \<or> ac_lease_owner active \<noteq> tc_lease_owner c
             \<or> ac_lease_until_ms active \<le> now
          then Inl SE_LeaseLost else Inr active)"

definition renew_claim :: "'v TaskClaim \<Rightarrow> u64 \<Rightarrow> u64 \<Rightarrow> ('v, 'v TaskClaim) sched_op" where
  "renew_claim c now lease_ms s =
     (case validate_lease (tc_lease_owner c) lease_ms of
        Inl e \<Rightarrow> (Inl e, s)
      | Inr _ \<Rightarrow>
     (case checked_add now lease_ms of
        None \<Rightarrow> (Inl SE_TimeRange, s)
      | Some until \<Rightarrow>
     (case require_live_claim c now s of
        Inl e \<Rightarrow> (Inl e, s)
      | Inr active \<Rightarrow>
          (let i = task_ident (tc_task c);
               s1 = s\<lparr>s_claims :=
                        AList.update i (active\<lparr>ac_lease_until_ms := until\<rparr>) (s_claims s)\<rparr>
           in case map_of (s_tasks s1) i of
                None \<Rightarrow> (Inl (SE_Unknown i), s1)
              | Some task \<Rightarrow>
                  (Inr \<lparr>tc_task = task, tc_generation = ac_generation active,
                        tc_lease_owner = ac_lease_owner active, tc_lease_until_ms = until\<rparr>,
                   s1)))))"

definition finish_claim :: "'v TaskClaim \<Rightarrow> u64 \<Rightarrow> TaskState \<Rightarrow> ('v, 'v Task) sched_op" where
  "finish_claim c now next s =
     (if next \<notin> {Suspended, Completed, Failed, Canceled, TimedOut}
      then (Inl (SE_InvalidClaimOutcome next), s)
      else case require_live_claim c now s of
          Inl e \<Rightarrow> (Inl e, s)
        | Inr _ \<Rightarrow> sched_transition (task_ident (tc_task c)) next s)"

definition release_claim :: "'v TaskClaim \<Rightarrow> u64 \<Rightarrow> ('v, 'v Task) sched_op" where
  "release_claim c now s =
     (case require_live_claim c now s of
        Inl e \<Rightarrow> (Inl e, s)
      | Inr _ \<Rightarrow>
          (let i = task_ident (tc_task c) in
           case map_of (s_tasks s) i of
             None \<Rightarrow> (Inl (SE_Unknown i), s)
           | Some task \<Rightarrow>
               if deadline_reached task now then sched_transition i TimedOut s
               else if s_capacity s \<le> length (s_queue s)
               then (Inl (SE_Full (s_capacity s)), s)
               else (case sched_transition i Retrying s of
                       (Inl e, s1) \<Rightarrow> (Inl e, s1)
                     | (Inr _, s1) \<Rightarrow> sched_transition i Queued s1)))"

fun requeue_claims_loop :: "u64 \<Rightarrow> TaskId list \<Rightarrow> TaskId list \<Rightarrow> ('v, TaskId list) sched_op" where
  "requeue_claims_loop now [] processed s = (Inr processed, s)"
| "requeue_claims_loop now (i # is) processed s =
     (case map_of (s_tasks s) i of
        None \<Rightarrow> (Inl (SE_Unknown i), s)
      | Some task \<Rightarrow>
          if deadline_reached task now then
            (case sched_transition i TimedOut s of
               (Inl e, s1) \<Rightarrow> (Inl e, s1)
             | (Inr _, s1) \<Rightarrow> requeue_claims_loop now is (processed @ [i]) s1)
          else if length (s_queue s) < s_capacity s then
            (case sched_transition i Retrying s of
               (Inl e, s1) \<Rightarrow> (Inl e, s1)
             | (Inr _, s1) \<Rightarrow>
                 (case sched_transition i Queued s1 of
                    (Inl e, s2) \<Rightarrow> (Inl e, s2)
                  | (Inr _, s2) \<Rightarrow> requeue_claims_loop now is (processed @ [i]) s2))
          else requeue_claims_loop now is processed s)"

definition requeue_claims :: "TaskId list \<Rightarrow> u64 \<Rightarrow> nat \<Rightarrow> ('v, TaskId list) sched_op" where
  "requeue_claims ids now limit s = requeue_claims_loop now (take limit ids) [] s"

definition requeue_expired :: "u64 \<Rightarrow> nat \<Rightarrow> ('v, TaskId list) sched_op" where
  "requeue_expired now limit s =
     (let expired = map fst (filter (\<lambda>(i, c). ac_lease_until_ms c \<le> now) (s_claims s))
      in requeue_claims (sort expired) now limit s)"

definition requeue_owner_claims :: "string \<Rightarrow> u64 \<Rightarrow> nat \<Rightarrow> ('v, TaskId list) sched_op" where
  "requeue_owner_claims owner now limit s =
     (case validate_lease_owner owner of
        Inl e \<Rightarrow> (Inl e, s)
      | Inr _ \<Rightarrow>
          (let owned = map fst (filter (\<lambda>(i, c). ac_lease_owner c = owner) (s_claims s))
           in requeue_claims (sort owned) now limit s))"

definition cancel :: "TaskId \<Rightarrow> ('v, 'v Task) sched_op" where
  "cancel i s =
     (case map_of (s_tasks s) i of
        None \<Rightarrow> (Inl (SE_Unknown i), s)
      | Some task \<Rightarrow>
          if is_terminal (t_state task) then (Inr task, s) else sched_transition i Canceled s)"

definition sched_get :: "'v Scheduler \<Rightarrow> TaskId \<Rightarrow> 'v Task option" where
  "sched_get s i = map_of (s_tasks s) i"

definition pending_len :: "'v Scheduler \<Rightarrow> nat" where
  "pending_len s = length (s_queue s)"

definition remaining_capacity :: "'v Scheduler \<Rightarrow> nat" where
  "remaining_capacity s = s_capacity s - length (s_queue s)"

subsection \<open>The invariant\<close>

definition sched_inv :: "'v Scheduler \<Rightarrow> bool" where
  "sched_inv s \<longleftrightarrow>
     0 < s_capacity s \<and> length (s_queue s) \<le> s_capacity s \<and> distinct (s_queue s) \<and>
     (\<forall>i. i \<in> set (s_queue s) \<longleftrightarrow>
        (\<exists>t. map_of (s_tasks s) i = Some t \<and> t_state t = Queued)) \<and>
     (\<forall>i t. map_of (s_tasks s) i = Some t \<longrightarrow> task_ident t = i \<and> t_state t \<noteq> Created) \<and>
     (\<forall>i c. map_of (s_claims s) i = Some c \<longrightarrow>
        (\<exists>t. map_of (s_tasks s) i = Some t \<and> t_state t \<in> {Running, WaitingIo}) \<and>
        map_of (s_generations s) i = Some (ac_generation c) \<and> 0 < ac_generation c) \<and>
     distinct (map fst (s_claims s))"

lemma sched_invD:
  assumes "sched_inv s"
  shows "0 < s_capacity s" and "length (s_queue s) \<le> s_capacity s" and "distinct (s_queue s)"
    and "i \<in> set (s_queue s) \<longleftrightarrow> (\<exists>t. map_of (s_tasks s) i = Some t \<and> t_state t = Queued)"
    and "map_of (s_tasks s) i = Some t \<Longrightarrow> task_ident t = i"
    and "map_of (s_tasks s) i = Some t \<Longrightarrow> t_state t \<noteq> Created"
    and "map_of (s_claims s) i = Some c \<Longrightarrow>
          \<exists>t. map_of (s_tasks s) i = Some t \<and> t_state t \<in> {Running, WaitingIo}"
    and "map_of (s_claims s) i = Some c \<Longrightarrow> map_of (s_generations s) i = Some (ac_generation c)"
    and "map_of (s_claims s) i = Some c \<Longrightarrow> 0 < ac_generation c"
    and "distinct (map fst (s_claims s))"
  using assms unfolding sched_inv_def by blast+

lemma sched_invI:
  assumes "0 < s_capacity s" and "length (s_queue s) \<le> s_capacity s" and "distinct (s_queue s)"
    and "\<And>i. i \<in> set (s_queue s) \<longleftrightarrow>
          (\<exists>t. map_of (s_tasks s) i = Some t \<and> t_state t = Queued)"
    and "\<And>i t. map_of (s_tasks s) i = Some t \<Longrightarrow> task_ident t = i \<and> t_state t \<noteq> Created"
    and "\<And>i c. map_of (s_claims s) i = Some c \<Longrightarrow>
          (\<exists>t. map_of (s_tasks s) i = Some t \<and> t_state t \<in> {Running, WaitingIo}) \<and>
          map_of (s_generations s) i = Some (ac_generation c) \<and> 0 < ac_generation c"
    and "distinct (map fst (s_claims s))"
  shows "sched_inv s"
  unfolding sched_inv_def using assms by blast

lemma Scheduler_new_inv: "Scheduler_new capacity = Inr s \<Longrightarrow> sched_inv s"
  by (auto simp: Scheduler_new_def sched_inv_def split: if_splits)

subsection \<open>Transitions\<close>

text \<open>The state a successful transition leaves.\<close>

definition moved :: "TaskId \<Rightarrow> 'v Task \<Rightarrow> TaskState \<Rightarrow> 'v Scheduler \<Rightarrow> 'v Scheduler" where
  "moved i t n s =
     s\<lparr>s_tasks := AList.update i (t\<lparr>t_state := n\<rparr>) (s_tasks s),
       s_queue := (if n = Queued then s_queue s @ [i]
                   else if is_terminal n then filter (\<lambda>q. q \<noteq> i) (s_queue s) else s_queue s),
       s_claims := (if n \<in> {Queued, Suspended, Retrying} \<or> is_terminal n
                    then AList.delete i (s_claims s) else s_claims s)\<rparr>"

lemma moved_simps [simp]:
  "s_capacity (moved i t n s) = s_capacity s"
  "s_generations (moved i t n s) = s_generations s"
  "map_of (s_tasks (moved i t n s)) = (map_of (s_tasks s))(i \<mapsto> t\<lparr>t_state := n\<rparr>)"
  "s_queue (moved i t n s) =
     (if n = Queued then s_queue s @ [i]
      else if is_terminal n then filter (\<lambda>q. q \<noteq> i) (s_queue s) else s_queue s)"
  "map_of (s_claims (moved i t n s)) =
     (if n \<in> {Queued, Suspended, Retrying} \<or> is_terminal n
      then (map_of (s_claims s))(i := None) else map_of (s_claims s))"
  by (auto simp: moved_def update_conv' delete_conv')

lemma sched_transition_cases:
  obtains (unknown) "map_of (s_tasks s) i = None"
      "sched_transition i n s = (Inl (SE_Unknown i), s)"
  | (full) t where "map_of (s_tasks s) i = Some t" "n = Queued" "s_capacity s \<le> length (s_queue s)"
      "sched_transition i n s = (Inl (SE_Full (s_capacity s)), s)"
  | (invalid) t e where "map_of (s_tasks s) i = Some t" "\<not> can_transition_to (t_state t) n"
      "sched_transition i n s = (Inl (SE_InvalidTransition e), s)"
  | (moved) t where "map_of (s_tasks s) i = Some t" "can_transition_to (t_state t) n"
      "n = Queued \<longrightarrow> length (s_queue s) < s_capacity s"
      "sched_transition i n s = (Inr (t\<lparr>t_state := n\<rparr>), moved i t n s)"
proof (cases "map_of (s_tasks s) i")
  case None
  then show ?thesis using unknown by (simp add: sched_transition_def)
next
  case (Some t)
  consider "n = Queued \<and> s_capacity s \<le> length (s_queue s)"
    | "\<not> (n = Queued \<and> s_capacity s \<le> length (s_queue s))" "\<not> can_transition_to (t_state t) n"
    | "\<not> (n = Queued \<and> s_capacity s \<le> length (s_queue s))" "can_transition_to (t_state t) n"
    by blast
  then show ?thesis
  proof cases
    case 1
    then show ?thesis using Some full by (simp add: sched_transition_def)
  next
    case 2
    then have "\<exists>e. sched_transition i n s = (Inl (SE_InvalidTransition e), s)"
      using Some by (auto simp: sched_transition_def Task_transition_def)
    with 2 Some invalid show ?thesis by blast
  next
    case 3
    then have "sched_transition i n s = (Inr (t\<lparr>t_state := n\<rparr>), moved i t n s)"
      using Some by (auto simp: sched_transition_def Task_transition_def moved_def Let_def)
    with 3 Some moved show ?thesis by fastforce
  qed
qed

lemma sched_transition_ok:
  assumes "map_of (s_tasks s) i = Some t" and "can_transition_to (t_state t) n"
    and "n = Queued \<longrightarrow> length (s_queue s) < s_capacity s"
  shows "sched_transition i n s = (Inr (t\<lparr>t_state := n\<rparr>), moved i t n s)"
  using assms
  by (cases rule: sched_transition_cases [where s = s and i = i and n = n]) auto

lemma moved_inv:
  assumes inv: "sched_inv s" and i: "map_of (s_tasks s) i = Some t"
    and n: "can_transition_to (t_state t) n"
    and room: "n = Queued \<longrightarrow> length (s_queue s) < s_capacity s"
    and nq: "\<not> (t_state t = Queued \<and> n = Running)"
  shows "sched_inv (moved i t n s)"
proof -
  note D = sched_invD [OF inv]
  have iq: "i \<in> set (s_queue s) \<longleftrightarrow> t_state t = Queued"
    using D(4) [of i] i by auto
  have nC: "n \<noteq> Created"
    using n can_transition_to_not_Created by blast
  have q: "t_state t = Queued \<Longrightarrow> is_terminal n"
    using n nq by (cases n) auto
  have qn: "n = Queued \<Longrightarrow> t_state t \<noteq> Queued"
    using n by auto
  have live: "n \<in> {Queued, Suspended, Retrying} \<or> is_terminal n \<or> n \<in> {Running, WaitingIo}"
    using nC by (cases n) auto
  have len: "length (filter (\<lambda>q. q \<noteq> i) (s_queue s)) \<le> s_capacity s"
    using D(2) le_trans length_filter_le by blast
  have queue: "j \<in> set (s_queue (moved i t n s)) \<longleftrightarrow>
      (\<exists>u. map_of (s_tasks (moved i t n s)) j = Some u \<and> t_state u = Queued)" for j
    using D(4) [of j] iq q qn by auto
  have claims: "(\<exists>u. map_of (s_tasks (moved i t n s)) j = Some u \<and> t_state u \<in> {Running, WaitingIo})
      \<and> map_of (s_generations (moved i t n s)) j = Some (ac_generation c) \<and> 0 < ac_generation c"
    if "map_of (s_claims (moved i t n s)) j = Some c" for j c
    using that D(7-9) [of j] live by (auto split: if_splits)
  show ?thesis
  proof (rule sched_invI)
    show "0 < s_capacity (moved i t n s)"
      using D(1) by simp
    show "length (s_queue (moved i t n s)) \<le> s_capacity (moved i t n s)"
      using len D(2) room by auto
    show "distinct (s_queue (moved i t n s))"
      using D(3) iq qn by auto
    show "task_ident u = j \<and> t_state u \<noteq> Created"
      if "map_of (s_tasks (moved i t n s)) j = Some u" for j u
      using that D(5) [of i t] D(5,6) [of j] i nC by (auto split: if_splits)
    show "distinct (map fst (s_claims (moved i t n s)))"
      using D(10) by (auto simp: moved_def intro: distinct_delete)
  qed (fact queue, fact claims)
qed

lemma sched_transition_inv [inv_intros]:
  assumes "sched_inv s" and "n \<noteq> Running" and "sched_transition i n s = (r, s')"
  shows "sched_inv s'"
  using assms moved_inv [OF assms(1)]
  by (cases rule: sched_transition_cases [where s = s and i = i and n = n]) auto

lemma sched_transition_resume_inv:
  assumes "sched_inv s" and "i \<notin> set (s_queue s)" and "sched_transition i n s = (r, s')"
  shows "sched_inv s'"
  using assms moved_inv [OF assms(1)] sched_invD(4) [OF assms(1), of i]
  by (cases rule: sched_transition_cases [where s = s and i = i and n = n]) auto

lemma retry_inv [inv_intros]:
  assumes "sched_inv s" and "sched_transition i Retrying s = (Inr t, s1)"
    and "sched_transition i Queued s1 = (r, s2)"
  shows "sched_inv s2"
proof -
  have "sched_inv s1" using assms(1) _ assms(2) by (rule sched_transition_inv) simp
  then show ?thesis using _ assms(3) by (rule sched_transition_inv) simp
qed

lemma sched_transition_gens: "s_generations (snd (sched_transition i n s)) = s_generations s"
  by (cases rule: sched_transition_cases [where s = s and i = i and n = n]) auto

lemma sched_transition_gens_eq:
  "sched_transition i n s = (r, s') \<Longrightarrow> s_generations s' = s_generations s"
  using sched_transition_gens by (metis snd_conv)

subsection \<open>Searching and claiming\<close>

definition overdue :: "'v Scheduler \<Rightarrow> u64 \<Rightarrow> TaskId \<Rightarrow> bool" where
  "overdue s now i =
     (case map_of (s_tasks s) i of None \<Rightarrow> False | Some t \<Rightarrow> deadline_reached t now)"

lemma timeout_front:
  assumes inv: "sched_inv s" and q: "s_queue s = i # rest" and t: "map_of (s_tasks s) i = Some t"
  shows "sched_transition i TimedOut (s\<lparr>s_queue := rest\<rparr>)
    = (Inr (t\<lparr>t_state := TimedOut\<rparr>), moved i t TimedOut s)"
    and "s_queue (moved i t TimedOut s) = rest" and "sched_inv (moved i t TimedOut s)"
    and "overdue (moved i t TimedOut s) now = overdue s now"
    and "map_of (s_claims (moved i t TimedOut s)) = map_of (s_claims s)"
proof -
  have st: "t_state t = Queued"
    using sched_invD(4) [OF inv, of i] q t by auto
  have d: "i \<notin> set rest" using sched_invD(3) [OF inv] q by simp
  have same: "moved i t TimedOut (s\<lparr>s_queue := rest\<rparr>) = moved i t TimedOut s"
    by (simp add: moved_def q)
  show "sched_transition i TimedOut (s\<lparr>s_queue := rest\<rparr>)
    = (Inr (t\<lparr>t_state := TimedOut\<rparr>), moved i t TimedOut s)"
    using sched_transition_ok [of "s\<lparr>s_queue := rest\<rparr>" i t TimedOut] t st same by simp
  show "s_queue (moved i t TimedOut s) = rest"
    using q d by (auto simp: filter_id_conv)
  show "sched_inv (moved i t TimedOut s)"
    by (rule moved_inv [OF inv t]) (simp_all add: st)
  show "overdue (moved i t TimedOut s) now = overdue s now"
    using t by (auto simp: overdue_def deadline_reached_def fun_eq_iff split: option.splits)
  have "map_of (s_claims s) i = None"
    using sched_invD(7) [OF inv, of i] st t by fastforce
  then show "map_of (s_claims (moved i t TimedOut s)) = map_of (s_claims s)"
    by auto
qed

text \<open>What a search leaves behind: the overdue prefix of the queue is timed out, nothing else
  changes.\<close>

definition expired_view :: "u64 \<Rightarrow> 'v Scheduler \<Rightarrow> 'v Scheduler \<Rightarrow> bool" where
  "expired_view now s s' \<longleftrightarrow>
     s_capacity s' = s_capacity s \<and> s_generations s' = s_generations s \<and>
     map_of (s_claims s') = map_of (s_claims s) \<and>
     s_queue s' = dropWhile (overdue s now) (s_queue s) \<and>
     (\<forall>j. map_of (s_tasks s') j =
        (if j \<in> set (takeWhile (overdue s now) (s_queue s))
         then map_option (\<lambda>t. t\<lparr>t_state := TimedOut\<rparr>) (map_of (s_tasks s) j)
         else map_of (s_tasks s) j))"

lemma peek_runnable_spec:
  assumes "sched_inv s"
  shows "\<exists>s'. peek_runnable now s =
      (Inr (case s_queue s' of [] \<Rightarrow> None | i # _ \<Rightarrow> map_of (s_tasks s) i), s')
    \<and> expired_view now s s' \<and> sched_inv s'"
  using assms
proof (induction "s_queue s" arbitrary: s)
  case Nil
  then show ?case
    using Nil.hyps [symmetric] by (auto simp: peek_runnable.simps [of now s] expired_view_def)
next
  case (Cons i rest)
  note q = Cons.hyps(2) [symmetric] and inv = Cons.prems
  obtain t where t: "map_of (s_tasks s) i = Some t" "t_state t = Queued"
    using sched_invD(4) [OF inv, of i] q by auto
  note front = timeout_front [OF inv q t(1)]
  have d: "i \<notin> set rest" using sched_invD(3) [OF inv] q by simp
  show ?case
  proof (cases "deadline_reached t now")
    case False
    then show ?thesis
      using q t inv by (auto simp: peek_runnable.simps [of now s] expired_view_def overdue_def)
  next
    case True
    let ?s1 = "moved i t TimedOut s"
    have unf: "peek_runnable now s = peek_runnable now ?s1"
      using True q t front(1) by (simp add: peek_runnable.simps [of now s])
    obtain s' where s': "peek_runnable now ?s1 =
        (Inr (case s_queue s' of [] \<Rightarrow> None | i # _ \<Rightarrow> map_of (s_tasks ?s1) i), s')"
        "expired_view now ?s1 s'" "sched_inv s'"
      using Cons.hyps(1) [OF front(2) [symmetric] front(3)] by blast
    have od: "overdue s now i" using True t by (simp add: overdue_def)
    have ev: "expired_view now s s'"
      using s'(2) od q t d front(2,4,5)
      by (auto simp: expired_view_def dest: set_takeWhileD)
    have "i \<notin> set (s_queue s')"
      using ev q d od by (auto simp: expired_view_def dest: set_dropWhileD)
    then have "(case s_queue s' of [] \<Rightarrow> None | j # _ \<Rightarrow> map_of (s_tasks ?s1) j)
        = (case s_queue s' of [] \<Rightarrow> None | j # _ \<Rightarrow> map_of (s_tasks s) j)"
      by (auto split: list.splits)
    with unf s' ev show ?thesis by auto
  qed
qed

definition started :: "'v Task \<Rightarrow> 'v Task" where
  "started t = t\<lparr>t_state := Running, t_attempt := saturating_add (t_attempt t) 1\<rparr>"

lemma claim_cases:
  assumes inv: "sched_inv s"
  obtains (empty) s1 where "expired_view now s s1" "sched_inv s1" "s_queue s1 = []"
      "claim now s = (Inr None, s1)"
  | (started) s1 i rest t where "expired_view now s s1" "sched_inv s1" "s_queue s1 = i # rest"
      "map_of (s_tasks s1) i = Some t" "map_of (s_tasks s) i = Some t" "task_ident t = i"
      "t_state t = Queued" "\<not> deadline_reached t now"
      "claim now s = (Inr (Some (started t)),
         s1\<lparr>s_queue := rest, s_tasks := AList.update i (started t) (s_tasks s1)\<rparr>)"
proof -
  obtain s1 where s1: "peek_runnable now s =
      (Inr (case s_queue s1 of [] \<Rightarrow> None | i # _ \<Rightarrow> map_of (s_tasks s) i), s1)"
      "expired_view now s s1" "sched_inv s1"
    using peek_runnable_spec [OF inv] by blast
  show ?thesis
  proof (cases "s_queue s1")
    case Nil
    with s1 empty show ?thesis by (simp add: claim_def)
  next
    case (Cons i rest)
    obtain t where t: "map_of (s_tasks s1) i = Some t" "t_state t = Queued" "task_ident t = i"
      using sched_invD(4,5) [OF s1(3), of i] Cons by auto
    have drop: "dropWhile (overdue s now) (s_queue s) = i # rest"
      using s1(2) Cons by (simp add: expired_view_def)
    have same: "map_of (s_tasks s) i = Some t"
    proof -
      have "i \<notin> set (takeWhile (overdue s now) (s_queue s))"
        using t s1(2) by (auto simp: expired_view_def split: if_splits)
      then show ?thesis using t(1) s1(2) by (simp add: expired_view_def)
    qed
    have "\<not> overdue s now i"
      using drop by (metis dropWhile_eq_Cons_conv)
    then have nd: "\<not> deadline_reached t now"
      using same by (simp add: overdue_def)
    have "begin_attempt t = Inr (started t)"
      using t(2) by (simp add: begin_attempt_Inr_iff started_def)
    then have "claim now s = (Inr (Some (started t)),
         s1\<lparr>s_queue := rest, s_tasks := AList.update i (started t) (s_tasks s1)\<rparr>)"
      using Cons t same s1 by (simp add: claim_def Let_def)
    with started [OF s1(2,3) Cons t(1) same t(3,2) nd] show ?thesis by simp
  qed
qed

lemma started_inv:
  assumes inv: "sched_inv s" and q: "s_queue s = i # rest"
    and t: "map_of (s_tasks s) i = Some t" "t_state t = Queued"
  shows "sched_inv (s\<lparr>s_queue := rest, s_tasks := AList.update i (started t) (s_tasks s)\<rparr>)"
proof -
  note D = sched_invD [OF inv]
  have d: "i \<notin> set rest" "distinct rest" using D(3) q by auto
  have nc: "map_of (s_claims s) i = None"
    using D(7) [of i] t by fastforce
  have queue: "j \<in> set rest \<longleftrightarrow>
      (\<exists>u. ((map_of (s_tasks s))(i \<mapsto> started t)) j = Some u \<and> t_state u = Queued)" for j
    using D(4) [of j] q d by (auto simp: started_def)
  have claims: "(\<exists>u. ((map_of (s_tasks s))(i \<mapsto> started t)) j = Some u
        \<and> t_state u \<in> {Running, WaitingIo})
      \<and> map_of (s_generations s) j = Some (ac_generation c) \<and> 0 < ac_generation c"
    if "map_of (s_claims s) j = Some c" for j c
    using that D(7-9) [of j] nc by auto
  have ids: "((map_of (s_tasks s))(i \<mapsto> started t)) j = Some u \<Longrightarrow>
      task_ident u = j \<and> t_state u \<noteq> Created" for j u
    using D(5,6) [of j] D(5) [of i] t by (auto simp: started_def split: if_splits)
  let ?s = "s\<lparr>s_queue := rest, s_tasks := AList.update i (started t) (s_tasks s)\<rparr>"
  have sel: "map_of (s_tasks ?s) = (map_of (s_tasks s))(i \<mapsto> started t)" "s_queue ?s = rest"
    "s_claims ?s = s_claims s" "s_generations ?s = s_generations s" "s_capacity ?s = s_capacity s"
    by (simp_all add: update_conv')
  show ?thesis
  proof (rule sched_invI, unfold sel)
    show "length rest \<le> s_capacity s" using D(2) q by simp
  qed (fact D(1), fact d(2), fact queue, fact ids, fact claims, fact D(10))
qed

lemma claim_inv [inv_intros]:
  assumes "sched_inv s" and "claim now s = (r, s')"
  shows "sched_inv s'"
  using assms(1) by (cases rule: claim_cases [where now = now]) (use assms(2) started_inv in auto)

lemma peek_runnable_inv [inv_intros]:
  "sched_inv s \<Longrightarrow> peek_runnable now s = (r, s') \<Longrightarrow> sched_inv s'"
  using peek_runnable_spec [of s now] by auto

lemma claim_Some:
  assumes inv: "sched_inv s" and c: "claim now s = (Inr (Some t), s1)"
  shows "\<exists>t0. map_of (s_tasks s) (task_ident t) = Some t0 \<and> t_state t0 = Queued
      \<and> \<not> deadline_reached t0 now \<and> t = started t0"
    and "map_of (s_tasks s1) (task_ident t) = Some t" and "t_state t = Running"
    and "map_of (s_claims s1) = map_of (s_claims s)"
    and "map_of (s_claims s) (task_ident t) = None"
  using inv
  by (cases rule: claim_cases [where now = now];
      use c sched_invD(7) [OF inv, of "task_ident t"] in
        \<open>fastforce simp: started_def update_conv' expired_view_def\<close>)+

lemma claim_gens: "sched_inv s \<Longrightarrow> claim now s = (r, s') \<Longrightarrow> s_generations s' = s_generations s"
  by (cases rule: claim_cases [where now = now]) (auto simp: expired_view_def)

lemma claim_no_error: "sched_inv s \<Longrightarrow> \<exists>r. fst (claim now s) = Inr r"
  by (cases rule: claim_cases [where now = now]) auto

subsection \<open>Leases\<close>

definition last_generation :: "'v Scheduler \<Rightarrow> TaskId \<Rightarrow> u64" where
  "last_generation s i = (case map_of (s_generations s) i of None \<Rightarrow> 0 | Some g \<Rightarrow> g)"

definition live_claim :: "'v Scheduler \<Rightarrow> TaskId \<Rightarrow> 'v TaskClaim \<Rightarrow> u64 \<Rightarrow> bool" where
  "live_claim s i c now \<longleftrightarrow>
     task_ident (tc_task c) = i \<and> (\<exists>a. require_live_claim c now s = Inr a)"

lemma require_live_claim_Inr_iff [result_simps]:
  "require_live_claim c now s = Inr a \<longleftrightarrow>
     map_of (s_claims s) (task_ident (tc_task c)) = Some a \<and>
     ac_generation a = tc_generation c \<and> ac_lease_owner a = tc_lease_owner c \<and>
     now < ac_lease_until_ms a"
  by (auto simp: require_live_claim_def split: option.splits if_splits)

lemma require_live_claim_Inl: "require_live_claim c now s = Inl e \<Longrightarrow> e = SE_LeaseLost"
  by (auto simp: require_live_claim_def split: option.splits if_splits)

lemma not_live_claim:
  "\<not> live_claim s (task_ident (tc_task c)) c now \<Longrightarrow> require_live_claim c now s = Inl SE_LeaseLost"
  using require_live_claim_Inl
  by (cases "require_live_claim c now s") (auto simp: live_claim_def)

text \<open>Recording a claim on a task that runs.\<close>

lemma leased_inv:
  assumes inv: "sched_inv s" and t: "map_of (s_tasks s) i = Some t" "t_state t \<in> {Running, WaitingIo}"
    and g: "0 < ac_generation a"
  shows "sched_inv (s\<lparr>s_generations := AList.update i (ac_generation a) (s_generations s),
                      s_claims := AList.update i a (s_claims s)\<rparr>)"
proof -
  note D = sched_invD [OF inv]
  let ?s = "s\<lparr>s_generations := AList.update i (ac_generation a) (s_generations s),
              s_claims := AList.update i a (s_claims s)\<rparr>"
  have sel: "map_of (s_claims ?s) = (map_of (s_claims s))(i \<mapsto> a)"
    "map_of (s_generations ?s) = (map_of (s_generations s))(i \<mapsto> ac_generation a)"
    "s_queue ?s = s_queue s" "s_tasks ?s = s_tasks s" "s_capacity ?s = s_capacity s"
    by (simp_all add: update_conv')
  show ?thesis
  proof (rule sched_invI, unfold sel)
    show "(\<exists>u. map_of (s_tasks s) j = Some u \<and> t_state u \<in> {Running, WaitingIo}) \<and>
        ((map_of (s_generations s))(i \<mapsto> ac_generation a)) j = Some (ac_generation c) \<and>
        0 < ac_generation c"
      if "((map_of (s_claims s))(i \<mapsto> a)) j = Some c" for j c
      using that D(7-9) [of j] t g by (auto split: if_splits)
    show "task_ident u = j \<and> t_state u \<noteq> Created" if "map_of (s_tasks s) j = Some u" for j u
      using that D(5,6) by blast
    show "distinct (map fst (s_claims ?s))"
      using D(10) by (simp add: distinct_update)
  qed (fact D(1-4))+
qed

lemma claim_with_lease_Some:
  assumes inv: "sched_inv s"
    and c: "claim_with_lease now owner lease_ms s = (Inr (Some tc), s')"
  defines "i \<equiv> task_ident (tc_task tc)"
  shows "\<exists>s1. claim now s = (Inr (Some (tc_task tc)), s1) \<and>
      s' = s1\<lparr>s_generations := AList.update i (tc_generation tc) (s_generations s1),
              s_claims := AList.update i \<lparr>ac_generation = tc_generation tc,
                 ac_lease_owner = owner, ac_lease_until_ms = tc_lease_until_ms tc\<rparr> (s_claims s1)\<rparr>"
    and "validate_lease owner lease_ms = Inr ()"
    and "checked_add now lease_ms = Some (tc_lease_until_ms tc)"
    and "checked_add (last_generation s i) 1 = Some (tc_generation tc)"
    and "tc_lease_owner tc = owner"
proof -
  obtain until t s1 where v: "validate_lease owner lease_ms = Inr ()"
    and u: "checked_add now lease_ms = Some until"
    and cl: "claim now s = (Inr (Some t), s1)"
    using c by (auto simp: claim_with_lease_def Let_def split: sum.splits option.splits prod.splits)
  obtain g where g: "checked_add (last_generation s1 (task_ident t)) 1 = Some g"
    and tc: "tc = \<lparr>tc_task = t, tc_generation = g, tc_lease_owner = owner,
        tc_lease_until_ms = until\<rparr>"
    and s': "s' = s1\<lparr>s_generations := AList.update (task_ident t) g (s_generations s1),
        s_claims := AList.update (task_ident t) \<lparr>ac_generation = g,
                 ac_lease_owner = owner, ac_lease_until_ms = until\<rparr> (s_claims s1)\<rparr>"
    using c v u cl
    by (auto simp: claim_with_lease_def Let_def last_generation_def
        split: sum.splits option.splits prod.splits)
  have "last_generation s1 j = last_generation s j" for j
    using claim_gens [OF inv cl] by (simp add: last_generation_def)
  with v u cl g tc s' show "\<exists>s1. claim now s = (Inr (Some (tc_task tc)), s1) \<and>
      s' = s1\<lparr>s_generations := AList.update i (tc_generation tc) (s_generations s1),
              s_claims := AList.update i \<lparr>ac_generation = tc_generation tc,
                 ac_lease_owner = owner, ac_lease_until_ms = tc_lease_until_ms tc\<rparr> (s_claims s1)\<rparr>"
    and "validate_lease owner lease_ms = Inr ()"
    and "checked_add now lease_ms = Some (tc_lease_until_ms tc)"
    and "checked_add (last_generation s i) 1 = Some (tc_generation tc)"
    and "tc_lease_owner tc = owner"
    by (simp_all add: i_def)
qed

lemma new_generation_pos: "checked_add g 1 = Some (g' :: u64) \<Longrightarrow> 0 < g'"
  by (drule checked_add_unat) (simp add: word_less_nat_alt)

lemma claim_with_lease_inv [inv_intros]:
  assumes inv: "sched_inv s" and c: "claim_with_lease now owner lease_ms s = (r, s')"
  shows "sched_inv s'"
proof (cases "\<exists>tc. r = Inr (Some tc)")
  case True
  then obtain tc where tc: "claim_with_lease now owner lease_ms s = (Inr (Some tc), s')"
    using c by blast
  note g = claim_with_lease_Some [OF inv tc]
  obtain s1 where s1: "claim now s = (Inr (Some (tc_task tc)), s1)"
    and s': "s' = s1\<lparr>s_generations := AList.update (task_ident (tc_task tc)) (tc_generation tc)
                 (s_generations s1),
              s_claims := AList.update (task_ident (tc_task tc))
                 \<lparr>ac_generation = tc_generation tc, ac_lease_owner = owner,
                  ac_lease_until_ms = tc_lease_until_ms tc\<rparr> (s_claims s1)\<rparr>"
    using g(1) by blast
  have "sched_inv s1" using inv s1 by (rule claim_inv)
  then show ?thesis
    using leased_inv [of s1 "task_ident (tc_task tc)" "tc_task tc"
        "\<lparr>ac_generation = tc_generation tc, ac_lease_owner = owner,
          ac_lease_until_ms = tc_lease_until_ms tc\<rparr>"]
      claim_Some(2,3) [OF inv s1] new_generation_pos [OF g(4)] s' by simp
next
  case False
  obtain r1 s1 where s1: "claim now s = (r1, s1)" by (cases "claim now s") blast
  have "sched_inv s1" using inv s1 by (rule claim_inv)
  with False c inv s1 show ?thesis
    by (auto simp: claim_with_lease_def Let_def intro: retry_inv sched_transition_inv
        split: sum.splits option.splits prod.splits)
qed

lemma renew_claim_inv [inv_intros]:
  assumes inv: "sched_inv s" and c: "renew_claim tc now lease_ms s = (r, s')"
  shows "sched_inv s'"
proof (cases "\<exists>a until. require_live_claim tc now s = Inr a \<and> s' = s\<lparr>s_claims :=
    AList.update (task_ident (tc_task tc)) (a\<lparr>ac_lease_until_ms := until\<rparr>) (s_claims s)\<rparr>")
  case True
  then obtain a until where a: "map_of (s_claims s) (task_ident (tc_task tc)) = Some a"
    and s': "s' = s\<lparr>s_claims :=
      AList.update (task_ident (tc_task tc)) (a\<lparr>ac_lease_until_ms := until\<rparr>) (s_claims s)\<rparr>"
    by (auto simp: result_simps)
  note D = sched_invD(7-9) [OF inv a]
  obtain t where t: "map_of (s_tasks s) (task_ident (tc_task tc)) = Some t"
    "t_state t \<in> {Running, WaitingIo}"
    using D(1) by blast
  have "AList.update (task_ident (tc_task tc)) (ac_generation a) (s_generations s) = s_generations s"
    using D(2) by (rule update_triv)
  then show ?thesis
    using leased_inv [OF inv t, of "a\<lparr>ac_lease_until_ms := until\<rparr>"] D(3) s' by simp
next
  case False
  then have "s' = s"
    using c by (auto simp: renew_claim_def Let_def split: sum.splits option.splits prod.splits)
  with inv show ?thesis by simp
qed

lemma finish_claim_inv [inv_intros]:
  "sched_inv s \<Longrightarrow> finish_claim c now n s = (r, s') \<Longrightarrow> sched_inv s'"
  by (auto simp: finish_claim_def intro: inv_intros split: if_splits sum.splits)

lemma release_claim_inv [inv_intros]:
  "sched_inv s \<Longrightarrow> release_claim c now s = (r, s') \<Longrightarrow> sched_inv s'"
  by (auto simp: release_claim_def Let_def intro: inv_intros
      split: if_splits sum.splits option.splits prod.splits)

lemma requeue_claims_loop_inv:
  "sched_inv s \<Longrightarrow> requeue_claims_loop now ids acc s = (r, s') \<Longrightarrow> sched_inv s'"
proof (induction ids arbitrary: acc s)
  case Nil
  then show ?case by simp
next
  case (Cons i ids)
  have IH: "requeue_claims_loop now ids acc' s1 = (r, s') \<Longrightarrow> sched_inv s1 \<Longrightarrow> sched_inv s'"
    for acc' s1 using Cons.IH by blast
  show ?case
    using Cons.prems
    by (auto split: option.splits if_splits prod.splits sum.splits
        intro: retry_inv sched_transition_inv elim!: IH)
qed

lemma requeue_expired_inv [inv_intros]:
  "sched_inv s \<Longrightarrow> requeue_expired now limit s = (r, s') \<Longrightarrow> sched_inv s'"
  by (auto simp: requeue_expired_def requeue_claims_def dest: requeue_claims_loop_inv)

lemma requeue_owner_claims_inv [inv_intros]:
  "sched_inv s \<Longrightarrow> requeue_owner_claims owner now limit s = (r, s') \<Longrightarrow> sched_inv s'"
  by (auto simp: requeue_owner_claims_def requeue_claims_def dest: requeue_claims_loop_inv
      split: sum.splits)

lemma cancel_inv [inv_intros]: "sched_inv s \<Longrightarrow> cancel i s = (r, s') \<Longrightarrow> sched_inv s'"
  by (auto simp: cancel_def intro: sched_transition_inv split: option.splits if_splits)

lemma enqueue_inv [inv_intros]:
  assumes inv: "sched_inv s" and e: "enqueue task s = (r, s')"
  shows "sched_inv s'"
proof (cases "r = Inr ()")
  case False
  then have "s' = s"
    using e by (auto simp: enqueue_def Let_def split: if_splits sum.splits)
  with inv show ?thesis by simp
next
  case True
  let ?i = "task_ident task" and ?t = "task\<lparr>t_state := Queued\<rparr>"
  note D = sched_invD [OF inv]
  have new: "map_of (s_tasks s) ?i = None" and room: "length (s_queue s) < s_capacity s"
    and s': "s' = s\<lparr>s_queue := s_queue s @ [?i], s_tasks := AList.update ?i ?t (s_tasks s)\<rparr>"
    using e True by (auto simp: enqueue_def Let_def result_simps split: if_splits sum.splits)
  have sel: "map_of (s_tasks s') = (map_of (s_tasks s))(?i \<mapsto> ?t)" "s_queue s' = s_queue s @ [?i]"
    "s_claims s' = s_claims s" "s_generations s' = s_generations s" "s_capacity s' = s_capacity s"
    by (simp_all add: s' update_conv')
  have fresh: "?i \<notin> set (s_queue s)" using D(4) [of ?i] new by simp
  show ?thesis
  proof (rule sched_invI, unfold sel)
    show "length (s_queue s @ [?i]) \<le> s_capacity s" using room by simp
    show "distinct (s_queue s @ [?i])" using D(3) fresh by simp
    show "j \<in> set (s_queue s @ [?i]) \<longleftrightarrow>
        (\<exists>u. ((map_of (s_tasks s))(?i \<mapsto> ?t)) j = Some u \<and> t_state u = Queued)" for j
      using D(4) [of j] by auto
    show "task_ident u = j \<and> t_state u \<noteq> Created"
      if "((map_of (s_tasks s))(?i \<mapsto> ?t)) j = Some u" for j u
      using that D(5,6) [of j] by (auto split: if_splits)
    show "(\<exists>u. ((map_of (s_tasks s))(?i \<mapsto> ?t)) j = Some u \<and> t_state u \<in> {Running, WaitingIo}) \<and>
        map_of (s_generations s) j = Some (ac_generation c) \<and> 0 < ac_generation c"
      if "map_of (s_claims s) j = Some c" for j c
      using that D(7-9) [of j c] new by auto
  qed (fact D(1), fact D(10))
qed

subsection \<open>Any interleaving of calls\<close>

text \<open>
  One rule per public mutator, whether the call succeeds or fails. \<open>transition\<close> is public: the
  rule excludes its use to start a queued task, which \<open>claim\<close> does (see
  \<open>transition_starts_without_dequeue\<close> below for what that call would do).
\<close>

inductive sched_step :: "'v Scheduler \<Rightarrow> 'v Scheduler \<Rightarrow> bool" where
  enqueue: "enqueue t s = (r, s') \<Longrightarrow> sched_step s s'"
| claim: "claim now s = (r, s') \<Longrightarrow> sched_step s s'"
| peek: "peek_runnable now s = (r, s') \<Longrightarrow> sched_step s s'"
| lease: "claim_with_lease now owner lease_ms s = (r, s') \<Longrightarrow> sched_step s s'"
| renew: "renew_claim c now lease_ms s = (r, s') \<Longrightarrow> sched_step s s'"
| finish: "finish_claim c now n s = (r, s') \<Longrightarrow> sched_step s s'"
| release: "release_claim c now s = (r, s') \<Longrightarrow> sched_step s s'"
| expire: "requeue_expired now limit s = (r, s') \<Longrightarrow> sched_step s s'"
| disconnect: "requeue_owner_claims owner now limit s = (r, s') \<Longrightarrow> sched_step s s'"
| transition: "sched_transition i n s = (r, s') \<Longrightarrow> n \<noteq> Running \<or> i \<notin> set (s_queue s) \<Longrightarrow>
    sched_step s s'"
| cancel: "cancel i s = (r, s') \<Longrightarrow> sched_step s s'"

inductive_cases sched_stepE: "sched_step s s'"

inductive sched_reachable :: "'v Scheduler \<Rightarrow> bool" where
  new: "Scheduler_new capacity = Inr s \<Longrightarrow> sched_reachable s"
| step: "sched_reachable s \<Longrightarrow> sched_step s s' \<Longrightarrow> sched_reachable s'"

lemma sched_step_inv: "sched_inv s \<Longrightarrow> sched_step s s' \<Longrightarrow> sched_inv s'"
  by (erule sched_stepE)
    (blast intro: inv_intros sched_transition_resume_inv)+

lemma sched_reachable_inv: "sched_reachable s \<Longrightarrow> sched_inv s"
  by (induction rule: sched_reachable.induct) (auto intro: Scheduler_new_inv sched_step_inv)

lemma requeue_claims_loop_gens:
  "requeue_claims_loop now ids acc s = (r, s') \<Longrightarrow> s_generations s' = s_generations s"
proof (induction ids arbitrary: acc s)
  case Nil
  then show ?case by simp
next
  case (Cons i ids)
  show ?case
    using Cons.prems
    by (auto split: option.splits if_splits prod.splits sum.splits
        dest!: sched_transition_gens_eq dest: Cons.IH)
qed

lemma claim_with_lease_gens:
  assumes inv: "sched_inv s" and c: "claim_with_lease now owner lease_ms s = (r, s')"
  shows "s_generations s' = s_generations s \<or> (\<exists>i g. checked_add (last_generation s i) 1 = Some g \<and>
    s_generations s' = AList.update i g (s_generations s))"
proof (cases "\<exists>tc. r = Inr (Some tc)")
  case True
  then obtain tc where tc: "claim_with_lease now owner lease_ms s = (Inr (Some tc), s')"
    using c by blast
  then show ?thesis
    using claim_with_lease_Some(1,4) [OF inv tc] claim_gens [OF inv] by force
next
  case False
  obtain r1 s1 where s1: "claim now s = (r1, s1)" by (cases "claim now s") blast
  have "s_generations s1 = s_generations s" using claim_gens [OF inv s1] .
  with False c inv s1 show ?thesis
    by (auto simp: claim_with_lease_def Let_def dest!: sched_transition_gens_eq
        split: sum.splits option.splits prod.splits)
qed

lemma sched_step_gens:
  assumes inv: "sched_inv s" and st: "sched_step s s'"
  shows "s_generations s' = s_generations s \<or> (\<exists>i g. checked_add (last_generation s i) 1 = Some g \<and>
    s_generations s' = AList.update i g (s_generations s))"
  using st
proof (cases rule: sched_step.cases)
  case (enqueue t r)
  then show ?thesis
    by (auto simp: enqueue_def Let_def split: if_splits sum.splits)
next
  case (claim now r)
  then show ?thesis using claim_gens [OF inv] by blast
next
  case (peek now r)
  then show ?thesis
    using peek_runnable_spec [OF inv, of now] by (auto simp: expired_view_def)
next
  case (lease now owner lease_ms r)
  then show ?thesis using claim_with_lease_gens [OF inv] by blast
next
  case (renew c now lease_ms r)
  then show ?thesis
    by (auto simp: renew_claim_def Let_def split: sum.splits option.splits)
next
  case (finish c now n r)
  then show ?thesis
    by (auto simp: finish_claim_def dest: sched_transition_gens_eq split: if_splits sum.splits)
next
  case (release c now r)
  then show ?thesis
    by (auto simp: release_claim_def Let_def dest!: sched_transition_gens_eq
        split: if_splits sum.splits option.splits prod.splits)
next
  case (expire now limit r)
  then show ?thesis
    by (auto simp: requeue_expired_def requeue_claims_def dest: requeue_claims_loop_gens)
next
  case (disconnect owner now limit r)
  then show ?thesis
    by (auto simp: requeue_owner_claims_def requeue_claims_def dest: requeue_claims_loop_gens
        split: sum.splits)
next
  case (transition i n r)
  then show ?thesis by (auto dest: sched_transition_gens_eq)
next
  case (cancel i r)
  then show ?thesis
    by (auto simp: cancel_def dest: sched_transition_gens_eq split: option.splits if_splits)
qed

lemma sched_step_gen_mono:
  assumes "sched_inv s" and "sched_step s s'"
  shows "unat (last_generation s i) \<le> unat (last_generation s' i)"
  using sched_step_gens [OF assms]
proof (elim disjE exE conjE)
  assume "s_generations s' = s_generations s"
  then show ?thesis by (simp add: last_generation_def)
next
  fix j g
  assume g: "checked_add (last_generation s j) 1 = Some g"
    and "s_generations s' = AList.update j g (s_generations s)"
  then have "last_generation s' i = (if i = j then g else last_generation s i)"
    by (simp add: last_generation_def update_conv')
  then show ?thesis using checked_add_unat [OF g] by simp
qed

interpretation claims: fenced_lease sched_inv sched_step
  "\<lambda>s i. unat (last_generation s i)" live_claim "\<lambda>c. unat (tc_generation c)"
proof unfold_locales
  fix s :: "'v Scheduler" and s'
  assume "sched_inv s" and "sched_step s s'"
  then show "sched_inv s'" by (rule sched_step_inv)
next
  fix s :: "'v Scheduler" and s' i
  assume "sched_inv s" and "sched_step s s'"
  then show "unat (last_generation s i) \<le> unat (last_generation s' i)"
    by (rule sched_step_gen_mono)
next
  fix s :: "'v Scheduler" and i c now
  assume "sched_inv s" and "live_claim s i c now"
  then show "unat (tc_generation c) = unat (last_generation s i)"
    using sched_invD(8) [of s i]
    by (auto simp: live_claim_def result_simps last_generation_def)
qed

subsection \<open>Crash recovery\<close>

text \<open>One round of the recovery loop on a task that holds a claim.\<close>

definition reclaimed :: "u64 \<Rightarrow> TaskId \<Rightarrow> 'v Task \<Rightarrow> 'v Scheduler \<Rightarrow> 'v Scheduler" where
  "reclaimed now i t s =
     (if deadline_reached t now then moved i t TimedOut s
      else moved i (t\<lparr>t_state := Retrying\<rparr>) Queued (moved i t Retrying s))"

lemma reclaimed_facts:
  assumes inv: "sched_inv s" and t: "map_of (s_tasks s) i = Some t" "t_state t \<in> {Running, WaitingIo}"
    and room: "deadline_reached t now \<or> length (s_queue s) < s_capacity s"
  shows "sched_inv (reclaimed now i t s)"
    and "map_of (s_claims (reclaimed now i t s)) = (map_of (s_claims s))(i := None)"
    and "\<exists>u. map_of (s_tasks (reclaimed now i t s)) i = Some u \<and> t_state u \<in> {Queued, TimedOut}"
    and "j \<noteq> i \<Longrightarrow> map_of (s_tasks (reclaimed now i t s)) j = map_of (s_tasks s) j"
    and "s_capacity (reclaimed now i t s) = s_capacity s"
    and "length (s_queue s) \<le> length (s_queue (reclaimed now i t s))"
proof -
  have nq: "i \<notin> set (s_queue s)"
    using sched_invD(4) [OF inv, of i] t by auto
  have f: "filter (\<lambda>q. q \<noteq> i) (s_queue s) = s_queue s"
    using nq by (auto simp: filter_id_conv)
  show "sched_inv (reclaimed now i t s)"
  proof (cases "deadline_reached t now")
    case True
    then show ?thesis
      using moved_inv [OF inv t(1), of TimedOut] t(2) by (auto simp: reclaimed_def)
  next
    case False
    have s1: "sched_inv (moved i t Retrying s)"
      using moved_inv [OF inv t(1), of Retrying] t(2) by auto
    show ?thesis
      using moved_inv [OF s1, of i "t\<lparr>t_state := Retrying\<rparr>" Queued] False room
      by (simp add: reclaimed_def)
  qed
  show "map_of (s_claims (reclaimed now i t s)) = (map_of (s_claims s))(i := None)"
    and "\<exists>u. map_of (s_tasks (reclaimed now i t s)) i = Some u \<and> t_state u \<in> {Queued, TimedOut}"
    and "j \<noteq> i \<Longrightarrow> map_of (s_tasks (reclaimed now i t s)) j = map_of (s_tasks s) j"
    and "s_capacity (reclaimed now i t s) = s_capacity s"
    and "length (s_queue s) \<le> length (s_queue (reclaimed now i t s))"
    by (auto simp: reclaimed_def f)
qed

lemma requeue_claims_loop_step:
  assumes inv: "sched_inv s" and t: "map_of (s_tasks s) i = Some t" "t_state t \<in> {Running, WaitingIo}"
  shows "requeue_claims_loop now (i # is) acc s =
    (if deadline_reached t now \<or> length (s_queue s) < s_capacity s
     then requeue_claims_loop now is (acc @ [i]) (reclaimed now i t s)
     else requeue_claims_loop now is acc s)"
proof -
  have to: "sched_transition i TimedOut s = (Inr (t\<lparr>t_state := TimedOut\<rparr>), moved i t TimedOut s)"
    and re: "sched_transition i Retrying s = (Inr (t\<lparr>t_state := Retrying\<rparr>), moved i t Retrying s)"
    using t by (auto intro!: sched_transition_ok)
  have qu: "sched_transition i Queued (moved i t Retrying s) =
      (Inr (t\<lparr>t_state := Queued\<rparr>), moved i (t\<lparr>t_state := Retrying\<rparr>) Queued (moved i t Retrying s))"
    if "length (s_queue s) < s_capacity s"
    using sched_transition_ok [of "moved i t Retrying s" i "t\<lparr>t_state := Retrying\<rparr>" Queued] that
    by simp
  show ?thesis
    using t(1) to re qu by (simp add: reclaimed_def)
qed

lemma requeue_claims_loop_spec:
  assumes "sched_inv s" and "distinct is" and "set is \<subseteq> dom (map_of (s_claims s))"
  shows "\<exists>ids s'. requeue_claims_loop now is acc s = (Inr (acc @ ids), s') \<and>
    set ids \<subseteq> set is \<and> length ids \<le> length is \<and>
    s_capacity s' = s_capacity s \<and> length (s_queue s) \<le> length (s_queue s') \<and>
    (\<forall>j. map_of (s_claims s') j = (if j \<in> set ids then None else map_of (s_claims s) j)) \<and>
    (\<forall>j. j \<notin> set ids \<longrightarrow> map_of (s_tasks s') j = map_of (s_tasks s) j) \<and>
    (\<forall>j \<in> set ids. \<exists>u. map_of (s_tasks s') j = Some u \<and> t_state u \<in> {Queued, TimedOut}) \<and>
    (set is - set ids \<noteq> {} \<longrightarrow> s_capacity s \<le> length (s_queue s'))"
  using assms
proof (induction "is" arbitrary: s acc)
  case Nil
  then show ?case by (auto intro!: exI [of _ "[]"])
next
  case (Cons i "is")
  obtain c where c: "map_of (s_claims s) i = Some c"
    using Cons.prems(3) by auto
  obtain t where t: "map_of (s_tasks s) i = Some t" "t_state t \<in> {Running, WaitingIo}"
    using sched_invD(7) [OF Cons.prems(1) c] by blast
  note step = requeue_claims_loop_step [OF Cons.prems(1) t, of now "is" acc]
  show ?case
  proof (cases "deadline_reached t now \<or> length (s_queue s) < s_capacity s")
    case True
    let ?s1 = "reclaimed now i t s"
    note f = reclaimed_facts [OF Cons.prems(1) t True]
    have sub: "set is \<subseteq> dom (map_of (s_claims ?s1))"
      using Cons.prems(2,3) f(2) by auto
    obtain ids s' where r: "requeue_claims_loop now is (acc @ [i]) ?s1 = (Inr ((acc @ [i]) @ ids), s')"
      and p: "set ids \<subseteq> set is" "length ids \<le> length is" "s_capacity s' = s_capacity ?s1"
        "length (s_queue ?s1) \<le> length (s_queue s')"
        "\<forall>j. map_of (s_claims s') j = (if j \<in> set ids then None else map_of (s_claims ?s1) j)"
        "\<forall>j. j \<notin> set ids \<longrightarrow> map_of (s_tasks s') j = map_of (s_tasks ?s1) j"
        "\<forall>j \<in> set ids. \<exists>u. map_of (s_tasks s') j = Some u \<and> t_state u \<in> {Queued, TimedOut}"
        "set is - set ids \<noteq> {} \<longrightarrow> s_capacity ?s1 \<le> length (s_queue s')"
      using Cons.IH [OF f(1) _ sub, of "acc @ [i]"] Cons.prems(2) by auto
    have ni: "i \<notin> set ids" using p(1) Cons.prems(2) by auto
    have "map_of (s_tasks s') i = map_of (s_tasks ?s1) i" using p(6) ni by blast
    then show ?thesis
      using True step r p f(2-6) ni
      by (intro exI [of _ "i # ids"] exI [of _ s']) (auto simp: fun_eq_iff)
  next
    case False
    have sub: "set is \<subseteq> dom (map_of (s_claims s))" using Cons.prems(3) by auto
    obtain ids s' where r: "requeue_claims_loop now is acc s = (Inr (acc @ ids), s')"
      and p: "set ids \<subseteq> set is" "length ids \<le> length is" "s_capacity s' = s_capacity s"
        "length (s_queue s) \<le> length (s_queue s')"
        "\<forall>j. map_of (s_claims s') j = (if j \<in> set ids then None else map_of (s_claims s) j)"
        "\<forall>j. j \<notin> set ids \<longrightarrow> map_of (s_tasks s') j = map_of (s_tasks s) j"
        "\<forall>j \<in> set ids. \<exists>u. map_of (s_tasks s') j = Some u \<and> t_state u \<in> {Queued, TimedOut}"
        "set is - set ids \<noteq> {} \<longrightarrow> s_capacity s \<le> length (s_queue s')"
      using Cons.IH [OF Cons.prems(1) _ sub, of acc] Cons.prems(2) by auto
    show ?thesis
      using False step r p by (intro exI [of _ ids] exI [of _ s']) auto
  qed
qed

subsection \<open>A concrete run\<close>


lemmas sched_eval = enqueue_def claim_with_lease_def claim_def peek_runnable.simps
  sched_transition_def requeue_expired_def requeue_claims_def validate_lease_def
  validate_lease_owner_def MAX_LEASE_OWNER_BYTES_def MAX_LEASE_MS_def is_lease_owner_byte_def
  ascii_defs deadline_reached_def begin_attempt_def Task_transition_def started_def
  checked_add_def saturating_add_def Let_def require_live_claim_def

definition demo_run :: "TaskState \<Rightarrow> u32 \<Rightarrow> unit Task" where
  "demo_run st n = \<lparr>t_meta = demo_meta, t_trigger = TT_Agent ''planner'', t_input = (),
     t_state = st, t_attempt = n, t_deadline_ms = Some 100\<rparr>"

definition demo_sched ::
  "TaskId list \<Rightarrow> unit Task list \<Rightarrow> ActiveClaim list \<Rightarrow> u64 list \<Rightarrow> unit Scheduler" where
  "demo_sched q ts cs gs = \<lparr>s_capacity = 2, s_queue = q, s_tasks = map (Pair 42) ts,
     s_claims = map (Pair 42) cs, s_generations = map (Pair 42) gs\<rparr>"

definition demo_claim :: "u64 \<Rightarrow> string \<Rightarrow> u64 \<Rightarrow> u32 \<Rightarrow> unit TaskClaim" where
  "demo_claim g owner until n = \<lparr>tc_task = demo_run Running n, tc_generation = g,
     tc_lease_owner = owner, tc_lease_until_ms = until\<rparr>"

abbreviation demo_active :: "u64 \<Rightarrow> string \<Rightarrow> u64 \<Rightarrow> ActiveClaim" where
  "demo_active g owner until \<equiv> \<lparr>ac_generation = g, ac_lease_owner = owner, ac_lease_until_ms = until\<rparr>"

lemmas demo_defs = demo_run_def demo_sched_def demo_claim_def demo_task_def Task_new_def demo_meta_def

lemma demo_enqueue:
  "enqueue demo_task (demo_sched [] [] [] []) = (Inr (), demo_sched [42] [demo_run Queued 0] [] [])"
  by (simp add: sched_eval demo_defs)

lemma demo_lease:
  "claim_with_lease 10 ''w1'' 50 (demo_sched [42] [demo_run Queued 0] [] []) =
     (Inr (Some (demo_claim 1 ''w1'' 60 1)),
      demo_sched [] [demo_run Running 1] [demo_active 1 ''w1'' 60] [1])"
  by (simp add: sched_eval demo_defs)

lemma demo_requeue:
  "requeue_expired 60 5 (demo_sched [] [demo_run Running 1] [demo_active 1 ''w1'' 60] [1]) =
     (Inr [42], demo_sched [42] [demo_run Queued 1] [] [1])"
  by (simp add: sched_eval demo_defs)

lemma demo_lease_again:
  "claim_with_lease 70 ''w2'' 20 (demo_sched [42] [demo_run Queued 1] [] [1]) =
     (Inr (Some (demo_claim 2 ''w2'' 90 2)),
      demo_sched [] [demo_run Running 2] [demo_active 2 ''w2'' 90] [2])"
  by (simp add: sched_eval demo_defs)

lemma demo_queued_reachable: "sched_reachable (demo_sched [42] [demo_run Queued 0] [] [])"
proof -
  have "sched_reachable (demo_sched [] [] [] [])"
    by (rule sched_reachable.new [of 2]) (simp add: Scheduler_new_def demo_sched_def)
  then show ?thesis
    by (rule sched_reachable.step [OF _ sched_step.enqueue [OF demo_enqueue]])
qed

lemma demo_leased_reachable:
  "sched_reachable (demo_sched [] [demo_run Running 1] [demo_active 1 ''w1'' 60] [1])"
  by (rule sched_reachable.step [OF demo_queued_reachable sched_step.lease [OF demo_lease]])

lemma demo_live: "live_claim (demo_sched [] [demo_run Running g] [demo_active 1 o' u] [1]) 42
    (demo_claim 1 o' u n) now \<longleftrightarrow> now < u"
  by (auto simp: live_claim_def result_simps demo_defs)

lemma demo_live_again: "live_claim (demo_sched [] [demo_run Running g] [demo_active 2 o' u] [2]) 42
    (demo_claim 2 o' u n) now \<longleftrightarrow> now < u"
  by (auto simp: live_claim_def result_simps demo_defs)

subsection \<open>Properties\<close>







text \<open>
  C9. Fencing: once a later claim on a task has been live, the earlier one never works again,
  whatever calls happen in between or after. Renewing, finishing or releasing it is refused with
  an error and leaves the scheduler exactly as it was.
\<close>

theorem superseded_claim_fenced:
  assumes "sched_reachable s" and "live_claim s i old now"
    and "sched_step\<^sup>*\<^sup>* s s'" and "live_claim s' i new later"
    and "tc_generation new \<noteq> tc_generation old" and "sched_step\<^sup>*\<^sup>* s' s''"
  shows "release_claim old t s'' = (Inl SE_LeaseLost, s'')
    \<and> (\<exists>e. finish_claim old t n s'' = (Inl e, s''))
    \<and> (\<exists>e. renew_claim old t lease_ms s'' = (Inl e, s''))"
proof -
  have inv: "sched_inv s" using assms(1) by (rule sched_reachable_inv)
  have i: "task_ident (tc_task old) = i" using assms(2) by (simp add: live_claim_def)
  have "\<not> live_claim s'' i old t"
    using claims.superseded_never_honoured [OF inv assms(2,3,4) _ assms(6)] assms(5)
    by (auto dest: unsigned_word_eqI)
  then have lost: "require_live_claim old t s'' = Inl SE_LeaseLost"
    using not_live_claim [of s'' old t] i by simp
  then show ?thesis
    by (auto simp: release_claim_def finish_claim_def renew_claim_def
        split: sum.splits option.splits)
qed

theorem superseded_claim_fenced_witness:
  "release_claim (demo_claim 1 ''w1'' 60 1) 75
     (demo_sched [] [demo_run Running 2] [demo_active 2 ''w2'' 90] [2]) =
   (Inl SE_LeaseLost, demo_sched [] [demo_run Running 2] [demo_active 2 ''w2'' 90] [2])"
proof -
  have run: "sched_step\<^sup>*\<^sup>* (demo_sched [] [demo_run Running 1] [demo_active 1 ''w1'' 60] [1])
      (demo_sched [] [demo_run Running 2] [demo_active 2 ''w2'' 90] [2])"
    using sched_step.expire [OF demo_requeue] sched_step.lease [OF demo_lease_again]
    by (meson converse_rtranclp_into_rtranclp rtranclp.rtrancl_refl)
  show ?thesis
    using superseded_claim_fenced [OF demo_leased_reachable demo_live [THEN iffD2] run
        demo_live_again [THEN iffD2] _ rtranclp.rtrancl_refl, of 20 75]
    by (simp add: demo_claim_def)
qed

text \<open>
  C20. Crash recovery is complete and safe: \<open>requeue_expired\<close> never fails on a reachable scheduler;
  it reclaims at most \<open>limit\<close> tasks, all of whose leases had expired; each of them loses its claim
  and is queued again or timed out; every other task and claim is untouched; and an expired claim
  among the first \<open>limit\<close> that is left behind means that the queue is full.
\<close>

theorem requeue_expired_recovers:
  fixes now :: u64
  assumes "sched_reachable s"
  defines "expired \<equiv> sort (map fst (filter (\<lambda>(i, c). ac_lease_until_ms c \<le> now) (s_claims s)))"
  shows "\<exists>ids s'. requeue_expired now limit s = (Inr ids, s') \<and> length ids \<le> limit
    \<and> (\<forall>j \<in> set ids. (\<exists>c. map_of (s_claims s) j = Some c \<and> ac_lease_until_ms c \<le> now)
         \<and> map_of (s_claims s') j = None
         \<and> (\<exists>u. sched_get s' j = Some u \<and> t_state u \<in> {Queued, TimedOut}))
    \<and> (\<forall>j. j \<notin> set ids \<longrightarrow> map_of (s_claims s') j = map_of (s_claims s) j
         \<and> sched_get s' j = sched_get s j)
    \<and> (set (take limit expired) - set ids \<noteq> {} \<longrightarrow> s_capacity s' \<le> length (s_queue s'))"
proof -
  have inv: "sched_inv s" using assms(1) by (rule sched_reachable_inv)
  have dist: "distinct expired"
    using sched_invD(10) [OF inv] by (simp add: expired_def distinct_map_filter)
  have exp: "j \<in> set expired \<Longrightarrow>
      \<exists>c. map_of (s_claims s) j = Some c \<and> ac_lease_until_ms c \<le> now" for j
    using sched_invD(10) [OF inv] by (auto simp: expired_def)
  have sub: "set (take limit expired) \<subseteq> set expired"
    by (rule set_take_subset)
  then have "set (take limit expired) \<subseteq> dom (map_of (s_claims s))"
    using exp by (fastforce simp: domIff)
  from requeue_claims_loop_spec [OF inv distinct_take [OF dist] this, of now "[]"]
  obtain ids s' where r: "requeue_claims_loop now (take limit expired) [] s = (Inr ids, s')"
    and p: "set ids \<subseteq> set (take limit expired)" "length ids \<le> length (take limit expired)"
      "s_capacity s' = s_capacity s"
      "\<forall>j. map_of (s_claims s') j = (if j \<in> set ids then None else map_of (s_claims s) j)"
      "\<forall>j. j \<notin> set ids \<longrightarrow> map_of (s_tasks s') j = map_of (s_tasks s) j"
      "\<forall>j \<in> set ids. \<exists>u. map_of (s_tasks s') j = Some u \<and> t_state u \<in> {Queued, TimedOut}"
      "set (take limit expired) - set ids \<noteq> {} \<longrightarrow> s_capacity s \<le> length (s_queue s')"
    by auto
  have "requeue_expired now limit s = (Inr ids, s')"
    using r by (simp add: requeue_expired_def requeue_claims_def expired_def)
  moreover have "length ids \<le> limit" using p(2) by simp
  ultimately show ?thesis
    using p exp sub by (intro exI [of _ ids] exI [of _ s']) (auto simp: sched_get_def)
qed

theorem requeue_expired_recovers_witness:
  "\<exists>ids s'. requeue_expired 60 5 (demo_sched [] [demo_run Running 1] [demo_active 1 ''w1'' 60] [1])
     = (Inr ids, s') \<and> length ids \<le> 5"
  using requeue_expired_recovers [OF demo_leased_reachable, of 60 5] by blast

text \<open>
  The guard of the \<open>transition\<close> step is needed: starting a queued task through \<open>transition\<close> leaves
  its id in the queue, and a later requeue enters it a second time.
\<close>

lemma transition_starts_without_dequeue:
  "s_queue (snd (sched_transition 42 Running (demo_sched [42] [demo_run Queued 0] [] []))) = [42]"
  "s_queue (snd (sched_transition 42 Queued
     (snd (sched_transition 42 Suspended
       (snd (sched_transition 42 Running (demo_sched [42] [demo_run Queued 0] [] []))))))) = [42, 42]"
  by (simp_all add: sched_eval demo_defs)

end
