(* ===== verification/Tysel_Text.thy ===== *)
theory Tysel_Text
  imports Tysel_Prelude
begin

text \<open>
  What the code uses of \<open>str\<close>: splitting and joining, prefixes, searching, lines, and decimal numbers.
  A string is its list of bytes.
\<close>

subsection \<open>Splitting\<close>

text \<open>\<open>str::split_once\<close> and \<open>str::rsplit_once\<close> on one byte, \<open>split\<close> and \<open>join\<close>.\<close>

fun split_once :: "char \<Rightarrow> string \<Rightarrow> (string \<times> string) option" where
  "split_once c [] = None"
| "split_once c (x # xs) =
     (if x = c then Some ([], xs)
      else case split_once c xs of None \<Rightarrow> None | Some (a, b) \<Rightarrow> Some (x # a, b))"

definition rsplit_once :: "char \<Rightarrow> string \<Rightarrow> (string \<times> string) option" where
  "rsplit_once c s =
     (case split_once c (rev s) of None \<Rightarrow> None | Some (a, b) \<Rightarrow> Some (rev b, rev a))"

fun split_on :: "char \<Rightarrow> string \<Rightarrow> string list" where
  "split_on sep [] = [[]]"
| "split_on sep (c # cs) =
     (if c = sep then [] # split_on sep cs
      else case split_on sep cs of [] \<Rightarrow> [[c]] | part # parts \<Rightarrow> (c # part) # parts)"

fun join_with :: "char \<Rightarrow> string list \<Rightarrow> string" where
  "join_with sep [] = []"
| "join_with sep [l] = l"
| "join_with sep (l # ls) = l @ sep # join_with sep ls"

lemma split_once_append: "c \<notin> set xs \<Longrightarrow> split_once c (xs @ c # ys) = Some (xs, ys)"
  by (induction xs) auto

lemma split_once_Some: "split_once c s = Some (a, b) \<Longrightarrow> s = a @ c # b \<and> c \<notin> set a"
proof (induction s arbitrary: a)
  case (Cons x xs)
  show ?case
  proof (cases "x = c")
    case False
    then obtain a' where "split_once c xs = Some (a', b)" "a = x # a'"
      using Cons.prems by (cases "split_once c xs") auto
    then show ?thesis using Cons.IH [of a'] False by simp
  qed (use Cons.prems in auto)
qed simp

lemma rsplit_once_append: "c \<notin> set ys \<Longrightarrow> rsplit_once c (xs @ c # ys) = Some (xs, ys)"
  using split_once_append [of c "rev ys" "rev xs"] by (simp add: rsplit_once_def)

lemma split_on_not_Nil [simp]: "split_on sep s \<noteq> []"
  by (induction s) (auto split: list.splits)

lemma split_on_id: "sep \<notin> set s \<Longrightarrow> split_on sep s = [s]"
  by (induction s) auto

lemma split_on_append: "sep \<notin> set l \<Longrightarrow> split_on sep (l @ sep # s) = l # split_on sep s"
  by (induction l) auto

lemma split_on_clean: "part \<in> set (split_on sep s) \<Longrightarrow> sep \<notin> set part"
  by (induction s arbitrary: part) (auto split: if_split_asm list.splits)

lemma join_with_Cons: "ls \<noteq> [] \<Longrightarrow> join_with sep (l # ls) = l @ sep # join_with sep ls"
  by (cases ls) simp_all

lemma join_with_prepend: "ls \<noteq> [] \<Longrightarrow> join_with sep ((s @ hd ls) # tl ls) = s @ join_with sep ls"
  by (cases ls; cases "tl ls") simp_all

lemma split_on_join: "ls \<noteq> [] \<Longrightarrow> \<forall>l \<in> set ls. sep \<notin> set l \<Longrightarrow> split_on sep (join_with sep ls) = ls"
  by (induction sep ls rule: join_with.induct) (simp_all add: split_on_id split_on_append)

lemma join_split_on: "join_with sep (split_on sep s) = s"
proof (induction s)
  case (Cons c s)
  obtain p ps where ps: "split_on sep s = p # ps" by (cases "split_on sep s") auto
  show ?case
  proof (cases "c = sep")
    case False
    then show ?thesis using Cons ps by (cases ps) auto
  qed (use Cons ps in \<open>simp add: join_with_Cons\<close>)
qed simp

subsection \<open>Prefixes, searching, lines\<close>

fun strip_prefix :: "string \<Rightarrow> string \<Rightarrow> string option" where
  "strip_prefix [] s = Some s"
| "strip_prefix (p # ps) [] = None"
| "strip_prefix (p # ps) (c # cs) = (if p = c then strip_prefix ps cs else None)"

definition starts_with :: "string \<Rightarrow> string \<Rightarrow> bool" where
  "starts_with p s \<longleftrightarrow> take (length p) s = p"

definition ends_with :: "string \<Rightarrow> string \<Rightarrow> bool" where
  "ends_with p s \<longleftrightarrow> starts_with (rev p) (rev s)"

lemma strip_prefix_Some_iff: "strip_prefix p s = Some r \<longleftrightarrow> s = p @ r"
  by (induction p s rule: strip_prefix.induct) auto

lemma starts_with_iff: "starts_with p s \<longleftrightarrow> (\<exists>r. s = p @ r)"
  by (auto simp: starts_with_def intro: exI [of _ "drop (length p) s"] append_take_drop_id [symmetric])
    (metis append_take_drop_id)

text \<open>\<open>str::find\<close>: the offset of the first occurrence.\<close>

fun str_find :: "string \<Rightarrow> string \<Rightarrow> nat option" where
  "str_find needle [] = (if needle = [] then Some 0 else None)"
| "str_find needle (c # cs) =
     (if starts_with needle (c # cs) then Some 0 else map_option Suc (str_find needle cs))"

lemma str_find_Some: "str_find needle s = Some i \<Longrightarrow> i + length needle \<le> length s \<and> take (length needle) (drop i s) = needle"
proof (induction s arbitrary: i)
  case (Cons c s)
  show ?case
  proof (cases "starts_with needle (c # s)")
    case True
    then have "take (length needle) (c # s) = needle" by (simp add: starts_with_def)
    moreover from this have "length needle \<le> length (c # s)" by (metis nat_le_linear take_all)
    ultimately show ?thesis using Cons.prems True by simp
  qed (use Cons in auto)
qed (auto split: if_split_asm)

text \<open>\<open>str::lines\<close>: a line ends at a line feed, and a carriage return before it belongs to the ending.\<close>

definition newline :: char where
  "newline = CHR 0x0A"

definition strip_carriage_return :: "string \<Rightarrow> string" where
  "strip_carriage_return l = (if l \<noteq> [] \<and> last l = CHR 0x0D then butlast l else l)"

fun lines_of_parts :: "string list \<Rightarrow> string list" where
  "lines_of_parts [] = []"
| "lines_of_parts [l] = (if l = [] then [] else [l])"
| "lines_of_parts (l # ls) = strip_carriage_return l # lines_of_parts ls"

definition str_lines :: "string \<Rightarrow> string list" where
  "str_lines s = lines_of_parts (split_on newline s)"

subsection \<open>Decimal numbers\<close>

text \<open>Decimal \<open>Display\<close> of an unsigned integer.\<close>

fun nat_to_string :: "nat \<Rightarrow> string" where
  "nat_to_string n =
     (if n < 10 then [char_of (48 + n)]
      else nat_to_string (n div 10) @ [char_of (48 + n mod 10)])"

declare nat_to_string.simps [simp del]

text \<open>\<open>parse\<close> of an unsigned integer of \<open>k\<close> bits from a string of decimal digits.\<close>

definition decimal_value :: "string \<Rightarrow> nat" where
  "decimal_value ds = foldl (\<lambda>acc c. 10 * acc + (byte_val c - 48)) 0 ds"

definition parse_decimal :: "nat \<Rightarrow> string \<Rightarrow> nat option" where
  "parse_decimal k ds =
     (if ds \<noteq> [] \<and> list_all is_ascii_digit ds \<and> decimal_value ds < 2 ^ k then Some (decimal_value ds) else None)"

lemma nat_to_string_digits: "c \<in> set (nat_to_string n) \<Longrightarrow> is_ascii_digit c"
proof (induction n rule: nat_to_string.induct)
  case (1 n)
  show ?case
  proof (cases "n < 10")
    case True
    with "1.prems" show ?thesis
      by (simp add: nat_to_string.simps [of n] is_ascii_digit_def)
  next
    case False
    have "n mod 10 < 10" by simp
    then have "is_ascii_digit (char_of (48 + n mod 10))"
      by (simp add: is_ascii_digit_def)
    with "1.prems" "1.IH" False show ?thesis
      by (auto simp: nat_to_string.simps [of n])
  qed
qed

lemma nat_to_string_length: "n < 10 ^ Suc k \<Longrightarrow> length (nat_to_string n) \<le> Suc k"
proof (induction k arbitrary: n)
  case 0
  then show ?case by (simp add: nat_to_string.simps [of n])
next
  case (Suc k)
  show ?case
  proof (cases "n < 10")
    case True
    then show ?thesis by (simp add: nat_to_string.simps [of n])
  next
    case False
    have "n div 10 < 10 ^ Suc k" using Suc.prems by auto
    from Suc.IH [OF this] False show ?thesis by (simp add: nat_to_string.simps [of n])
  qed
qed

lemma u64_to_string_length: "length (nat_to_string (unat (w :: u64))) \<le> 20"
proof -
  have "unat w < 10 ^ Suc 19" using unat_less_2p [of w] by simp
  from nat_to_string_length [OF this] show ?thesis by simp
qed

lemma decimal_value_append: "decimal_value (xs @ [c]) = 10 * decimal_value xs + (byte_val c - 48)"
  by (simp add: decimal_value_def)

lemma decimal_value_nat_to_string: "decimal_value (nat_to_string n) = n"
proof (induction n rule: nat_to_string.induct)
  case (1 n)
  show ?case
  proof (cases "n < 10")
    case True
    then show ?thesis by (simp add: nat_to_string.simps [of n] decimal_value_def)
  next
    case False
    then show ?thesis using 1 by (simp add: nat_to_string.simps [of n] decimal_value_append)
  qed
qed

lemma nat_to_string_not_Nil [simp]: "nat_to_string n \<noteq> []"
  by (subst nat_to_string.simps) simp

lemma parse_decimal_nat_to_string: "n < 2 ^ k \<Longrightarrow> parse_decimal k (nat_to_string n) = Some n"
  by (auto simp: parse_decimal_def decimal_value_nat_to_string list_all_iff nat_to_string_digits)

subsection \<open>Ordered sets of strings\<close>

text \<open>The byte order of strings, and a \<open>BTreeSet\<close> as its list in this order.\<close>

fun bytes_less :: "string \<Rightarrow> string \<Rightarrow> bool" where
  "bytes_less s [] = False"
| "bytes_less [] (d # t) = True"
| "bytes_less (c # s) (d # t) =
     (byte_val c < byte_val d \<or> byte_val c = byte_val d \<and> bytes_less s t)"

fun btree_insert :: "string \<Rightarrow> string list \<Rightarrow> string list" where
  "btree_insert x [] = [x]"
| "btree_insert x (y # ys) =
     (if x = y then y # ys else if bytes_less x y then x # y # ys else y # btree_insert x ys)"

definition btree_of :: "string list \<Rightarrow> string list" where
  "btree_of xs = fold btree_insert xs []"

lemma set_btree_insert [simp]: "set (btree_insert x ys) = insert x (set ys)"
  by (induction ys) auto

lemma set_btree_of [simp]: "set (btree_of xs) = set xs"
proof -
  have "set (fold btree_insert xs ys) = set xs \<union> set ys" for ys
    by (induction xs arbitrary: ys) auto
  then show ?thesis by (simp add: btree_of_def)
qed

end
