(* ===== verification/Capability.thy ===== *)
theory Capability
  imports Tysel_Text
begin

text \<open>
  The capability registry of \<^verbatim>\<open>crates/tysel-capability/src/lib.rs\<close> and the host-operation policy of
  \<^verbatim>\<open>crates/tysel-policy/src/lib.rs\<close>. The \<open>semver\<close> crate is third-party: its parser is an argument
  of the definitions that call it. A \<open>BTreeMap\<close> is an association list, a \<open>BTreeSet\<close> a set.
\<close>

subsection \<open>ABI versions\<close>

definition MAX_CAPABILITY_ID_BYTES :: nat where
  "MAX_CAPABILITY_ID_BYTES = 128"

definition MAX_INTERFACE_BYTES :: nat where
  "MAX_INTERFACE_BYTES = 128"

definition MAX_CAPABILITY_IMPORT_BYTES :: nat where
  "MAX_CAPABILITY_IMPORT_BYTES = 384"

definition MAX_ABI_VERSION_BYTES :: nat where
  "MAX_ABI_VERSION_BYTES = 64"

type_synonym CapabilityId = string

datatype TrustMode = TrustedService | IsolatedTask

datatype AbiVersion = AbiVersion (abi_major: u64) (abi_minor: u64) (abi_patch: u64)

text \<open>\<open>#[derive(PartialOrd, Ord)]\<close>: lexicographic in the order of the fields.\<close>

instantiation AbiVersion :: linorder
begin

definition less_AbiVersion :: "AbiVersion \<Rightarrow> AbiVersion \<Rightarrow> bool" where
  "less_AbiVersion v w \<longleftrightarrow> abi_major v < abi_major w \<or> abi_major v = abi_major w \<and>
     (abi_minor v < abi_minor w \<or> abi_minor v = abi_minor w \<and> abi_patch v < abi_patch w)"

definition less_eq_AbiVersion :: "AbiVersion \<Rightarrow> AbiVersion \<Rightarrow> bool" where
  "less_eq_AbiVersion v w \<longleftrightarrow> v < w \<or> v = (w :: AbiVersion)"

instance
proof
  fix u v w :: AbiVersion
  show "(v < w) = (v \<le> w \<and> \<not> w \<le> v)"
    by (auto simp: less_AbiVersion_def less_eq_AbiVersion_def)
  show "v \<le> v"
    by (simp add: less_eq_AbiVersion_def)
  show "u \<le> v \<Longrightarrow> v \<le> w \<Longrightarrow> u \<le> w"
    by (auto simp: less_AbiVersion_def less_eq_AbiVersion_def)
  show "v \<le> w \<Longrightarrow> w \<le> v \<Longrightarrow> v = w"
    by (auto simp: less_AbiVersion_def less_eq_AbiVersion_def)
  show "v \<le> w \<or> w \<le> v"
    by (cases v; cases w) (auto simp: less_AbiVersion_def less_eq_AbiVersion_def)
qed

end

definition is_compatible_provider_for :: "AbiVersion \<Rightarrow> AbiVersion \<Rightarrow> bool" where
  "is_compatible_provider_for provider requested =
     (if provider < requested \<or> abi_major provider \<noteq> abi_major requested then False
      else abi_major requested \<noteq> 0 \<or> abi_minor provider = abi_minor requested)"

subsection \<open>Imports\<close>

datatype CapabilityRegistryError =
    CR_InvalidImport string
  | CR_InvalidCapabilityId string
  | CR_InvalidIdentifier string string
  | CR_InvalidVersion string
  | CR_NoTrustModes string
  | CR_Duplicate string
  | CR_Unknown string
  | CR_Incompatible string
  | CR_Denied string

record CapabilityImport =
  ci_id :: CapabilityId
  ci_interface :: string
  ci_version :: AbiVersion

text \<open>What \<open>semver::Version::parse\<close> returns: the three numbers and the pre-release and build
  identifiers.\<close>

record semver_version =
  sv_major :: u64
  sv_minor :: u64
  sv_patch :: u64
  sv_pre :: string
  sv_build :: string

type_synonym semver_parser = "string \<Rightarrow> semver_version option"

definition valid_identifier :: "string \<Rightarrow> bool" where
  "valid_identifier v \<longleftrightarrow>
     v \<noteq> [] \<and> list_all (\<lambda>c. is_ascii_lowercase c \<or> is_ascii_digit c \<or> c = CHR ''-'') v"

definition validate_identifier ::
  "string \<Rightarrow> string \<Rightarrow> nat \<Rightarrow> (CapabilityRegistryError, unit) result" where
  "validate_identifier label v maximum =
     (if maximum < length v \<or> \<not> valid_identifier v
      then Inl (CR_InvalidIdentifier label v) else Inr ())"

definition validate_capability_id :: "string \<Rightarrow> (CapabilityRegistryError, unit) result" where
  "validate_capability_id v =
     (case split_once (CHR '':'') v of
        None \<Rightarrow> Inl (CR_InvalidCapabilityId v)
      | Some (namespace, name) \<Rightarrow>
          if MAX_CAPABILITY_ID_BYTES < length v
             \<or> \<not> valid_identifier namespace \<or> \<not> valid_identifier name
          then Inl (CR_InvalidCapabilityId v) else Inr ())"

definition AbiVersion_from_str ::
  "semver_parser \<Rightarrow> string \<Rightarrow> (CapabilityRegistryError, AbiVersion) result" where
  "AbiVersion_from_str semver_parse source =
     (if MAX_ABI_VERSION_BYTES < length source then Inl (CR_InvalidVersion source)
      else rbind (ok_or (semver_parse source) (CR_InvalidVersion source))
        (\<lambda>version. if sv_pre version \<noteq> [] \<or> sv_build version \<noteq> []
           then Inl (CR_InvalidVersion source)
           else Inr (AbiVersion (sv_major version) (sv_minor version) (sv_patch version))))"

definition CapabilityImport_from_str ::
  "semver_parser \<Rightarrow> string \<Rightarrow> (CapabilityRegistryError, CapabilityImport) result" where
  "CapabilityImport_from_str semver_parse source =
     (if MAX_CAPABILITY_IMPORT_BYTES < length source then Inl (CR_InvalidImport source)
      else rbind (ok_or (rsplit_once (CHR ''@'') source) (CR_InvalidImport source))
        (\<lambda>(name, version).
      rbind (ok_or (split_once (CHR ''/'') name) (CR_InvalidImport source))
        (\<lambda>(i, interface).
      rbind (validate_capability_id i) (\<lambda>_.
      rbind (validate_identifier ''interface'' interface MAX_INTERFACE_BYTES) (\<lambda>_.
      rbind (AbiVersion_from_str semver_parse version) (\<lambda>v.
        Inr \<lparr>ci_id = i, ci_interface = interface, ci_version = v\<rparr>))))))"

definition AbiVersion_to_string :: "AbiVersion \<Rightarrow> string" where
  "AbiVersion_to_string v =
     nat_to_string (unat (abi_major v)) @ ''.'' @ nat_to_string (unat (abi_minor v)) @ ''.'' @
     nat_to_string (unat (abi_patch v))"

definition CapabilityImport_to_string :: "CapabilityImport \<Rightarrow> string" where
  "CapabilityImport_to_string i =
     ci_id i @ ''/'' @ ci_interface i @ ''@'' @ AbiVersion_to_string (ci_version i)"

subsection \<open>Registry\<close>

record CapabilityDescriptor =
  cd_import :: CapabilityImport
  cd_trust_modes :: "TrustMode set"

definition CapabilityDescriptor_new ::
  "CapabilityImport \<Rightarrow> TrustMode list \<Rightarrow> (CapabilityRegistryError, CapabilityDescriptor) result" where
  "CapabilityDescriptor_new imp modes =
     (if set modes = {} then Inl (CR_NoTrustModes (CapabilityImport_to_string imp))
      else Inr \<lparr>cd_import = imp, cd_trust_modes = set modes\<rparr>)"

type_synonym CapabilityRegistry = "((CapabilityId \<times> string) \<times> CapabilityDescriptor list) list"

abbreviation cd_version :: "CapabilityDescriptor \<Rightarrow> AbiVersion" where
  "cd_version d \<equiv> ci_version (cd_import d)"

abbreviation cd_key :: "CapabilityDescriptor \<Rightarrow> CapabilityId \<times> string" where
  "cd_key d \<equiv> (ci_id (cd_import d), ci_interface (cd_import d))"

definition versions_of :: "CapabilityRegistry \<Rightarrow> CapabilityId \<times> string \<Rightarrow> CapabilityDescriptor list" where
  "versions_of reg k = (case map_of reg k of None \<Rightarrow> [] | Some vs \<Rightarrow> vs)"

fun registry_insert_all ::
  "CapabilityRegistry \<Rightarrow> CapabilityDescriptor list \<Rightarrow>
     (CapabilityRegistryError, CapabilityRegistry) result" where
  "registry_insert_all entries [] = Inr entries"
| "registry_insert_all entries (d # ds) =
     (let versions = versions_of entries (cd_key d) in
      if list_ex (\<lambda>existing. cd_version existing = cd_version d) versions
      then Inl (CR_Duplicate (CapabilityImport_to_string (cd_import d)))
      else registry_insert_all
        (AList.update (cd_key d) (sort_key cd_version (versions @ [d])) entries) ds)"

definition CapabilityRegistry_new ::
  "CapabilityDescriptor list \<Rightarrow> (CapabilityRegistryError, CapabilityRegistry) result" where
  "CapabilityRegistry_new ds = registry_insert_all [] ds"

definition resolve ::
  "CapabilityRegistry \<Rightarrow> CapabilityImport \<Rightarrow> TrustMode \<Rightarrow> CapabilityId set \<Rightarrow>
     (CapabilityRegistryError, CapabilityDescriptor) result" where
  "resolve reg requested mode grants =
     (if ci_id requested \<notin> grants
      then Inl (CR_Denied (CapabilityImport_to_string requested))
      else rbind (ok_or (map_of reg (ci_id requested, ci_interface requested))
                        (CR_Unknown (CapabilityImport_to_string requested)))
        (\<lambda>versions.
           if \<not> list_ex (\<lambda>d. is_compatible_provider_for (cd_version d) (ci_version requested)) versions
           then Inl (CR_Incompatible (CapabilityImport_to_string requested))
           else ok_or
             (find (\<lambda>d. mode \<in> cd_trust_modes d)
                (filter (\<lambda>d. is_compatible_provider_for (cd_version d) (ci_version requested))
                   (rev versions)))
             (CR_Denied (CapabilityImport_to_string requested))))"

definition registry_len :: "CapabilityRegistry \<Rightarrow> nat" where
  "registry_len reg = sum_list (map (length \<circ> snd) reg)"

definition effective_grants ::
  "CapabilityId set \<Rightarrow> CapabilityId set \<Rightarrow> CapabilityId set \<Rightarrow> CapabilityId set" where
  "effective_grants build application deployment =
     {i \<in> build \<inter> application. i \<in> deployment}"

subsection \<open>Host-operation policy\<close>

datatype Cap =
    Cap_Sleep | Cap_Echo | Cap_SecretRef | Cap_ReadBody | Cap_Fetch | Cap_Sqlite
  | Cap_WebSocket | Cap_Postgres | Cap_Redis | Cap_Fs | Cap_Llm

record Policy =
  p_mode :: TrustMode

definition Policy_trusted :: Policy where
  "Policy_trusted = \<lparr>p_mode = TrustedService\<rparr>"

definition Policy_isolated :: Policy where
  "Policy_isolated = \<lparr>p_mode = IsolatedTask\<rparr>"

definition Policy_from_profile :: "string \<Rightarrow> Policy" where
  "Policy_from_profile profile =
     (if to_ascii_lowercase profile = to_ascii_lowercase ''isolated''
      then Policy_isolated else Policy_trusted)"

definition build_allows :: "Cap \<Rightarrow> bool" where
  "build_allows _ = True"

definition deployment_allows :: "Cap \<Rightarrow> bool" where
  "deployment_allows _ = True"

definition os_allows :: "Cap \<Rightarrow> bool" where
  "os_allows _ = True"

definition app_allows :: "Policy \<Rightarrow> Cap \<Rightarrow> bool" where
  "app_allows p cap =
     (case p_mode p of
        IsolatedTask \<Rightarrow> cap \<in> {Cap_Sleep, Cap_Echo, Cap_SecretRef, Cap_ReadBody}
      | TrustedService \<Rightarrow> cap \<in> {Cap_Sleep, Cap_Echo, Cap_SecretRef, Cap_ReadBody, Cap_Fetch,
          Cap_Sqlite, Cap_WebSocket, Cap_Postgres, Cap_Redis, Cap_Fs, Cap_Llm})"

definition policy_allows :: "Policy \<Rightarrow> Cap \<Rightarrow> bool" where
  "policy_allows p cap \<longleftrightarrow>
     build_allows cap \<and> app_allows p cap \<and> deployment_allows cap \<and> os_allows cap"

definition deny_message :: "Policy \<Rightarrow> string" where
  "deny_message p =
     (case p_mode p of
        IsolatedTask \<Rightarrow> ''capability is not available in the isolated profile''
      | TrustedService \<Rightarrow> ''capability is not available'')"

definition require :: "Policy \<Rightarrow> Cap \<Rightarrow> (string, unit) result" where
  "require p cap = (if policy_allows p cap then Inr () else Inl (deny_message p))"

subsection \<open>Registry lemmas\<close>

text \<open>Every list of versions is strictly sorted and holds descriptors of its own key; together the
  lists hold exactly the registered descriptors.\<close>

definition registry_inv :: "CapabilityRegistry \<Rightarrow> CapabilityDescriptor set \<Rightarrow> bool" where
  "registry_inv reg D \<longleftrightarrow>
     (\<forall>k. sorted (map cd_version (versions_of reg k)) \<and> distinct (map cd_version (versions_of reg k)) \<and>
          set (versions_of reg k) = {d \<in> D. cd_key d = k})"

lemma versions_of_update:
  "versions_of (AList.update k vs reg) k' = (if k' = k then vs else versions_of reg k')"
  by (simp add: versions_of_def update_conv')

lemma registry_invD:
  assumes "registry_inv reg D"
  shows "sorted (map cd_version (versions_of reg k))"
    and "distinct (map cd_version (versions_of reg k))"
    and "set (versions_of reg k) = {d \<in> D. cd_key d = k}"
  using assms unfolding registry_inv_def by blast+

lemma registry_insert_inv:
  assumes inv: "registry_inv reg D"
    and fresh: "cd_version d \<notin> cd_version ` set (versions_of reg (cd_key d))"
  shows "registry_inv
    (AList.update (cd_key d) (sort_key cd_version (versions_of reg (cd_key d) @ [d])) reg)
    (insert d D)"
proof -
  note I = registry_invD [OF inv, of "cd_key d"]
  let ?vs = "sort_key cd_version (versions_of reg (cd_key d) @ [d])"
  have "distinct (map cd_version (versions_of reg (cd_key d) @ [d]))"
    using I(2) fresh by simp
  then have "distinct (map cd_version ?vs)"
    unfolding distinct_map distinct_sort set_sort .
  moreover have "sorted (map cd_version ?vs)" by simp
  moreover have "set ?vs = {e \<in> insert d D. cd_key e = cd_key d}"
    using I(3) by auto
  ultimately show ?thesis
    using inv unfolding registry_inv_def versions_of_update by auto
qed

lemma registry_insert_all_inv:
  "registry_inv reg D \<Longrightarrow> registry_insert_all reg ds = Inr reg' \<Longrightarrow> registry_inv reg' (D \<union> set ds)"
proof (induction ds arbitrary: reg D)
  case Nil
  then show ?case by simp
next
  case (Cons d ds)
  let ?vs = "versions_of reg (cd_key d)"
  have fresh: "cd_version d \<notin> cd_version ` set ?vs"
    and rest: "registry_insert_all (AList.update (cd_key d) (sort_key cd_version (?vs @ [d])) reg) ds
      = Inr reg'"
    using Cons.prems(2) by (auto simp: Let_def list_ex_iff split: if_splits)
  have "registry_inv reg' (insert d D \<union> set ds)"
    by (rule Cons.IH [OF registry_insert_inv [OF Cons.prems(1) fresh] rest])
  then show ?case by simp
qed

lemma CapabilityRegistry_new_inv:
  assumes "CapabilityRegistry_new ds = Inr reg"
  shows "registry_inv reg (set ds)"
proof -
  have "registry_inv [] {}" by (simp add: registry_inv_def versions_of_def)
  with assms show ?thesis
    using registry_insert_all_inv [of "[]" "{}" ds reg] by (simp add: CapabilityRegistry_new_def)
qed

text \<open>The first match from the back of a sorted list is the largest one.\<close>

lemma find_filter_rev_largest:
  assumes sorted: "sorted (map f xs)" and dist: "distinct (map f xs)"
  shows "find P (filter Q (rev xs)) = Some x \<longleftrightarrow>
    x \<in> set xs \<and> P x \<and> Q x \<and> (\<forall>y \<in> set xs. P y \<longrightarrow> Q y \<longrightarrow> f y \<le> (f x :: 'b::linorder))"
  using assms
proof (induction xs rule: rev_induct)
  case Nil
  then show ?case by simp
next
  case (snoc z xs)
  have le: "\<forall>y \<in> set xs. f y \<le> f z" using snoc.prems(1) by (auto simp: sorted_append)
  have ne: "\<forall>y \<in> set xs. f y \<noteq> f z" using snoc.prems(2) by (auto simp: image_iff)
  have IH: "find P (filter Q (rev xs)) = Some x \<longleftrightarrow>
    x \<in> set xs \<and> P x \<and> Q x \<and> (\<forall>y \<in> set xs. P y \<longrightarrow> Q y \<longrightarrow> f y \<le> f x)"
    using snoc by (auto simp: sorted_append)
  show ?case
  proof (cases "P z \<and> Q z")
    case True
    then show ?thesis using le ne by (auto simp: order.antisym)
  next
    case False
    then show ?thesis using IH le ne by (cases "Q z") auto
  qed
qed

lemma find_filter_SomeD: "find P (filter Q (rev xs)) = Some x \<Longrightarrow> x \<in> set xs \<and> P x \<and> Q x"
  by (induction xs rule: rev_induct) (auto split: if_split_asm)

subsection \<open>Text of imports\<close>

lemma valid_identifier_chars:
  "valid_identifier v \<Longrightarrow> c \<in> set v \<Longrightarrow> c \<noteq> CHR '':'' \<and> c \<noteq> CHR ''/'' \<and> c \<noteq> CHR ''@''"
  by (auto simp: valid_identifier_def list_all_iff ascii_defs)

lemma valid_capability_id_chars:
  assumes "validate_capability_id v = Inr u" and "c \<in> set v"
  shows "c \<noteq> CHR ''/'' \<and> c \<noteq> CHR ''@''"
  using assms
  by (auto simp: validate_capability_id_def dest!: split_once_Some
      dest: valid_identifier_chars split: option.splits if_splits)

lemma AbiVersion_to_string_facts:
  "length (AbiVersion_to_string v) \<le> MAX_ABI_VERSION_BYTES"
  "CHR ''@'' \<notin> set (AbiVersion_to_string v)"
  using u64_to_string_length [of "abi_major v"] u64_to_string_length [of "abi_minor v"]
    u64_to_string_length [of "abi_patch v"]
  by (auto simp: AbiVersion_to_string_def MAX_ABI_VERSION_BYTES_def ascii_defs
      dest: nat_to_string_digits)

subsection \<open>Properties\<close>

text \<open>
  C21. Resolution is exact: on a registry built from a list of descriptors, \<open>resolve\<close> returns a
  descriptor if and only if its capability is granted, it was registered under the requested
  capability and interface, its version can serve the requested one, it allows the caller's trust
  mode, and no other registered descriptor with these properties has a higher version. So the
  result does not depend on registration order and nothing ungranted is ever resolved.
\<close>

theorem resolve_latest_compatible:
  assumes "CapabilityRegistry_new ds = Inr reg"
  shows "resolve reg requested mode grants = Inr d \<longleftrightarrow>
    ci_id requested \<in> grants \<and>
    d \<in> {e \<in> set ds. cd_key e = (ci_id requested, ci_interface requested)
           \<and> is_compatible_provider_for (cd_version e) (ci_version requested)
           \<and> mode \<in> cd_trust_modes e} \<and>
    (\<forall>e \<in> set ds. cd_key e = (ci_id requested, ci_interface requested) \<longrightarrow>
       is_compatible_provider_for (cd_version e) (ci_version requested) \<longrightarrow>
       mode \<in> cd_trust_modes e \<longrightarrow> cd_version e \<le> cd_version d)"
proof -
  let ?k = "(ci_id requested, ci_interface requested)"
  note I = registry_invD [OF CapabilityRegistry_new_inv [OF assms], of ?k]
  let ?vs = "versions_of reg ?k"
  let ?ok = "\<lambda>e. is_compatible_provider_for (cd_version e) (ci_version requested)"
  have "resolve reg requested mode grants = Inr d \<longleftrightarrow> ci_id requested \<in> grants \<and>
      find (\<lambda>e. mode \<in> cd_trust_modes e) (filter ?ok (rev ?vs)) = Some d"
  proof (cases "map_of reg ?k")
    case (Some vs)
    have "find (\<lambda>e. mode \<in> cd_trust_modes e) (filter ?ok (rev vs)) = Some d \<Longrightarrow> \<exists>e \<in> set vs. ?ok e"
      using find_filter_SomeD by fast
    then show ?thesis
      using Some by (auto simp: resolve_def result_simps versions_of_def list_ex_iff)
  qed (simp add: resolve_def versions_of_def)
  then show ?thesis
    unfolding find_filter_rev_largest [OF I(1,2)] using I(3) by auto
qed

definition demo_import :: CapabilityImport where
  "demo_import = \<lparr>ci_id = ''tysel:http'', ci_interface = ''outgoing'', ci_version = AbiVersion 0 4 2\<rparr>"

definition demo_descriptor :: CapabilityDescriptor where
  "demo_descriptor = \<lparr>cd_import = demo_import, cd_trust_modes = {TrustedService}\<rparr>"

theorem resolve_latest_compatible_witness:
  "resolve [((''tysel:http'', ''outgoing''), [demo_descriptor])]
     (demo_import\<lparr>ci_version := AbiVersion 0 4 0\<rparr>) TrustedService {''tysel:http''}
   = Inr demo_descriptor"
proof -
  have "CapabilityRegistry_new [demo_descriptor] =
      Inr [((''tysel:http'', ''outgoing''), [demo_descriptor])]"
    by (simp add: versions_of_def CapabilityRegistry_new_def demo_descriptor_def demo_import_def)
  from resolve_latest_compatible [OF this] show ?thesis
    by (simp add: demo_descriptor_def demo_import_def is_compatible_provider_for_def
        less_AbiVersion_def)
qed

text \<open>
  Authority is an intersection: a capability that any of the build, application and deployment
  layers leaves out is never resolved, whatever the registry holds, and adding to one layer alone
  cannot grant what another withholds.
\<close>

theorem resolve_requires_every_layer:
  assumes "resolve reg requested mode (effective_grants bld app dep) = Inr d"
  shows "ci_id requested \<in> bld \<and> ci_id requested \<in> app \<and> ci_id requested \<in> dep"
  using assms by (auto simp: resolve_def effective_grants_def split: if_splits)

theorem resolve_requires_every_layer_witness:
  "resolve [((''tysel:http'', ''outgoing''), [demo_descriptor])] demo_import TrustedService
     (effective_grants {''tysel:http''} {''tysel:http''} {''tysel:http''}) = Inr demo_descriptor
   \<and> ''tysel:http'' \<in> {''tysel:http''}"
proof -
  have r: "resolve [((''tysel:http'', ''outgoing''), [demo_descriptor])] demo_import TrustedService
     (effective_grants {''tysel:http''} {''tysel:http''} {''tysel:http''}) = Inr demo_descriptor"
    by (simp add: resolve_def effective_grants_def demo_descriptor_def demo_import_def
        is_compatible_provider_for_def less_AbiVersion_def)
  with resolve_requires_every_layer [OF r] show ?thesis by simp
qed

text \<open>
  C22. Round trip of WIT imports: every import whose id and interface pass validation prints to a
  text that parses back to the same import, for any version, provided the \<open>semver\<close> parser reads a
  plain \<open>major.minor.patch\<close> text back as those numbers with no pre-release or build part.
\<close>

theorem import_round_trip:
  assumes semver: "semver_parse (AbiVersion_to_string (ci_version i)) =
      Some \<lparr>sv_major = abi_major (ci_version i), sv_minor = abi_minor (ci_version i),
            sv_patch = abi_patch (ci_version i), sv_pre = [], sv_build = []\<rparr>"
    and valid: "validate_capability_id (ci_id i) = Inr ()"
      "validate_identifier ''interface'' (ci_interface i) MAX_INTERFACE_BYTES = Inr ()"
  shows "CapabilityImport_from_str semver_parse (CapabilityImport_to_string i) = Inr i"
proof -
  let ?name = "ci_id i @ CHR ''/'' # ci_interface i"
  have printed: "CapabilityImport_to_string i = ?name @ CHR ''@'' # AbiVersion_to_string (ci_version i)"
    by (simp add: CapabilityImport_to_string_def)
  have idlen: "length (ci_id i) \<le> MAX_CAPABILITY_ID_BYTES"
    and iflen: "length (ci_interface i) \<le> MAX_INTERFACE_BYTES"
    using valid
    by (auto simp: validate_capability_id_def validate_identifier_def split: option.splits if_splits)
  have len: "length (CapabilityImport_to_string i) \<le> MAX_CAPABILITY_IMPORT_BYTES"
    using idlen iflen AbiVersion_to_string_facts(1) [of "ci_version i"]
    by (simp add: printed MAX_CAPABILITY_ID_BYTES_def MAX_INTERFACE_BYTES_def
        MAX_CAPABILITY_IMPORT_BYTES_def MAX_ABI_VERSION_BYTES_def)
  have "rsplit_once (CHR ''@'') (CapabilityImport_to_string i)
      = Some (?name, AbiVersion_to_string (ci_version i))"
    unfolding printed by (rule rsplit_once_append) (rule AbiVersion_to_string_facts)
  moreover have "split_once (CHR ''/'') ?name = Some (ci_id i, ci_interface i)"
    using valid_capability_id_chars [OF valid(1)] by (intro split_once_append) blast
  ultimately show ?thesis
    using len valid semver AbiVersion_to_string_facts(1) [of "ci_version i"]
    by (simp add: CapabilityImport_from_str_def AbiVersion_from_str_def)
qed

theorem import_round_trip_witness:
  "CapabilityImport_from_str
     (\<lambda>s. Some \<lparr>sv_major = 0, sv_minor = 4, sv_patch = 2, sv_pre = [], sv_build = []\<rparr>)
     (CapabilityImport_to_string demo_import) = Inr demo_import"
  by (rule import_round_trip)
    (simp_all add: demo_import_def validate_capability_id_def validate_identifier_def
      valid_identifier_def ascii_defs MAX_CAPABILITY_ID_BYTES_def MAX_INTERFACE_BYTES_def)

text \<open>
  The isolated profile is deny by default: a capability is available to isolated code exactly
  when it is one of the four harmless host operations, everything available there is also available
  to trusted code, a denied requirement is an error, and the isolated policy is chosen exactly for
  the profile name "isolated" in any letter case.
\<close>

theorem isolated_policy_deny_by_default:
  "(require Policy_isolated cap = Inr () \<longleftrightarrow>
      cap \<in> {Cap_Sleep, Cap_Echo, Cap_SecretRef, Cap_ReadBody})
   \<and> require Policy_trusted cap = Inr ()
   \<and> (require Policy_isolated cap \<noteq> Inr () \<longleftrightarrow>
      require Policy_isolated cap = Inl ''capability is not available in the isolated profile'')
   \<and> (Policy_from_profile profile = Policy_isolated \<longleftrightarrow>
      to_ascii_lowercase profile = ''isolated'')"
proof -
  have low: "to_ascii_lowercase ''isolated'' = ''isolated''"
    by (simp add: to_ascii_lowercase_def ascii_defs)
  have ne: "Policy_trusted \<noteq> Policy_isolated"
    by (simp add: Policy_trusted_def Policy_isolated_def)
  have tr: "app_allows Policy_trusted cap"
    by (cases cap) (simp_all add: app_allows_def Policy_trusted_def)
  show ?thesis
    using ne tr
    by (auto simp: require_def policy_allows_def build_allows_def deployment_allows_def
        os_allows_def app_allows_def Policy_isolated_def deny_message_def Policy_from_profile_def low)
qed

end
