(* ===== verification/Framing.thy ===== *)
theory Framing
  imports Tysel_Prelude
begin

text \<open>
  Byte streams as the framed protocols use them. A reader is the list of what it will deliver: bytes,
  interruptions (\<open>ErrorKind::Interrupted\<close>, which \<open>read_exact\<close> and the loop of \<open>read_message_opt\<close> retry)
  and faults; its end is the end of the stream. The contract of a message protocol is the locale
  \<open>message_stream\<close>: what is written is read back. Its consequence for whole conversations is proved here
  and used by the worker protocol (\<open>Ipc\<close>) and by TaskRPC (\<open>Task_Rpc\<close>).
\<close>

subsection \<open>Readers\<close>

datatype io_item = Data char | Interrupted | Fault

datatype io_error = UnexpectedEof | IoFault

text \<open>\<open>read\<close> into a one-byte buffer, retried while it is interrupted; \<open>None\<close> is the end of the stream.\<close>

fun read_one :: "io_item list \<Rightarrow> (io_error, char option \<times> io_item list) result" where
  "read_one [] = Inr (None, [])"
| "read_one (Data c # s) = Inr (Some c, s)"
| "read_one (Interrupted # s) = read_one s"
| "read_one (Fault # s) = Inl IoFault"

fun read_exact :: "nat \<Rightarrow> io_item list \<Rightarrow> (io_error, string \<times> io_item list) result" where
  "read_exact 0 s = Inr ([], s)"
| "read_exact (Suc n) s =
     rbind (read_one s) (\<lambda>(c, s').
       case c of
         None \<Rightarrow> Inl UnexpectedEof
       | Some c \<Rightarrow> rbind (read_exact n s') (\<lambda>(cs, s''). Inr (c # cs, s'')))"

text \<open>A stretch of a stream that delivers exactly the given bytes.\<close>

fun delivers :: "io_item list \<Rightarrow> string \<Rightarrow> bool" where
  "delivers [] bs = (bs = [])"
| "delivers (Data c # s) bs = (case bs of [] \<Rightarrow> False | b # bs' \<Rightarrow> b = c \<and> delivers s bs')"
| "delivers (Interrupted # s) bs = (bs \<noteq> [] \<and> delivers s bs)"
| "delivers (Fault # s) bs = False"

lemma delivers_Nil [simp]: "delivers xs [] \<longleftrightarrow> xs = []"
proof (cases xs)
  case (Cons x xs')
  then show ?thesis by (cases x) simp_all
qed simp

lemma delivers_data: "delivers (map Data bs) bs"
  by (induction bs) simp_all

lemma read_one_delivers:
  "delivers xs (b # bs) \<Longrightarrow> \<exists>ys. delivers ys bs \<and> (\<forall>rest. read_one (xs @ rest) = Inr (Some b, ys @ rest)) \<and>
     length ys < length xs"
  by (induction xs "b # bs" rule: delivers.induct) auto

lemma read_exact_delivers: "delivers xs bs \<Longrightarrow> read_exact (length bs) (xs @ rest) = Inr (bs, rest)"
proof (induction bs arbitrary: xs)
  case (Cons b bs)
  then show ?case using read_one_delivers [OF Cons.prems] by fastforce
qed simp

lemma read_exact_truncated:
  "delivers xs bs \<Longrightarrow> length bs < n \<Longrightarrow> read_exact n xs = Inl UnexpectedEof"
proof (induction bs arbitrary: xs n)
  case Nil
  then show ?case by (cases n) simp_all
next
  case (Cons b bs)
  then obtain m where n: "n = Suc m" "length bs < m" by (cases n) auto
  obtain ys where "delivers ys bs" "\<And>rest. read_one (xs @ rest) = Inr (Some b, ys @ rest)"
    using read_one_delivers [OF Cons.prems(1)] by auto
  then show ?case using Cons.IH [of ys m] n by (metis (no_types, lifting) append_Nil2 case_prod_conv
        option.simps(5) rbind.simps(1,2) read_exact.simps(2))
qed

lemma read_exact_length: "read_exact n s = Inr (bs, s') \<Longrightarrow> length bs = n"
  by (induction n arbitrary: s bs) (fastforce simp: result_simps split: option.split_asm)+

lemma delivers_append_split:
  "delivers xs (as @ bs) \<Longrightarrow> \<exists>ys zs. xs = ys @ zs \<and> delivers ys as \<and> delivers zs bs"
proof (induction xs arbitrary: as)
  case (Cons x xs)
  show ?case
  proof (cases "as = []")
    case True
    then show ?thesis using Cons.prems by (intro exI [of _ "[]"] exI [of _ "x # xs"]) simp
  next
    case False
    then obtain a as' where as: "as = a # as'" by (cases as) auto
    show ?thesis
    proof (cases x)
      case (Data c)
      then obtain ys zs where "xs = ys @ zs" "delivers ys as'" "delivers zs bs" "c = a"
        using Cons.IH [of as'] Cons.prems as by auto
      then show ?thesis using Data as by (intro exI [of _ "x # ys"] exI [of _ zs]) simp
    next
      case Interrupted
      then obtain ys zs where "xs = ys @ zs" "delivers ys as" "delivers zs bs"
        using Cons.IH [of as] Cons.prems by auto
      then show ?thesis using Interrupted False by (intro exI [of _ "x # ys"] exI [of _ zs]) simp
    qed (use Cons.prems in simp)
  qed
qed simp

subsection \<open>Conversations\<close>

fun read_many :: "('s \<Rightarrow> ('e, 'm \<times> 's) result) \<Rightarrow> nat \<Rightarrow> 's \<Rightarrow> ('e, 'm list \<times> 's) result" where
  "read_many rd 0 s = Inr ([], s)"
| "read_many rd (Suc n) s =
     rbind (rd s) (\<lambda>(m, s'). rbind (read_many rd n s') (\<lambda>(ms, s''). Inr (m # ms, s'')))"

locale message_stream =
  fixes send :: "'m \<Rightarrow> ('e, string) result"
    and recv :: "io_item list \<Rightarrow> ('e, 'm \<times> io_item list) result"
    and faithful :: "'m \<Rightarrow> bool"
  assumes read_back: "faithful m \<Longrightarrow> send m = Inr bs \<Longrightarrow> delivers xs bs \<Longrightarrow> recv (xs @ rest) = Inr (m, rest)"
begin

theorem conversation:
  "\<forall>m \<in> set ms. faithful m \<Longrightarrow> collect_results send ms = Inr frames \<Longrightarrow> delivers xs (concat frames) \<Longrightarrow>
     read_many recv (length ms) (xs @ rest) = Inr (ms, rest)"
proof (induction ms arbitrary: frames xs)
  case (Cons m ms)
  then obtain bs more where bs: "send m = Inr bs" "collect_results send ms = Inr more" "frames = bs # more"
    by (auto simp: result_simps)
  then obtain ys zs where split: "xs = ys @ zs" "delivers ys bs" "delivers zs (concat more)"
    using delivers_append_split [of xs bs "concat more"] Cons.prems(3) by auto
  have "recv (ys @ zs @ rest) = Inr (m, zs @ rest)"
    using read_back [OF _ bs(1) split(2)] Cons.prems(1) by simp
  then show ?case using Cons.IH [OF _ bs(2) split(3)] Cons.prems(1) split(1) by simp
qed simp

end

end
