(* ===== verification/Ipc.thy ===== *)
theory Ipc
  imports Framing
begin

text \<open>
  The protocol between the supervisor and an isolated worker
  (\<^verbatim>\<open>crates/tysel-ipc/src/lib.rs\<close>, with the neutral values of \<^verbatim>\<open>crates/tysel-engine/src/lib.rs\<close>):
  messages, the conversion of values to their wire form and back, and length-prefixed frames. The JSON
  encoding of messages is derived code of a third-party library: a parameter, with the hypothesis, per
  message, that what was encoded decodes to it. A writer is the bytes given to it; its own failures are
  not modelled. A 64-bit float is its bit pattern.
\<close>

subsection \<open>Values\<close>

type_synonym f64 = u64

datatype Value =
    V_Null
  | V_Bool bool
  | V_Number f64
  | V_String string
  | V_Bytes string
  | V_Array "Value list"
  | V_Record "(string \<times> Value) list"

datatype WireValue =
    W_Null
  | W_Bool bool
  | W_Number f64
  | W_String string
  | W_Bytes string
  | W_Array "WireValue list"
  | W_Record "(string \<times> WireValue) list"

fun WireValue_from :: "Value \<Rightarrow> WireValue" where
  "WireValue_from V_Null = W_Null"
| "WireValue_from (V_Bool v) = W_Bool v"
| "WireValue_from (V_Number v) = W_Number v"
| "WireValue_from (V_String v) = W_String v"
| "WireValue_from (V_Bytes v) = W_Bytes v"
| "WireValue_from (V_Array vs) = W_Array (map WireValue_from vs)"
| "WireValue_from (V_Record vs) = W_Record (map (\<lambda>(name, v). (name, WireValue_from v)) vs)"

fun Value_from :: "WireValue \<Rightarrow> Value" where
  "Value_from W_Null = V_Null"
| "Value_from (W_Bool v) = V_Bool v"
| "Value_from (W_Number v) = V_Number v"
| "Value_from (W_String v) = V_String v"
| "Value_from (W_Bytes v) = V_Bytes v"
| "Value_from (W_Array vs) = V_Array (map Value_from vs)"
| "Value_from (W_Record vs) = V_Record (map (\<lambda>(name, v). (name, Value_from v)) vs)"

lemma Value_from_WireValue_from: "Value_from (WireValue_from v) = v"
  by (induction v rule: WireValue_from.induct) (auto intro!: map_idI)

lemma WireValue_from_Value_from: "WireValue_from (Value_from w) = w"
  by (induction w rule: Value_from.induct) (auto intro!: map_idI)

subsection \<open>Messages\<close>

datatype TaskErrorKind = TE_Failed | TE_TimedOut | TE_Canceled | TE_Suspended

datatype IpcMessage =
    M_WorkerReady
  | M_Start (st_memory_limit_bytes: nat) (st_cpu_ms_per_turn: u64) (st_request_timeout_ms: u64)
      (st_rlimit_as_bytes: nat) (st_app: string) (st_json_logs: bool)
  | M_Started
  | M_Eval (ev_id: u64) (ev_source: string)
  | M_EvalOk u64 WireValue
  | M_EvalErr u64 string
  | M_Load string "string list"
  | M_Loaded
  | M_LoadErr string
  | M_TaskLoad u64 string "string list"
  | M_TaskLoaded u64 string
  | M_TaskInvoke (ti_id: u64) (ti_task_name: string) (ti_input_json: string) (ti_request_id: string)
      (ti_deadline_ms: u64)
  | M_TaskOk u64 WireValue
  | M_TaskErr u64 string TaskErrorKind
  | M_Http (ht_id: u64) (ht_method: string) (ht_url: string) (ht_headers: "(string \<times> string) list")
      (ht_body: string) (ht_request_id: u64) (ht_timeout_ms: "u64 option")
  | M_HttpOk (ho_id: u64) (ho_status: u16) (ho_headers: "(string \<times> string) list") (ho_body: string)
      (ho_websocket: bool)
  | M_HttpErr u64 string bool
  | M_CapCall u64 string "WireValue list"
  | M_CapOk u64 WireValue
  | M_CapErr u64 string
  | M_Overalloc
  | M_Shutdown

datatype IpcError = IE_Io io_error | IE_FrameTooLarge nat | IE_Json

subsection \<open>Frames\<close>

definition MAX_FRAME :: nat where "MAX_FRAME = 64 * 1024"

definition write_frame :: "string \<Rightarrow> (IpcError, string) result" where
  "write_frame bytes =
     (if length bytes > MAX_FRAME then Inl (IE_FrameTooLarge (length bytes))
      else Inr (le_bytes 4 (length bytes) @ bytes))"

definition read_frame :: "io_item list \<Rightarrow> (IpcError, string \<times> io_item list) result" where
  "read_frame reader =
     rbind (map_err IE_Io (read_exact 4 reader)) (\<lambda>(len_buf, reader).
     let len = le_value len_buf in
     if len > MAX_FRAME then Inl (IE_FrameTooLarge len)
     else map_err IE_Io (read_exact len reader))"

definition ipc_write_message :: "IpcMessage json_codec \<Rightarrow> IpcMessage \<Rightarrow> (IpcError, string) result" where
  "ipc_write_message codec message =
     rbind (ok_or (jc_to_vec codec message) IE_Json) write_frame"

definition ipc_read_message ::
  "IpcMessage json_codec \<Rightarrow> io_item list \<Rightarrow> (IpcError, IpcMessage \<times> io_item list) result" where
  "ipc_read_message codec reader =
     rbind (read_frame reader) (\<lambda>(bytes, reader).
     rbind (ok_or (jc_from_slice codec bytes) IE_Json) (\<lambda>message. Inr (message, reader)))"

subsection \<open>Round trip\<close>

lemma frame_header: "n \<le> MAX_FRAME \<Longrightarrow> le_value (le_bytes 4 n) = n"
  by (simp add: le_value_le_bytes MAX_FRAME_def)

lemma read_frame_write_frame:
  assumes "write_frame bytes = Inr bs" and "delivers xs bs"
  shows "read_frame (xs @ rest) = Inr (bytes, rest)"
proof -
  have le: "length bytes \<le> MAX_FRAME" and bs: "bs = le_bytes 4 (length bytes) @ bytes"
    using assms(1) by (auto simp: write_frame_def split: if_split_asm)
  obtain ys zs where xs: "xs = ys @ zs" "delivers ys (le_bytes 4 (length bytes))" "delivers zs bytes"
    using delivers_append_split assms(2) unfolding bs by blast
  have "read_exact 4 (ys @ zs @ rest) = Inr (le_bytes 4 (length bytes), zs @ rest)"
    using read_exact_delivers [OF xs(2), of "zs @ rest"] by simp
  then show ?thesis
    using read_exact_delivers [OF xs(3), of rest] le xs(1) by (simp add: read_frame_def frame_header)
qed

lemma le_bytes_one: "le_bytes 4 (Suc 0) = [CHR 0x01, CHR 0x00, CHR 0x00, CHR 0x00]"
  by code_simp

lemma read_frame_length: "read_frame s = Inr (bs, s') \<Longrightarrow> length bs \<le> MAX_FRAME"
  by (auto simp: read_frame_def Let_def result_simps split: if_split_asm dest!: read_exact_length)

interpretation ipc: message_stream "ipc_write_message codec" "ipc_read_message codec" "codec_faithful codec"
  for codec
proof
  fix m bs xs rest
  assume "codec_faithful codec m" "ipc_write_message codec m = Inr bs" "delivers xs bs"
  then show "ipc_read_message codec (xs @ rest) = Inr (m, rest)"
    by (auto simp: ipc_write_message_def ipc_read_message_def codec_faithful_def result_simps
        dest: read_frame_write_frame [of _ bs xs rest])
qed

text \<open>
  A conversation with a worker arrives as it was sent. Any sequence of messages that can be written
  is read back message by message, in order, however the bytes are split by interrupted reads, and
  exactly the bytes of these messages are consumed.
\<close>

theorem ipc_conversation:
  assumes "\<forall>m \<in> set ms. codec_faithful codec m"
    and "collect_results (ipc_write_message codec) ms = Inr frames"
    and "delivers xs (concat frames)"
  shows "read_many (ipc_read_message codec) (length ms) (xs @ rest) = Inr (ms, rest)"
  by (rule ipc.conversation [OF assms])

definition demo_codec :: "IpcMessage json_codec" where
  "demo_codec = \<lparr>jc_to_vec = \<lambda>m. if m = M_Started then Some ''S'' else if m = M_Shutdown then Some ''Q'' else None,
     jc_from_slice = \<lambda>bs. if bs = ''S'' then Some M_Started else if bs = ''Q'' then Some M_Shutdown else None\<rparr>"

theorem ipc_conversation_witness:
  "read_many (ipc_read_message demo_codec) 2
     [Data (CHR 0x01), Data (CHR 0x00), Interrupted, Data (CHR 0x00), Data (CHR 0x00), Data (CHR ''S''),
      Interrupted, Data (CHR 0x01), Data (CHR 0x00), Data (CHR 0x00), Data (CHR 0x00), Data (CHR ''Q''), Fault]
   = Inr ([M_Started, M_Shutdown], [Fault])"
proof -
  let ?frame = "\<lambda>c. [CHR 0x01, CHR 0x00, CHR 0x00, CHR 0x00, c]"
  let ?xs = "[Data (CHR 0x01), Data (CHR 0x00), Interrupted, Data (CHR 0x00), Data (CHR 0x00), Data (CHR ''S''),
      Interrupted, Data (CHR 0x01), Data (CHR 0x00), Data (CHR 0x00), Data (CHR 0x00), Data (CHR ''Q'')]"
  have faithful: "\<forall>m \<in> set [M_Started, M_Shutdown]. codec_faithful demo_codec m"
    by (simp add: codec_faithful_def demo_codec_def)
  have frames: "collect_results (ipc_write_message demo_codec) [M_Started, M_Shutdown] =
      Inr [?frame (CHR ''S''), ?frame (CHR ''Q'')]"
    by (simp add: ipc_write_message_def write_frame_def demo_codec_def MAX_FRAME_def le_bytes_one)
  have "delivers ?xs (concat [?frame (CHR ''S''), ?frame (CHR ''Q'')])" by simp
  from ipc_conversation [OF faithful frames this, of "[Fault]"] show ?thesis by (simp add: numeral_2_eq_2)
qed

text \<open>
  C34. Frames are bounded on both sides. No frame that is written or read carries more than
  \<open>MAX_FRAME\<close> bytes; a header that announces more is refused with that length before any byte of the
  payload is looked at, whatever follows; and a frame cut short by the end of the stream is an error.
\<close>

theorem frames_bounded:
  "(case write_frame bytes of
      Inl e \<Rightarrow> e = IE_FrameTooLarge (length bytes) \<and> MAX_FRAME < length bytes
    | Inr bs \<Rightarrow> length bytes \<le> MAX_FRAME \<and> length bs \<le> MAX_FRAME + 4) \<and>
   (case read_frame s of Inl e \<Rightarrow> True | Inr (bs, s') \<Rightarrow> length bs \<le> MAX_FRAME) \<and>
   (delivers pre (le_bytes 4 n) \<longrightarrow> n < 2 ^ 32 \<longrightarrow> MAX_FRAME < n \<longrightarrow>
      read_frame (pre @ rest) = Inl (IE_FrameTooLarge n)) \<and>
   (delivers pre (le_bytes 4 n) \<longrightarrow> n \<le> MAX_FRAME \<longrightarrow> delivers body part \<longrightarrow> length part < n \<longrightarrow>
      read_frame (pre @ body) = Inl (IE_Io UnexpectedEof))"
proof (intro conjI impI)
  show "case write_frame bytes of Inl e \<Rightarrow> e = IE_FrameTooLarge (length bytes) \<and> MAX_FRAME < length bytes
      | Inr bs \<Rightarrow> length bytes \<le> MAX_FRAME \<and> length bs \<le> MAX_FRAME + 4"
    by (simp add: write_frame_def)
  show "case read_frame s of Inl e \<Rightarrow> True | Inr (bs, s') \<Rightarrow> length bs \<le> MAX_FRAME"
    using read_frame_length by (auto split: sum.split prod.split)
next
  assume "delivers pre (le_bytes 4 n)" "n < 2 ^ 32" "MAX_FRAME < n"
  then show "read_frame (pre @ rest) = Inl (IE_FrameTooLarge n)"
    using read_exact_delivers [of pre "le_bytes 4 n" rest] by (simp add: read_frame_def le_value_le_bytes)
next
  assume "delivers pre (le_bytes 4 n)" "n \<le> MAX_FRAME" "delivers body part" "length part < n"
  then show "read_frame (pre @ body) = Inl (IE_Io UnexpectedEof)"
    using read_exact_delivers [of pre "le_bytes 4 n" body] read_exact_truncated [of body part n]
    by (simp add: read_frame_def frame_header)
qed

theorem frames_bounded_witness:
  "read_frame (map Data (le_bytes 4 70000) @ [Fault]) = Inl (IE_FrameTooLarge 70000) \<and>
   read_frame (map Data (le_bytes 4 2) @ [Data (CHR ''x'')]) = Inl (IE_Io UnexpectedEof)"
  using frames_bounded [where pre = "map Data (le_bytes 4 70000)" and n = 70000 and rest = "[Fault]"]
    frames_bounded [where pre = "map Data (le_bytes 4 2)" and n = 2 and body = "[Data (CHR ''x'')]" and part = "''x''"]
  by (simp add: delivers_data MAX_FRAME_def del: le_bytes.simps)

end
