(* ===== verification/Task_Rpc.thy ===== *)
theory Task_Rpc
  imports Framing Task_Model
begin

text \<open>
  TaskRPC, the protocol between schedulers and task workers (\<^verbatim>\<open>crates/tysel-task-rpc/src/lib.rs\<close>):
  messages, their validation, and the framed reader and writer. JSON values have the type \<open>'v\<close>; the
  encodings of values and of envelopes are parameters.
\<close>

subsection \<open>Messages\<close>

definition TASK_RPC_VERSION :: u16 where "TASK_RPC_VERSION = 1"
definition MAX_TASK_RPC_FRAME :: nat where "MAX_TASK_RPC_FRAME = 64 * 1024"
definition MAX_CLAIM_BATCH :: u16 where "MAX_CLAIM_BATCH = 64"
definition MAX_WORKER_ID_BYTES :: nat where "MAX_WORKER_ID_BYTES = 128"
definition MAX_TASK_TRIGGER_BYTES :: nat where "MAX_TASK_TRIGGER_BYTES = 256"
definition MAX_TASK_INPUT_BYTES :: nat where "MAX_TASK_INPUT_BYTES = 32 * 1024"
definition MAX_ERROR_BYTES :: nat where "MAX_ERROR_BYTES = 4 * 1024"
definition MAX_RESULT_BYTES :: nat where "MAX_RESULT_BYTES = 32 * 1024"
definition RPC_MAX_LEASE_MS :: u64 where "RPC_MAX_LEASE_MS = 24 * 60 * 60 * 1000"

lemmas rpc_limits = TASK_RPC_VERSION_def MAX_TASK_RPC_FRAME_def MAX_CLAIM_BATCH_def MAX_WORKER_ID_BYTES_def
  MAX_TASK_TRIGGER_BYTES_def MAX_TASK_INPUT_BYTES_def MAX_ERROR_BYTES_def MAX_RESULT_BYTES_def
  RPC_MAX_LEASE_MS_def

type_synonym WireTaskId = string

datatype WireTaskTrigger =
    WT_Http string string
  | WT_Cron string string
  | WT_Queue string string "string option"
  | WT_Mcp string
  | WT_Agent string

record LeaseToken =
  lt_task_id :: WireTaskId
  lt_generation :: u64
  lt_lease_owner :: string

record 'v TaskDescriptor =
  td_trigger :: WireTaskTrigger
  td_input :: 'v
  td_attempt :: u32
  td_deadline_ms :: "u64 option"

record 'v TaskLease =
  tl_token :: LeaseToken
  tl_task :: "'v TaskDescriptor"
  tl_lease_until_ms :: u64

datatype 'v TaskOutcome =
    TO_Completed 'v
  | TO_Suspended
  | TO_Failed string bool
  | TO_Canceled
  | TO_TimedOut

datatype ErrorCode = EC_InvalidRequest | EC_VersionMismatch | EC_LeaseLost | EC_TaskNotFound | EC_Internal

datatype 'v RpcMessage =
    RM_Hello string
  | RM_Ready
  | RM_Claim u64 string u64 u16
  | RM_Claimed u64 "'v TaskLease list"
  | RM_Renew u64 LeaseToken u64
  | RM_Renewed u64 "'v TaskLease option"
  | RM_Release u64 LeaseToken
  | RM_Released u64 bool
  | RM_Cancel u64 WireTaskId
  | RM_Canceled u64 bool
  | RM_Commit u64 LeaseToken "'v TaskOutcome"
  | RM_Committed u64 bool
  | RM_Error "u64 option" ErrorCode string

record 'v Envelope =
  en_version :: u16
  en_message :: "'v RpcMessage"

definition Envelope_new :: "'v RpcMessage \<Rightarrow> 'v Envelope" where
  "Envelope_new message = \<lparr>en_version = TASK_RPC_VERSION, en_message = message\<rparr>"

datatype TaskRpcError =
    RE_Io io_error
  | RE_FrameTooLarge nat
  | RE_Json
  | RE_UnsupportedVersion u16 u16
  | RE_InvalidWorkerId
  | RE_InvalidClaimLimit u16
  | RE_TooManyLeases nat
  | RE_InvalidLeaseDuration
  | RE_InvalidLeaseDeadline
  | RE_InvalidLeaseGeneration
  | RE_InvalidTaskAttempt
  | RE_InvalidTaskTrigger
  | RE_TaskTriggerTooLarge
  | RE_TaskInputTooLarge nat
  | RE_InvalidTaskId string
  | RE_ErrorTooLarge
  | RE_ResultTooLarge nat

record 'v rpc_env =
  rpc_codec :: "'v Envelope json_codec"
  rpc_value_to_vec :: "'v \<Rightarrow> string option"

subsection \<open>Task ids\<close>

definition WireTaskId_new :: "TaskId \<Rightarrow> WireTaskId" where
  "WireTaskId_new task_id = TaskId_to_string task_id"

definition is_wire_hex :: "char \<Rightarrow> bool" where
  "is_wire_hex c \<longleftrightarrow> is_ascii_digit c \<or> (97 \<le> byte_val c \<and> byte_val c \<le> 102)"

definition WireTaskId_validate :: "WireTaskId \<Rightarrow> (TaskRpcError, unit) result" where
  "WireTaskId_validate s =
     (if length s \<noteq> 32 \<or> \<not> list_all is_wire_hex s then Inl (RE_InvalidTaskId s) else Inr ())"

definition WireTaskId_parse :: "WireTaskId \<Rightarrow> (TaskRpcError, TaskId) result" where
  "WireTaskId_parse s =
     rbind (WireTaskId_validate s) (\<lambda>_.
       case hex_parse 0 s of
         None \<Rightarrow> Inl (RE_InvalidTaskId s)
       | Some value \<Rightarrow> if value < 2 ^ 128 then Inr (of_nat value) else Inl (RE_InvalidTaskId s))"

subsection \<open>Validation\<close>

definition is_worker_byte :: "char \<Rightarrow> bool" where
  "is_worker_byte c \<longleftrightarrow> is_ascii_alphanumeric c \<or> c \<in> {CHR ''.'', CHR ''_'', CHR '':'', CHR ''@'', CHR ''-''}"

definition validate_worker_id :: "string \<Rightarrow> (TaskRpcError, unit) result" where
  "validate_worker_id worker_id =
     (if worker_id = [] \<or> length worker_id > MAX_WORKER_ID_BYTES \<or> \<not> list_all is_worker_byte worker_id
      then Inl RE_InvalidWorkerId else Inr ())"

definition validate_lease_ms :: "u64 \<Rightarrow> (TaskRpcError, unit) result" where
  "validate_lease_ms lease_ms =
     (if lease_ms = 0 \<or> lease_ms > RPC_MAX_LEASE_MS then Inl RE_InvalidLeaseDuration else Inr ())"

definition validate_error :: "string \<Rightarrow> (TaskRpcError, unit) result" where
  "validate_error msg = (if length msg > MAX_ERROR_BYTES then Inl RE_ErrorTooLarge else Inr ())"

definition LeaseToken_validate :: "LeaseToken \<Rightarrow> (TaskRpcError, unit) result" where
  "LeaseToken_validate token =
     rbind (WireTaskId_validate (lt_task_id token)) (\<lambda>_.
     if lt_generation token = 0 then Inl RE_InvalidLeaseGeneration
     else validate_worker_id (lt_lease_owner token))"

fun trigger_fields :: "WireTaskTrigger \<Rightarrow> string list" where
  "trigger_fields (WT_Http method path) = [method, path]"
| "trigger_fields (WT_Cron name expression) = [name, expression]"
| "trigger_fields (WT_Queue name handler message_id) =
     (case message_id of Some message_id \<Rightarrow> [name, handler, message_id] | None \<Rightarrow> [name, handler])"
| "trigger_fields (WT_Mcp tool) = [tool]"
| "trigger_fields (WT_Agent name) = [name]"

fun trigger_total :: "nat \<Rightarrow> string list \<Rightarrow> (TaskRpcError, nat) result" where
  "trigger_total total_bytes [] = Inr total_bytes"
| "trigger_total total_bytes (field # others) =
     (if field = [] then Inl RE_InvalidTaskTrigger
      else if total_bytes + length field \<ge> 2 ^ 64 then Inl RE_TaskTriggerTooLarge
      else trigger_total (total_bytes + length field) others)"

definition WireTaskTrigger_validate :: "WireTaskTrigger \<Rightarrow> (TaskRpcError, unit) result" where
  "WireTaskTrigger_validate trigger =
     rbind (trigger_total 0 (trigger_fields trigger)) (\<lambda>total_bytes.
       if total_bytes > MAX_TASK_TRIGGER_BYTES then Inl RE_TaskTriggerTooLarge else Inr ())"

fun from_task_trigger :: "TaskTrigger \<Rightarrow> WireTaskTrigger" where
  "from_task_trigger (TT_Http method path) = WT_Http method path"
| "from_task_trigger (TT_Cron name expression) = WT_Cron name expression"
| "from_task_trigger (TT_Queue name handler message_id) = WT_Queue name handler message_id"
| "from_task_trigger (TT_Mcp tool) = WT_Mcp tool"
| "from_task_trigger (TT_Agent name) = WT_Agent name"

fun handler_name :: "WireTaskTrigger \<Rightarrow> string option" where
  "handler_name (WT_Http _ _) = None"
| "handler_name (WT_Cron name _) = Some name"
| "handler_name (WT_Queue _ handler _) = Some handler"
| "handler_name (WT_Mcp tool) = Some tool"
| "handler_name (WT_Agent name) = Some name"

definition TaskDescriptor_validate :: "'v rpc_env \<Rightarrow> 'v TaskDescriptor \<Rightarrow> (TaskRpcError, unit) result" where
  "TaskDescriptor_validate env task =
     rbind (WireTaskTrigger_validate (td_trigger task)) (\<lambda>_.
     rbind (ok_or (rpc_value_to_vec env (td_input task)) RE_Json) (\<lambda>input_bytes.
     if length input_bytes > MAX_TASK_INPUT_BYTES then Inl (RE_TaskInputTooLarge (length input_bytes))
     else if td_attempt task = 0 then Inl RE_InvalidTaskAttempt
     else Inr ()))"

definition TaskDescriptor_from_task :: "'v rpc_env \<Rightarrow> 'v Task \<Rightarrow> (TaskRpcError, 'v TaskDescriptor) result" where
  "TaskDescriptor_from_task env task =
     (let descriptor = \<lparr>td_trigger = from_task_trigger (t_trigger task), td_input = t_input task,
                        td_attempt = t_attempt task, td_deadline_ms = t_deadline_ms task\<rparr> in
      rbind (TaskDescriptor_validate env descriptor) (\<lambda>_. Inr descriptor))"

definition TaskLease_validate :: "'v rpc_env \<Rightarrow> 'v TaskLease \<Rightarrow> (TaskRpcError, unit) result" where
  "TaskLease_validate env lease =
     rbind (LeaseToken_validate (tl_token lease)) (\<lambda>_.
     rbind (TaskDescriptor_validate env (tl_task lease)) (\<lambda>_.
     if tl_lease_until_ms lease = 0 then Inl RE_InvalidLeaseDeadline else Inr ()))"

fun TaskOutcome_validate :: "'v rpc_env \<Rightarrow> 'v TaskOutcome \<Rightarrow> (TaskRpcError, unit) result" where
  "TaskOutcome_validate env (TO_Completed res) =
     rbind (ok_or (rpc_value_to_vec env res) RE_Json) (\<lambda>bytes.
       if length bytes > MAX_RESULT_BYTES then Inl (RE_ResultTooLarge (length bytes)) else Inr ())"
| "TaskOutcome_validate env (TO_Failed msg retryable) = validate_error msg"
| "TaskOutcome_validate env _ = Inr ()"

fun RpcMessage_validate :: "'v rpc_env \<Rightarrow> 'v RpcMessage \<Rightarrow> (TaskRpcError, unit) result" where
  "RpcMessage_validate env (RM_Hello worker_id) = validate_worker_id worker_id"
| "RpcMessage_validate env (RM_Claim _ worker_id lease_ms limit) =
     rbind (validate_worker_id worker_id) (\<lambda>_.
     rbind (validate_lease_ms lease_ms) (\<lambda>_.
     if limit = 0 \<or> limit > MAX_CLAIM_BATCH then Inl (RE_InvalidClaimLimit limit) else Inr ()))"
| "RpcMessage_validate env (RM_Claimed _ leases) =
     (if length leases > unat MAX_CLAIM_BATCH then Inl (RE_TooManyLeases (length leases))
      else try_for_each (TaskLease_validate env) leases)"
| "RpcMessage_validate env (RM_Renew _ lease lease_ms) =
     rbind (LeaseToken_validate lease) (\<lambda>_. validate_lease_ms lease_ms)"
| "RpcMessage_validate env (RM_Renewed _ lease) =
     (case lease of Some lease \<Rightarrow> TaskLease_validate env lease | None \<Rightarrow> Inr ())"
| "RpcMessage_validate env (RM_Release _ lease) = LeaseToken_validate lease"
| "RpcMessage_validate env (RM_Commit _ lease outcome) =
     rbind (LeaseToken_validate lease) (\<lambda>_. TaskOutcome_validate env outcome)"
| "RpcMessage_validate env (RM_Cancel _ task_id) = WireTaskId_validate task_id"
| "RpcMessage_validate env (RM_Error _ _ msg) = validate_error msg"
| "RpcMessage_validate env _ = Inr ()"

definition Envelope_validate :: "'v rpc_env \<Rightarrow> 'v Envelope \<Rightarrow> (TaskRpcError, unit) result" where
  "Envelope_validate env envelope =
     (if en_version envelope \<noteq> TASK_RPC_VERSION
      then Inl (RE_UnsupportedVersion (en_version envelope) TASK_RPC_VERSION)
      else RpcMessage_validate env (en_message envelope))"

subsection \<open>Reading and writing\<close>

definition encode_message :: "'v rpc_env \<Rightarrow> 'v Envelope \<Rightarrow> (TaskRpcError, string) result" where
  "encode_message env envelope =
     rbind (Envelope_validate env envelope) (\<lambda>_.
     rbind (ok_or (jc_to_vec (rpc_codec env) envelope) RE_Json) (\<lambda>bytes.
     if length bytes > MAX_TASK_RPC_FRAME then Inl (RE_FrameTooLarge (length bytes)) else Inr bytes))"

definition decode_message :: "'v rpc_env \<Rightarrow> string \<Rightarrow> (TaskRpcError, 'v Envelope) result" where
  "decode_message env bytes =
     (if length bytes > MAX_TASK_RPC_FRAME then Inl (RE_FrameTooLarge (length bytes))
      else
      rbind (ok_or (jc_from_slice (rpc_codec env) bytes) RE_Json) (\<lambda>envelope.
      rbind (Envelope_validate env envelope) (\<lambda>_. Inr envelope)))"

definition rpc_write_message :: "'v rpc_env \<Rightarrow> 'v Envelope \<Rightarrow> (TaskRpcError, string) result" where
  "rpc_write_message env envelope =
     rbind (encode_message env envelope) (\<lambda>bytes. Inr (le_bytes 4 (length bytes) @ bytes))"

definition read_message_opt ::
  "'v rpc_env \<Rightarrow> io_item list \<Rightarrow> (TaskRpcError, 'v Envelope option \<times> io_item list) result" where
  "read_message_opt env reader =
     rbind (map_err RE_Io (read_one reader)) (\<lambda>(first, reader).
     case first of
       None \<Rightarrow> Inr (None, reader)
     | Some b \<Rightarrow>
         rbind (map_err RE_Io (read_exact 3 reader)) (\<lambda>(length3, reader).
         let len = le_value (b # length3) in
         if len > MAX_TASK_RPC_FRAME then Inl (RE_FrameTooLarge len)
         else
         rbind (map_err RE_Io (read_exact len reader)) (\<lambda>(bytes, reader).
         rbind (decode_message env bytes) (\<lambda>envelope. Inr (Some envelope, reader)))))"

definition rpc_read_message ::
  "'v rpc_env \<Rightarrow> io_item list \<Rightarrow> (TaskRpcError, 'v Envelope \<times> io_item list) result" where
  "rpc_read_message env reader =
     rbind (read_message_opt env reader) (\<lambda>(envelope, reader).
       rbind (ok_or envelope (RE_Io UnexpectedEof)) (\<lambda>envelope. Inr (envelope, reader)))"


subsection \<open>Task ids are canonical\<close>

lemma hex_fixed_hex_parse:
  "hex_parse 0 s = Some v \<Longrightarrow> list_all is_wire_hex s \<Longrightarrow> hex_fixed (length s) v = s"
proof (induction s arbitrary: v rule: rev_induct)
  case (snoc c s)
  from snoc.prems obtain u d where u: "hex_parse 0 s = Some u" and d: "hex_digit_val c = Some d"
      and v: "v = 16 * u + d"
    by (auto simp: hex_parse_append split: option.split_asm)
  have wire: "is_wire_hex c" using snoc.prems(2) by simp
  then have dc: "d < 16" "hex_char d = c"
    using d by (auto simp: hex_digit_val_def hex_char_def is_wire_hex_def is_ascii_digit_def split: if_split_asm)
  then show ?case using snoc.IH [OF u] snoc.prems(2) by (simp add: v)
qed simp

lemma hex_parse_total: "list_all is_wire_hex s \<Longrightarrow> \<exists>v. hex_parse acc s = Some v"
  by (induction s arbitrary: acc) (auto simp: is_wire_hex_def hex_digit_val_def)

lemma hex_char_wire: "d < 16 \<Longrightarrow> is_wire_hex (hex_char d)"
  by (auto simp: is_wire_hex_def hex_char_def is_ascii_digit_def)

text \<open>
  The textual task id of the protocol is canonical. Every id prints to a text that parses back to
  it; and whatever text parses is the one that its id prints to, so two different texts never name the
  same task, and a text is accepted exactly when it is some id's printed form.
\<close>

theorem wire_task_id_canonical:
  "WireTaskId_parse (WireTaskId_new task_id) = Inr task_id \<and>
   (case WireTaskId_parse s of
      Inr i \<Rightarrow> WireTaskId_new i = s
    | Inl e \<Rightarrow> e = RE_InvalidTaskId s \<and> s \<notin> range WireTaskId_new)"
proof -
  have new: "WireTaskId_parse (WireTaskId_new i) = Inr i" for i
  proof -
    have lt: "unat i < 16 ^ 32" using unat_less_2p [of i] by simp
    have "list_all is_wire_hex (WireTaskId_new i)"
      using hex_fixed_digits hex_char_wire by (fastforce simp: list_all_iff WireTaskId_new_def TaskId_to_string_def)
    then show ?thesis using lt hex_parse_hex_fixed [of 0 32 "unat i"]
      by (simp add: WireTaskId_parse_def WireTaskId_validate_def WireTaskId_new_def TaskId_to_string_def)
  qed
  have "case WireTaskId_parse s of Inr i \<Rightarrow> WireTaskId_new i = s
      | Inl e \<Rightarrow> e = RE_InvalidTaskId s \<and> s \<notin> range WireTaskId_new"
  proof (cases "WireTaskId_parse s")
    case (Inr i)
    then have s: "length s = 32" "list_all is_wire_hex s" and v: "\<exists>v. hex_parse 0 s = Some v \<and> v < 2 ^ 128 \<and> i = of_nat v"
      by (auto simp: WireTaskId_parse_def WireTaskId_validate_def result_simps split: if_split_asm option.split_asm)
    then obtain v where "hex_parse 0 s = Some v" "v < 2 ^ 128" "i = of_nat v" by blast
    then show ?thesis using Inr hex_fixed_hex_parse [of s v] s
      by (simp add: WireTaskId_new_def TaskId_to_string_def unsigned_of_nat take_bit_nat_eq_self)
  next
    case (Inl e)
    then have "e = RE_InvalidTaskId s"
      by (auto simp: WireTaskId_parse_def WireTaskId_validate_def result_simps split: if_split_asm option.split_asm)
    moreover have "s \<notin> range WireTaskId_new" using Inl new by auto
    ultimately show ?thesis using Inl by simp
  qed
  with new show ?thesis by blast
qed

subsection \<open>Conversations\<close>

lemma encode_message_Inr:
  assumes "encode_message env e = Inr bytes" and "codec_faithful (rpc_codec env) e"
  shows "length bytes \<le> MAX_TASK_RPC_FRAME" "decode_message env bytes = Inr e"
  using assms by (auto simp: encode_message_def decode_message_def codec_faithful_def result_simps split: if_split_asm)

lemma frame_header_split:
  "le_bytes 4 n = char_of (n mod 256) # le_bytes 3 (n div 256)"
  using le_bytes.simps(2) [of 3 n] by (simp only: Suc_numeral semiring_norm)

lemma read_header:
  assumes "delivers xs (le_bytes 4 n)"
  shows "\<exists>b length3 s1. read_one (xs @ rest) = Inr (Some b, s1) \<and> read_exact 3 s1 = Inr (length3, rest) \<and>
    b # length3 = le_bytes 4 n"
proof -
  obtain ys where ys: "delivers ys (le_bytes 3 (n div 256))"
      "read_one (xs @ rest) = Inr (Some (char_of (n mod 256)), ys @ rest)"
    using read_one_delivers assms unfolding frame_header_split by blast
  then show ?thesis using read_exact_delivers [OF ys(1), of rest] by (simp add: frame_header_split)
qed

lemma read_message_opt_frame:
  assumes "n < 2 ^ 32" and "delivers xs (le_bytes 4 n)"
  shows "read_message_opt env (xs @ rest) =
    (if n > MAX_TASK_RPC_FRAME then Inl (RE_FrameTooLarge n)
     else rbind (map_err RE_Io (read_exact n rest)) (\<lambda>(bytes, reader).
       rbind (decode_message env bytes) (\<lambda>envelope. Inr (Some envelope, reader))))"
proof -
  obtain b length3 s1 where h: "read_one (xs @ rest) = Inr (Some b, s1)" "read_exact 3 s1 = Inr (length3, rest)"
      "b # length3 = le_bytes 4 n"
    using read_header [OF assms(2), of rest] by blast
  have "le_value (b # length3) = n" unfolding h(3) le_value_le_bytes using assms(1) by simp
  then show ?thesis using h(1,2) by (simp add: read_message_opt_def Let_def del: le_value.simps)
qed

interpretation rpc: message_stream "rpc_write_message env" "rpc_read_message env" "codec_faithful (rpc_codec env)"
  for env
proof
  fix e bs xs rest
  assume faithful: "codec_faithful (rpc_codec env) e" and wr: "rpc_write_message env e = Inr bs" and del: "delivers xs bs"
  from wr obtain bytes where b: "encode_message env e = Inr bytes" "bs = le_bytes 4 (length bytes) @ bytes"
    by (auto simp: rpc_write_message_def result_simps)
  note enc = encode_message_Inr [OF b(1) faithful]
  obtain ys zs where xs: "xs = ys @ zs" "delivers ys (le_bytes 4 (length bytes))" "delivers zs bytes"
    using delivers_append_split del unfolding b(2) by blast
  have "length bytes < 2 ^ 32" using enc(1) by (simp add: MAX_TASK_RPC_FRAME_def)
  from read_message_opt_frame [OF this xs(2), of env "zs @ rest"]
  show "rpc_read_message env (xs @ rest) = Inr (e, rest)"
    using read_exact_delivers [OF xs(3), of rest] enc xs(1) by (simp add: rpc_read_message_def)
qed

text \<open>
  C35. A TaskRPC conversation arrives as it was sent. Any sequence of envelopes that can be written is
  read back envelope by envelope, in order, however the bytes are split by interrupted reads, and
  exactly their bytes are consumed.
\<close>

theorem rpc_conversation:
  assumes "\<forall>e \<in> set es. codec_faithful (rpc_codec env) e"
    and "collect_results (rpc_write_message env) es = Inr frames"
    and "delivers xs (concat frames)"
  shows "read_many (rpc_read_message env) (length es) (xs @ rest) = Inr (es, rest)"
  by (rule rpc.conversation [OF assms])

definition demo_rpc :: "unit rpc_env" where
  "demo_rpc = \<lparr>rpc_codec = \<lparr>jc_to_vec = \<lambda>e. if e = Envelope_new RM_Ready then Some ''R'' else None,
     jc_from_slice = \<lambda>bs. Some (Envelope_new RM_Ready)\<rparr>, rpc_value_to_vec = \<lambda>_. Some ''null''\<rparr>"

lemma demo_rpc_write: "rpc_write_message demo_rpc (Envelope_new RM_Ready) = Inr (le_bytes 4 1 @ ''R'')"
  by (simp add: rpc_write_message_def encode_message_def Envelope_validate_def Envelope_new_def demo_rpc_def
      MAX_TASK_RPC_FRAME_def)

theorem rpc_conversation_witness:
  "read_many (rpc_read_message demo_rpc) 1 (map Data (le_bytes 4 1) @ [Interrupted, Data (CHR ''R''), Fault])
   = Inr ([Envelope_new RM_Ready], [Fault])"
proof -
  let ?xs = "map Data (le_bytes 4 1) @ [Interrupted, Data (CHR ''R'')]"
  have faithful: "\<forall>e \<in> set [Envelope_new RM_Ready]. codec_faithful (rpc_codec demo_rpc) e"
    by (simp add: codec_faithful_def demo_rpc_def)
  have frames: "collect_results (rpc_write_message demo_rpc) [Envelope_new RM_Ready] = Inr [le_bytes 4 1 @ ''R'']"
    by (simp add: demo_rpc_write)
  have app: "delivers (map Data as @ ys) (as @ bs) \<longleftrightarrow> delivers ys bs" for as ys bs
    by (induction as) simp_all
  have "delivers ?xs (concat [le_bytes 4 1 @ ''R''])" by (simp add: app)
  from rpc_conversation [OF faithful frames this, of "[Fault]"] show ?thesis by simp
qed

subsection \<open>What a reader can return\<close>

definition worker_ok :: "string \<Rightarrow> bool" where
  "worker_ok s \<longleftrightarrow> 1 \<le> length s \<and> length s \<le> 128 \<and> (\<forall>c \<in> set s. is_worker_byte c)"

definition token_ok :: "LeaseToken \<Rightarrow> bool" where
  "token_ok t \<longleftrightarrow> lt_task_id t \<in> range WireTaskId_new \<and> 1 \<le> lt_generation t \<and> worker_ok (lt_lease_owner t)"

definition descriptor_ok :: "'v rpc_env \<Rightarrow> 'v TaskDescriptor \<Rightarrow> bool" where
  "descriptor_ok env d \<longleftrightarrow>
     [] \<notin> set (trigger_fields (td_trigger d)) \<and> length (concat (trigger_fields (td_trigger d))) \<le> 256 \<and>
     (\<exists>bs. rpc_value_to_vec env (td_input d) = Some bs \<and> length bs \<le> 32768) \<and> 1 \<le> td_attempt d"

definition lease_ok :: "'v rpc_env \<Rightarrow> 'v TaskLease \<Rightarrow> bool" where
  "lease_ok env l \<longleftrightarrow> token_ok (tl_token l) \<and> descriptor_ok env (tl_task l) \<and> 1 \<le> tl_lease_until_ms l"

fun outcome_ok :: "'v rpc_env \<Rightarrow> 'v TaskOutcome \<Rightarrow> bool" where
  "outcome_ok env (TO_Completed v) = (\<exists>bs. rpc_value_to_vec env v = Some bs \<and> length bs \<le> 32768)"
| "outcome_ok env (TO_Failed msg _) = (length msg \<le> 4096)"
| "outcome_ok env _ = True"

fun rpc_message_ok :: "'v rpc_env \<Rightarrow> 'v RpcMessage \<Rightarrow> bool" where
  "rpc_message_ok env (RM_Hello w) = worker_ok w"
| "rpc_message_ok env (RM_Claim _ w ms limit) =
     (worker_ok w \<and> 1 \<le> ms \<and> ms \<le> 86400000 \<and> 1 \<le> limit \<and> limit \<le> 64)"
| "rpc_message_ok env (RM_Claimed _ leases) = (length leases \<le> 64 \<and> (\<forall>l \<in> set leases. lease_ok env l))"
| "rpc_message_ok env (RM_Renew _ t ms) = (token_ok t \<and> 1 \<le> ms \<and> ms \<le> 86400000)"
| "rpc_message_ok env (RM_Renewed _ l) = (\<forall>x \<in> set_option l. lease_ok env x)"
| "rpc_message_ok env (RM_Release _ t) = token_ok t"
| "rpc_message_ok env (RM_Commit _ t o') = (token_ok t \<and> outcome_ok env o')"
| "rpc_message_ok env (RM_Cancel _ i) = (i \<in> range WireTaskId_new)"
| "rpc_message_ok env (RM_Error _ _ msg) = (length msg \<le> 4096)"
| "rpc_message_ok env _ = True"

lemma WireTaskId_validate_iff: "WireTaskId_validate s = Inr () \<longleftrightarrow> s \<in> range WireTaskId_new"
proof
  assume "s \<in> range WireTaskId_new"
  then show "WireTaskId_validate s = Inr ()"
    using hex_fixed_digits hex_char_wire
    by (fastforce simp: WireTaskId_validate_def WireTaskId_new_def TaskId_to_string_def list_all_iff)
next
  assume v: "WireTaskId_validate s = Inr ()"
  then have s: "length s = 32" "list_all is_wire_hex s" by (auto simp: WireTaskId_validate_def split: if_split_asm)
  then obtain n where n: "hex_parse 0 s = Some n" using hex_parse_total by blast
  have "hex_fixed 32 n = s" using hex_fixed_hex_parse [OF n s(2)] s(1) by simp
  moreover have "n < 2 ^ 128"
    using hex_parse_hex_fixed [of 0 32 n] n calculation by (simp add: mod_eq_self_iff_div_eq_0)
  ultimately have "WireTaskId_new (of_nat n) = s"
    by (simp add: WireTaskId_new_def TaskId_to_string_def unsigned_of_nat take_bit_nat_eq_self)
  then show "s \<in> range WireTaskId_new" by blast
qed

lemma validate_worker_id_iff: "validate_worker_id s = Inr () \<longleftrightarrow> worker_ok s"
  by (auto simp: validate_worker_id_def worker_ok_def rpc_limits list_all_iff Suc_le_eq)

lemma word_ge_1: "1 \<le> (w :: 'a::len word) \<longleftrightarrow> w \<noteq> 0"
  using word_neq_0_conv word_le_sub1 by (metis word_gt_0 word_less_1 linorder_not_le)

lemma validate_lease_ms_iff: "validate_lease_ms ms = Inr () \<longleftrightarrow> 1 \<le> ms \<and> ms \<le> 86400000"
  by (auto simp: validate_lease_ms_def rpc_limits word_ge_1)

lemma validate_error_iff: "validate_error msg = Inr () \<longleftrightarrow> length msg \<le> 4096"
  by (simp add: validate_error_def rpc_limits)

lemma LeaseToken_validate_iff: "LeaseToken_validate t = Inr () \<longleftrightarrow> token_ok t"
  by (auto simp: LeaseToken_validate_def token_ok_def WireTaskId_validate_iff validate_worker_id_iff word_ge_1
      result_simps)

lemma trigger_total_Inr:
  "trigger_total n fs = Inr k \<longleftrightarrow>
     [] \<notin> set fs \<and> k = n + length (concat fs) \<and> (fs = [] \<or> n + length (concat fs) < 2 ^ 64)"
proof (induction n fs rule: trigger_total.induct)
  case (2 n f fs)
  show ?case
  proof (cases "f = [] \<or> n + length f \<ge> 2 ^ 64")
    case True
    then show ?thesis by auto
  next
    case False
    then show ?thesis using 2 by auto
  qed
qed auto

lemma trigger_fields_nonempty: "trigger_fields w \<noteq> []"
  by (cases w) (auto split: option.split)

lemma WireTaskTrigger_validate_iff:
  "WireTaskTrigger_validate w = Inr () \<longleftrightarrow>
     [] \<notin> set (trigger_fields w) \<and> length (concat (trigger_fields w)) \<le> 256"
proof -
  have "WireTaskTrigger_validate w = Inr () \<longleftrightarrow> (\<exists>k. trigger_total 0 (trigger_fields w) = Inr k \<and> k \<le> 256)"
    by (auto simp: WireTaskTrigger_validate_def rpc_limits result_simps not_less)
  then show ?thesis by (simp add: trigger_total_Inr trigger_fields_nonempty) linarith
qed

lemma TaskDescriptor_validate_iff: "TaskDescriptor_validate env d = Inr () \<longleftrightarrow> descriptor_ok env d"
  by (auto simp: TaskDescriptor_validate_def descriptor_ok_def WireTaskTrigger_validate_iff rpc_limits word_ge_1
      result_simps not_less)

lemma TaskLease_validate_iff: "TaskLease_validate env l = Inr () \<longleftrightarrow> lease_ok env l"
  by (auto simp: TaskLease_validate_def lease_ok_def LeaseToken_validate_iff TaskDescriptor_validate_iff word_ge_1
      result_simps)

lemma TaskOutcome_validate_iff: "TaskOutcome_validate env out = Inr () \<longleftrightarrow> outcome_ok env out"
  by (cases out) (auto simp: validate_error_iff rpc_limits result_simps not_less)

lemma RpcMessage_validate_iff: "RpcMessage_validate env m = Inr () \<longleftrightarrow> rpc_message_ok env m"
  by (cases m)
    (auto simp: validate_worker_id_iff validate_lease_ms_iff validate_error_iff LeaseToken_validate_iff
      WireTaskId_validate_iff TaskLease_validate_iff TaskOutcome_validate_iff try_for_each_Inr_iff
      MAX_CLAIM_BATCH_def word_ge_1 result_simps not_less split: option.splits)

text \<open>
  C36. Nothing invalid crosses the protocol. Whatever a reader returns, from any stream, has the supported
  version and obeys the limits of its kind of message: worker names of 1 to 128 permitted characters,
  lease times of at most a day, batches of 1 to 64, canonical task ids, non-zero generations, attempts and
  deadlines, non-empty triggers of at most 256 bytes, and inputs, results and errors within their sizes.
  And a writer produces bytes only for such a message.
\<close>

theorem rpc_messages_valid:
  assumes "read_message_opt env s = Inr (Some e, s') \<or> rpc_write_message env e = Inr bs"
  shows "en_version e = 1 \<and> rpc_message_ok env (en_message e)"
proof -
  have "Envelope_validate env e = Inr ()"
    using assms
  proof
    assume "read_message_opt env s = Inr (Some e, s')"
    then obtain bytes where "decode_message env bytes = Inr e"
      by (auto simp: read_message_opt_def Let_def result_simps split: option.split_asm if_split_asm)
    then show ?thesis by (auto simp: decode_message_def result_simps split: if_split_asm)
  next
    assume "rpc_write_message env e = Inr bs"
    then show ?thesis by (auto simp: rpc_write_message_def encode_message_def result_simps)
  qed
  then show ?thesis
    by (auto simp: Envelope_validate_def RpcMessage_validate_iff TASK_RPC_VERSION_def split: if_split_asm)
qed

theorem rpc_messages_valid_witness:
  "rpc_write_message demo_rpc (Envelope_new RM_Ready) = Inr (le_bytes 4 1 @ ''R'') \<and>
   en_version (Envelope_new RM_Ready :: unit Envelope) = 1"
  using rpc_messages_valid [OF disjI2 [OF demo_rpc_write]] demo_rpc_write by blast

text \<open>
  The end of a TaskRPC stream is told apart from a broken one. A reader reports the end only when not
  a single byte is left; a stream that ends inside a header or inside a payload is an unexpected end of
  file, and a header that announces more than the limit is refused before any byte of the payload is
  looked at.
\<close>

theorem rpc_stream_errors:
  "((\<exists>s'. read_message_opt env s = Inr (None, s')) \<longleftrightarrow> set s \<subseteq> {Interrupted}) \<and>
   (delivers pre hdr \<longrightarrow> hdr \<noteq> [] \<longrightarrow> length hdr < 4 \<longrightarrow>
      read_message_opt env pre = Inl (RE_Io UnexpectedEof)) \<and>
   (delivers pre (le_bytes 4 n) \<longrightarrow> n < 2 ^ 32 \<longrightarrow> MAX_TASK_RPC_FRAME < n \<longrightarrow>
      read_message_opt env (pre @ rest) = Inl (RE_FrameTooLarge n)) \<and>
   (delivers pre (le_bytes 4 n) \<longrightarrow> n \<le> MAX_TASK_RPC_FRAME \<longrightarrow> delivers body part \<longrightarrow> length part < n \<longrightarrow>
      read_message_opt env (pre @ body) = Inl (RE_Io UnexpectedEof))"
proof (intro conjI impI)
  have "read_one s = Inr (None, s') \<longleftrightarrow> s' = [] \<and> set s \<subseteq> {Interrupted}" for s'
    by (induction s rule: read_one.induct) auto
  then show "(\<exists>s'. read_message_opt env s = Inr (None, s')) \<longleftrightarrow> set s \<subseteq> {Interrupted}"
    by (fastforce simp: read_message_opt_def Let_def result_simps split: option.splits if_split_asm)
next
  assume pre: "delivers pre hdr" and hdr: "hdr \<noteq> []" "length hdr < 4"
  obtain b bs where h: "hdr = b # bs" using hdr(1) by (cases hdr) auto
  obtain ys where ys: "delivers ys bs" and all: "\<forall>rest. read_one (pre @ rest) = Inr (Some b, ys @ rest)"
    using read_one_delivers [OF pre [unfolded h]] by blast
  have "read_one pre = Inr (Some b, ys)" using spec [OF all, of "[]"] by simp
  then show "read_message_opt env pre = Inl (RE_Io UnexpectedEof)"
    using read_exact_truncated [OF ys, of 3] hdr(2) h by (simp add: read_message_opt_def)
next
  assume "delivers pre (le_bytes 4 n)" "n < 2 ^ 32" "MAX_TASK_RPC_FRAME < n"
  then show "read_message_opt env (pre @ rest) = Inl (RE_FrameTooLarge n)"
    by (simp add: read_message_opt_frame)
next
  assume pre: "delivers pre (le_bytes 4 n)" "n \<le> MAX_TASK_RPC_FRAME" "delivers body part" "length part < n"
  then have "n < 2 ^ 32" by (simp add: MAX_TASK_RPC_FRAME_def)
  then show "read_message_opt env (pre @ body) = Inl (RE_Io UnexpectedEof)"
    using pre read_exact_truncated [OF pre(3,4)] by (simp add: read_message_opt_frame)
qed

theorem rpc_stream_errors_witness:
  "read_message_opt demo_rpc [Data (CHR 0x05)] = Inl (RE_Io UnexpectedEof) \<and>
   read_message_opt demo_rpc (map Data (le_bytes 4 70000) @ [Fault]) = Inl (RE_FrameTooLarge 70000)"
  using rpc_stream_errors [where pre = "[Data (CHR 0x05)]" and hdr = "[CHR 0x05]" and env = demo_rpc]
    rpc_stream_errors [where pre = "map Data (le_bytes 4 70000)" and n = 70000 and rest = "[Fault]" and env = demo_rpc]
  by (simp add: delivers_data MAX_TASK_RPC_FRAME_def del: le_bytes.simps)

end
