(* ===== verification/Task_Broker.thy ===== *)
theory Task_Broker
  imports Scheduler Task_Rpc Tysel_Text
begin

text \<open>
  The TaskRPC coordinator of \<^verbatim>\<open>crates/tysel-runtime/src/task_rpc.rs\<close>: the broker, which answers requests of
  workers from the scheduler, and the per-connection sessions. A handler maps the broker to its reply and
  the broker it leaves behind, also when the reply is an error. Texts of errors of other libraries are
  parameters: the cause of an I/O or JSON error, and the \<open>{:?}\<close> form of a string.
\<close>

subsection \<open>Error texts\<close>

fun TaskState_debug :: "TaskState \<Rightarrow> string" where
  "TaskState_debug Created = ''Created''"
| "TaskState_debug Queued = ''Queued''"
| "TaskState_debug Running = ''Running''"
| "TaskState_debug WaitingIo = ''WaitingIo''"
| "TaskState_debug Suspended = ''Suspended''"
| "TaskState_debug Retrying = ''Retrying''"
| "TaskState_debug Completed = ''Completed''"
| "TaskState_debug Failed = ''Failed''"
| "TaskState_debug Canceled = ''Canceled''"
| "TaskState_debug TimedOut = ''TimedOut''"

definition TaskTransitionError_to_string :: "TaskTransitionError \<Rightarrow> string" where
  "TaskTransitionError_to_string e =
     ''task '' @ TaskId_to_string (tte_id e) @ '' cannot transition from '' @ TaskState_debug (tte_from e) @
     '' to '' @ TaskState_debug (tte_to e)"

definition quoted :: "char \<Rightarrow> string" where
  "quoted c = [CHR 0x27, c, CHR 0x27]"

definition owner_alphabet :: string where
  "owner_alphabet = '' ASCII letters, digits, '' @ quoted (CHR ''.'') @ '', '' @ quoted (CHR ''_'') @ '', '' @
     quoted (CHR '':'') @ '', '' @ quoted (CHR ''@'') @ '', or '' @ quoted (CHR ''-'')"

fun SchedulerError_to_string :: "SchedulerError \<Rightarrow> string" where
  "SchedulerError_to_string SE_InvalidCapacity = ''scheduler capacity must be greater than zero''"
| "SchedulerError_to_string (SE_Full capacity) = ''scheduler queue is full (capacity '' @ nat_to_string capacity @ '')''"
| "SchedulerError_to_string (SE_Duplicate i) = ''task '' @ TaskId_to_string i @ '' is already registered''"
| "SchedulerError_to_string (SE_Unknown i) = ''task '' @ TaskId_to_string i @ '' is not registered''"
| "SchedulerError_to_string SE_InvalidLeaseOwner =
     ''lease owner must be 1..='' @ nat_to_string MAX_LEASE_OWNER_BYTES @ owner_alphabet"
| "SchedulerError_to_string SE_InvalidLeaseDuration =
     ''lease duration must be 1..='' @ nat_to_string (unat MAX_LEASE_MS) @ '' milliseconds''"
| "SchedulerError_to_string SE_TimeRange = ''scheduler clock is outside the supported range''"
| "SchedulerError_to_string SE_GenerationExhausted = ''task claim generation is exhausted''"
| "SchedulerError_to_string SE_LeaseLost = ''task claim is missing, expired, or fenced by a newer generation''"
| "SchedulerError_to_string (SE_InvalidClaimOutcome state) = ''worker claims cannot finish in state '' @ TaskState_debug state"
| "SchedulerError_to_string (SE_InvalidTransition e) = TaskTransitionError_to_string e"

record 'v broker_env =
  be_rpc :: "'v rpc_env"
  be_cause :: string
  be_debug :: "string \<Rightarrow> string"

fun TaskRpcError_to_string :: "'v broker_env \<Rightarrow> TaskRpcError \<Rightarrow> string" where
  "TaskRpcError_to_string env (RE_Io e) = ''io: '' @ be_cause env"
| "TaskRpcError_to_string env (RE_FrameTooLarge n) =
     ''TaskRPC frame length '' @ nat_to_string n @ '' exceeds '' @ nat_to_string MAX_TASK_RPC_FRAME @ '' byte limit''"
| "TaskRpcError_to_string env RE_Json = ''TaskRPC JSON: '' @ be_cause env"
| "TaskRpcError_to_string env (RE_UnsupportedVersion found supported) =
     ''TaskRPC version '' @ nat_to_string (unat found) @ '' is unsupported; this runtime supports '' @
     nat_to_string (unat supported)"
| "TaskRpcError_to_string env RE_InvalidWorkerId =
     ''worker id must be 1..='' @ nat_to_string MAX_WORKER_ID_BYTES @ owner_alphabet"
| "TaskRpcError_to_string env (RE_InvalidClaimLimit limit) =
     ''claim limit '' @ nat_to_string (unat limit) @ '' must be 1..='' @ nat_to_string (unat MAX_CLAIM_BATCH)"
| "TaskRpcError_to_string env (RE_TooManyLeases n) =
     ''claim response contains '' @ nat_to_string n @ '' leases; maximum is '' @ nat_to_string (unat MAX_CLAIM_BATCH)"
| "TaskRpcError_to_string env RE_InvalidLeaseDuration =
     ''lease duration must be 1..='' @ nat_to_string (unat RPC_MAX_LEASE_MS) @ '' milliseconds''"
| "TaskRpcError_to_string env RE_InvalidLeaseDeadline = ''lease deadline must be non-zero''"
| "TaskRpcError_to_string env RE_InvalidLeaseGeneration = ''lease generation must be non-zero''"
| "TaskRpcError_to_string env RE_InvalidTaskAttempt = ''claimed task attempt must be non-zero''"
| "TaskRpcError_to_string env RE_InvalidTaskTrigger = ''task trigger fields must not be empty''"
| "TaskRpcError_to_string env RE_TaskTriggerTooLarge =
     ''task trigger fields exceed '' @ nat_to_string MAX_TASK_TRIGGER_BYTES @ '' bytes in total''"
| "TaskRpcError_to_string env (RE_TaskInputTooLarge n) =
     ''task input is '' @ nat_to_string n @ '' bytes; maximum is '' @ nat_to_string MAX_TASK_INPUT_BYTES"
| "TaskRpcError_to_string env (RE_InvalidTaskId s) =
     ''task id '' @ be_debug env s @ '' is not canonical 32-character lowercase hex''"
| "TaskRpcError_to_string env RE_ErrorTooLarge = ''task error must not exceed '' @ nat_to_string MAX_ERROR_BYTES @ '' bytes''"
| "TaskRpcError_to_string env (RE_ResultTooLarge n) =
     ''task result is '' @ nat_to_string n @ '' bytes; maximum is '' @ nat_to_string MAX_RESULT_BYTES"

definition error_message :: "u64 option \<Rightarrow> ErrorCode \<Rightarrow> string \<Rightarrow> 'v RpcMessage" where
  "error_message request_id code message = RM_Error request_id code message"

definition error_response :: "u64 option \<Rightarrow> ErrorCode \<Rightarrow> string \<Rightarrow> 'v Envelope" where
  "error_response request_id code message = Envelope_new (error_message request_id code message)"

fun scheduler_error_code :: "SchedulerError \<Rightarrow> ErrorCode" where
  "scheduler_error_code (SE_Unknown _) = EC_TaskNotFound"
| "scheduler_error_code SE_LeaseLost = EC_LeaseLost"
| "scheduler_error_code SE_InvalidLeaseOwner = EC_InvalidRequest"
| "scheduler_error_code SE_InvalidLeaseDuration = EC_InvalidRequest"
| "scheduler_error_code (SE_InvalidClaimOutcome _) = EC_InvalidRequest"
| "scheduler_error_code _ = EC_Internal"

definition scheduler_error :: "u64 option \<Rightarrow> SchedulerError \<Rightarrow> 'v RpcMessage" where
  "scheduler_error request_id e =
     error_message request_id (scheduler_error_code e) (SchedulerError_to_string e)"

subsection \<open>Leases on the wire\<close>

definition wire_lease :: "'v rpc_env \<Rightarrow> 'v TaskClaim \<Rightarrow> (TaskRpcError, 'v TaskLease) result" where
  "wire_lease env c =
     rbind (TaskDescriptor_from_task env (tc_task c)) (\<lambda>task.
       Inr \<lparr>tl_token = \<lparr>lt_task_id = WireTaskId_new (task_ident (tc_task c)), lt_generation = tc_generation c,
                        lt_lease_owner = tc_lease_owner c\<rparr>,
            tl_task = task, tl_lease_until_ms = tc_lease_until_ms c\<rparr>)"

definition preview_wire_lease :: "'v rpc_env \<Rightarrow> 'v Task \<Rightarrow> string \<Rightarrow> (TaskRpcError, 'v TaskLease) result" where
  "preview_wire_lease env task lease_owner =
     rbind (TaskDescriptor_from_task env task) (\<lambda>descriptor.
       Inr \<lparr>tl_token = \<lparr>lt_task_id = WireTaskId_new (task_ident task), lt_generation = (- 1),
                        lt_lease_owner = lease_owner\<rparr>,
            tl_task = descriptor, tl_lease_until_ms = (- 1)\<rparr>)"

fun rpc_request_id :: "'v RpcMessage \<Rightarrow> u64 option" where
  "rpc_request_id (RM_Hello _) = None"
| "rpc_request_id RM_Ready = None"
| "rpc_request_id (RM_Claim rid _ _ _) = Some rid"
| "rpc_request_id (RM_Claimed rid _) = Some rid"
| "rpc_request_id (RM_Renew rid _ _) = Some rid"
| "rpc_request_id (RM_Renewed rid _) = Some rid"
| "rpc_request_id (RM_Release rid _) = Some rid"
| "rpc_request_id (RM_Released rid _) = Some rid"
| "rpc_request_id (RM_Cancel rid _) = Some rid"
| "rpc_request_id (RM_Canceled rid _) = Some rid"
| "rpc_request_id (RM_Commit rid _ _) = Some rid"
| "rpc_request_id (RM_Committed rid _) = Some rid"
| "rpc_request_id (RM_Error rid _ _) = rid"

subsection \<open>The broker\<close>

record 'v TaskRpcBroker =
  br_scheduler :: "'v Scheduler"
  br_outcomes :: "(TaskId \<times> 'v TaskOutcome) list"

datatype TaskRpcBrokerError = BE_Scheduler SchedulerError | BE_Protocol TaskRpcError

definition broker_new :: "nat \<Rightarrow> (SchedulerError, 'v TaskRpcBroker) result" where
  "broker_new capacity =
     rbind (Scheduler_new capacity) (\<lambda>scheduler. Inr \<lparr>br_scheduler = scheduler, br_outcomes = []\<rparr>)"

text \<open>What \<open>enqueue\<close> checks first: the task can be delivered in a frame, whatever worker claims it.\<close>

definition deliverable :: "'v rpc_env \<Rightarrow> 'v Task \<Rightarrow> (TaskRpcBrokerError, unit) result" where
  "deliverable env task =
     rbind (map_err (BE_Scheduler \<circ> SE_InvalidTransition) (Task_transition task Queued)) (\<lambda>shape.
     rbind (map_err (BE_Scheduler \<circ> SE_InvalidTransition) (begin_attempt shape)) (\<lambda>shape.
     rbind (map_err BE_Protocol (TaskDescriptor_from_task env shape)) (\<lambda>_.
     rbind (map_err BE_Protocol (preview_wire_lease env shape (replicate MAX_WORKER_ID_BYTES (CHR ''w'')))) (\<lambda>worst.
     rbind (map_err BE_Protocol (encode_message env (Envelope_new (RM_Claimed (- 1) [worst])))) (\<lambda>_. Inr ())))))"

definition broker_enqueue ::
  "'v broker_env \<Rightarrow> 'v Task \<Rightarrow> 'v TaskRpcBroker \<Rightarrow> (TaskRpcBrokerError, unit) result \<times> 'v TaskRpcBroker" where
  "broker_enqueue env task b =
     (case deliverable (be_rpc env) task of
        Inl e \<Rightarrow> (Inl e, b)
      | Inr _ \<Rightarrow>
          (case enqueue task (br_scheduler b) of
             (r, s) \<Rightarrow> (map_err BE_Scheduler r, b\<lparr>br_scheduler := s\<rparr>)))"

definition broker_task :: "'v TaskRpcBroker \<Rightarrow> TaskId \<Rightarrow> 'v Task option" where
  "broker_task b i = sched_get (br_scheduler b) i"

definition broker_outcome :: "'v TaskRpcBroker \<Rightarrow> TaskId \<Rightarrow> 'v TaskOutcome option" where
  "broker_outcome b i = map_of (br_outcomes b) i"

definition broker_remaining_capacity :: "'v TaskRpcBroker \<Rightarrow> nat" where
  "broker_remaining_capacity b = remaining_capacity (br_scheduler b)"

definition broker_requeue_expired ::
  "u64 \<Rightarrow> nat \<Rightarrow> 'v TaskRpcBroker \<Rightarrow> (SchedulerError, TaskId list) result \<times> 'v TaskRpcBroker" where
  "broker_requeue_expired now limit b =
     (case requeue_expired now limit (br_scheduler b) of (r, s) \<Rightarrow> (r, b\<lparr>br_scheduler := s\<rparr>))"

definition disconnect_worker ::
  "string \<Rightarrow> u64 \<Rightarrow> 'v TaskRpcBroker \<Rightarrow> (SchedulerError, TaskId list) result \<times> 'v TaskRpcBroker" where
  "disconnect_worker worker_id now b =
     (case requeue_owner_claims worker_id now (2 ^ 64 - 1) (br_scheduler b) of
        (r, s) \<Rightarrow> (r, b\<lparr>br_scheduler := s\<rparr>))"

text \<open>The loop of \<open>claim\<close>: each round previews the next task, checks that the reply still fits in a frame,
  and only then takes the lease.\<close>

fun is_frame_too_large :: "TaskRpcError \<Rightarrow> bool" where
  "is_frame_too_large (RE_FrameTooLarge _) = True"
| "is_frame_too_large _ = False"

fun broker_claim_loop ::
  "'v broker_env \<Rightarrow> u64 \<Rightarrow> string \<Rightarrow> u64 \<Rightarrow> u64 \<Rightarrow> nat \<Rightarrow> 'v TaskLease list \<Rightarrow> 'v Scheduler \<Rightarrow>
    'v RpcMessage \<times> 'v Scheduler" where
  "broker_claim_loop env request_id worker_id lease_ms now 0 leases s = (RM_Claimed request_id leases, s)"
| "broker_claim_loop env request_id worker_id lease_ms now (Suc n) leases s =
     (let internal = (\<lambda>e. error_message (Some request_id) EC_Internal (TaskRpcError_to_string env e)) in
      case peek_runnable now s of
        (Inl e, s1) \<Rightarrow> (scheduler_error (Some request_id) e, s1)
      | (Inr None, s1) \<Rightarrow> (RM_Claimed request_id leases, s1)
      | (Inr (Some task), s1) \<Rightarrow>
     (case begin_attempt task of
        Inl _ \<Rightarrow> (error_message (Some request_id) EC_Internal ''queued task cannot begin an attempt'', s1)
      | Inr task' \<Rightarrow>
     (case preview_wire_lease (be_rpc env) task' worker_id of
        Inl e \<Rightarrow> (internal e, s1)
      | Inr preview \<Rightarrow>
     (case encode_message (be_rpc env) (Envelope_new (RM_Claimed request_id (leases @ [preview]))) of
        Inl e \<Rightarrow> if is_frame_too_large e \<and> leases \<noteq> [] then (RM_Claimed request_id leases, s1) else (internal e, s1)
      | Inr _ \<Rightarrow>
     (case claim_with_lease now worker_id lease_ms s1 of
        (Inr (Some c), s2) \<Rightarrow>
          (case wire_lease (be_rpc env) c of
             Inr lease \<Rightarrow> broker_claim_loop env request_id worker_id lease_ms now n (leases @ [lease]) s2
           | Inl e \<Rightarrow> (internal e, snd (release_claim c now s2)))
      | (Inr None, s2) \<Rightarrow> (RM_Claimed request_id leases, s2)
      | (Inl e, s2) \<Rightarrow>
          if leases \<noteq> [] then (RM_Claimed request_id leases, s2) else (scheduler_error (Some request_id) e, s2))))))"

definition broker_claim ::
  "'v broker_env \<Rightarrow> u64 \<Rightarrow> string \<Rightarrow> u64 \<Rightarrow> u16 \<Rightarrow> u64 \<Rightarrow> 'v TaskRpcBroker \<Rightarrow> 'v RpcMessage \<times> 'v TaskRpcBroker" where
  "broker_claim env request_id worker_id lease_ms limit now b =
     (case requeue_expired now (unat limit) (br_scheduler b) of
        (Inl e, s) \<Rightarrow> (scheduler_error (Some request_id) e, b\<lparr>br_scheduler := s\<rparr>)
      | (Inr _, s) \<Rightarrow>
          (case broker_claim_loop env request_id worker_id lease_ms now (unat limit) [] s of
             (reply, s) \<Rightarrow> (reply, b\<lparr>br_scheduler := s\<rparr>)))"

definition claim_from_token :: "LeaseToken \<Rightarrow> 'v TaskRpcBroker \<Rightarrow> (unit, 'v TaskClaim) result" where
  "claim_from_token lease b =
     rbind (map_err (\<lambda>_. ()) (WireTaskId_parse (lt_task_id lease))) (\<lambda>task_id.
     rbind (ok_or (sched_get (br_scheduler b) task_id) ()) (\<lambda>task.
       Inr \<lparr>tc_task = task, tc_generation = lt_generation lease, tc_lease_owner = lt_lease_owner lease,
            tc_lease_until_ms = 0\<rparr>))"

definition broker_renew ::
  "'v broker_env \<Rightarrow> u64 \<Rightarrow> LeaseToken \<Rightarrow> u64 \<Rightarrow> u64 \<Rightarrow> 'v TaskRpcBroker \<Rightarrow> 'v RpcMessage \<times> 'v TaskRpcBroker" where
  "broker_renew env request_id lease lease_ms now b =
     (case claim_from_token lease b of
        Inl _ \<Rightarrow> (RM_Renewed request_id None, b)
      | Inr c \<Rightarrow>
          (case renew_claim c now lease_ms (br_scheduler b) of
             (r, s) \<Rightarrow>
               (case r of
                  Inr c' \<Rightarrow> (case wire_lease (be_rpc env) c' of
                      Inr l \<Rightarrow> RM_Renewed request_id (Some l)
                    | Inl e \<Rightarrow> error_message (Some request_id) EC_Internal (TaskRpcError_to_string env e))
                | Inl SE_LeaseLost \<Rightarrow> RM_Renewed request_id None
                | Inl (SE_Unknown _) \<Rightarrow> RM_Renewed request_id None
                | Inl e \<Rightarrow> scheduler_error (Some request_id) e,
                b\<lparr>br_scheduler := s\<rparr>)))"

text \<open>The errors that \<open>release\<close> and \<open>commit\<close> answer with a negative acknowledgement.\<close>

fun lease_refused :: "SchedulerError \<Rightarrow> bool" where
  "lease_refused SE_LeaseLost = True"
| "lease_refused (SE_Unknown _) = True"
| "lease_refused (SE_Full _) = True"
| "lease_refused _ = False"

definition broker_release :: "u64 \<Rightarrow> LeaseToken \<Rightarrow> u64 \<Rightarrow> 'v TaskRpcBroker \<Rightarrow> 'v RpcMessage \<times> 'v TaskRpcBroker" where
  "broker_release request_id lease now b =
     (case claim_from_token lease b of
        Inl _ \<Rightarrow> (RM_Released request_id False, b)
      | Inr c \<Rightarrow>
          (case release_claim c now (br_scheduler b) of
             (r, s) \<Rightarrow>
               (case r of Inr _ \<Rightarrow> RM_Released request_id True
                | Inl e \<Rightarrow> if lease_refused e then RM_Released request_id False
                           else scheduler_error (Some request_id) e,
                b\<lparr>br_scheduler := s\<rparr>)))"

definition broker_cancel :: "u64 \<Rightarrow> WireTaskId \<Rightarrow> 'v TaskRpcBroker \<Rightarrow> 'v RpcMessage \<times> 'v TaskRpcBroker" where
  "broker_cancel request_id wire_id b =
     (case WireTaskId_parse wire_id of
        Inl _ \<Rightarrow> (RM_Canceled request_id False, b)
      | Inr task_id \<Rightarrow>
          (case cancel task_id (br_scheduler b) of
             (Inr task, s) \<Rightarrow>
               (RM_Canceled request_id (t_state task = Canceled),
                b\<lparr>br_scheduler := s,
                   br_outcomes := (if t_state task = Canceled
                     then AList.update task_id TO_Canceled (br_outcomes b) else br_outcomes b)\<rparr>)
           | (Inl (SE_Unknown _), s) \<Rightarrow> (RM_Canceled request_id False, b\<lparr>br_scheduler := s\<rparr>)
           | (Inl e, s) \<Rightarrow> (scheduler_error (Some request_id) e, b\<lparr>br_scheduler := s\<rparr>)))"

fun apply_outcome :: "'v TaskOutcome \<Rightarrow> 'v TaskClaim \<Rightarrow> u64 \<Rightarrow> ('v, 'v Task) sched_op" where
  "apply_outcome (TO_Completed _) c now s = finish_claim c now Completed s"
| "apply_outcome TO_Suspended c now s = finish_claim c now Suspended s"
| "apply_outcome (TO_Failed _ retryable) c now s =
     (if retryable then release_claim c now s else finish_claim c now Failed s)"
| "apply_outcome TO_Canceled c now s = finish_claim c now Canceled s"
| "apply_outcome TO_TimedOut c now s = finish_claim c now TimedOut s"

definition final_outcome :: "TaskState \<Rightarrow> 'v TaskOutcome \<Rightarrow> 'v TaskOutcome" where
  "final_outcome state outcome =
     (case state of TimedOut \<Rightarrow> TO_TimedOut | Canceled \<Rightarrow> TO_Canceled | _ \<Rightarrow> outcome)"

definition broker_commit ::
  "u64 \<Rightarrow> LeaseToken \<Rightarrow> 'v TaskOutcome \<Rightarrow> u64 \<Rightarrow> 'v TaskRpcBroker \<Rightarrow> 'v RpcMessage \<times> 'v TaskRpcBroker" where
  "broker_commit request_id lease outcome now b =
     (case claim_from_token lease b of
        Inl _ \<Rightarrow> (RM_Committed request_id False, b)
      | Inr c \<Rightarrow>
          (case apply_outcome outcome c now (br_scheduler b) of
             (Inr task, s) \<Rightarrow>
               (RM_Committed request_id True,
                b\<lparr>br_scheduler := s,
                   br_outcomes := (if is_terminal (t_state task)
                     then AList.update (task_ident (tc_task c)) (final_outcome (t_state task) outcome) (br_outcomes b)
                     else br_outcomes b)\<rparr>)
           | (Inl e, s) \<Rightarrow>
               (if lease_refused e then RM_Committed request_id False else scheduler_error (Some request_id) e,
                b\<lparr>br_scheduler := s\<rparr>)))"

fun is_unsupported_version :: "TaskRpcError \<Rightarrow> bool" where
  "is_unsupported_version (RE_UnsupportedVersion _ _) = True"
| "is_unsupported_version _ = False"

definition broker_handle ::
  "'v broker_env \<Rightarrow> u64 \<Rightarrow> 'v Envelope \<Rightarrow> 'v TaskRpcBroker \<Rightarrow> 'v Envelope \<times> 'v TaskRpcBroker" where
  "broker_handle env now envelope b =
     (let request_id = rpc_request_id (en_message envelope) in
      case Envelope_validate (be_rpc env) envelope of
        Inl e \<Rightarrow> (error_response request_id
            (if is_unsupported_version e then EC_VersionMismatch else EC_InvalidRequest)
            (TaskRpcError_to_string env e), b)
      | Inr _ \<Rightarrow>
          (case (case en_message envelope of
              RM_Hello _ \<Rightarrow> (RM_Ready, b)
            | RM_Claim request_id worker_id lease_ms limit \<Rightarrow> broker_claim env request_id worker_id lease_ms limit now b
            | RM_Renew request_id lease lease_ms \<Rightarrow> broker_renew env request_id lease lease_ms now b
            | RM_Release request_id lease \<Rightarrow> broker_release request_id lease now b
            | RM_Cancel request_id task_id \<Rightarrow> broker_cancel request_id task_id b
            | RM_Commit request_id lease outcome \<Rightarrow> broker_commit request_id lease outcome now b
            | _ \<Rightarrow> (error_message request_id EC_InvalidRequest ''TaskRPC response sent to scheduler'', b)) of
           (reply, b') \<Rightarrow> (Envelope_new reply, b')))"

definition handle_frame ::
  "'v broker_env \<Rightarrow> u64 \<Rightarrow> io_item list \<Rightarrow> 'v TaskRpcBroker \<Rightarrow>
    (TaskRpcError, string \<times> io_item list) result \<times> 'v TaskRpcBroker" where
  "handle_frame env now reader b =
     (case rpc_read_message (be_rpc env) reader of
        Inl e \<Rightarrow> (Inl e, b)
      | Inr (request, rest) \<Rightarrow>
          (case broker_handle env now request b of
             (reply, b') \<Rightarrow> (rbind (rpc_write_message (be_rpc env) reply) (\<lambda>bytes. Inr (bytes, rest)), b')))"

subsection \<open>Sessions\<close>

record TaskRpcSession =
  ss_worker_id :: "string option"

definition session_new :: TaskRpcSession where
  "session_new = \<lparr>ss_worker_id = None\<rparr>"

fun worker_request_matches :: "'v RpcMessage \<Rightarrow> string \<Rightarrow> bool" where
  "worker_request_matches (RM_Claim _ requested _ _) worker_id = (requested = worker_id)"
| "worker_request_matches (RM_Renew _ lease _) worker_id = (lt_lease_owner lease = worker_id)"
| "worker_request_matches (RM_Release _ lease) worker_id = (lt_lease_owner lease = worker_id)"
| "worker_request_matches (RM_Commit _ lease _) worker_id = (lt_lease_owner lease = worker_id)"
| "worker_request_matches _ worker_id = False"

definition session_handle ::
  "'v broker_env \<Rightarrow> u64 \<Rightarrow> 'v Envelope \<Rightarrow> TaskRpcSession \<Rightarrow> 'v TaskRpcBroker \<Rightarrow>
    'v Envelope \<times> TaskRpcSession \<times> 'v TaskRpcBroker" where
  "session_handle env now envelope session b =
     (let request_id = rpc_request_id (en_message envelope) in
      case ss_worker_id session of
        Some owner \<Rightarrow>
          if worker_request_matches (en_message envelope) owner
          then (case broker_handle env now envelope b of (reply, b') \<Rightarrow> (reply, session, b'))
          else (error_response request_id EC_InvalidRequest
                  ''TaskRPC message does not belong to this worker connection'', session, b)
      | None \<Rightarrow>
          (case en_message envelope of
             RM_Hello worker_id \<Rightarrow>
               (let session' = (if Envelope_validate (be_rpc env) envelope = Inr ()
                                then session\<lparr>ss_worker_id := Some worker_id\<rparr> else session) in
                case broker_handle env now envelope b of (reply, b') \<Rightarrow> (reply, session', b'))
           | _ \<Rightarrow> (error_response request_id EC_InvalidRequest ''TaskRPC hello must be the first message'', session, b)))"

definition session_disconnect ::
  "u64 \<Rightarrow> TaskRpcSession \<Rightarrow> 'v TaskRpcBroker \<Rightarrow>
    (SchedulerError, TaskId list) result \<times> TaskRpcSession \<times> 'v TaskRpcBroker" where
  "session_disconnect now session b =
     (case ss_worker_id session of
        None \<Rightarrow> (Inr [], session, b)
      | Some worker_id \<Rightarrow>
          (case disconnect_worker worker_id now b of
             (r, b') \<Rightarrow> (r, session\<lparr>ss_worker_id := None\<rparr>, b')))"

subsection \<open>What a scheduler call leaves alone\<close>

text \<open>Finished tasks stay as they are, and so do the claims that satisfy \<open>P\<close>, with their tasks.\<close>

definition keeps :: "(ActiveClaim \<Rightarrow> bool) \<Rightarrow> 'v Scheduler \<Rightarrow> 'v Scheduler \<Rightarrow> bool" where
  "keeps P s s' \<longleftrightarrow>
     (\<forall>i t. map_of (s_tasks s) i = Some t \<longrightarrow> is_terminal (t_state t) \<longrightarrow> map_of (s_tasks s') i = Some t) \<and>
     (\<forall>i c. map_of (s_claims s) i = Some c \<longrightarrow> P c \<longrightarrow>
        map_of (s_claims s') i = Some c \<and> map_of (s_tasks s') i = map_of (s_tasks s) i)"

named_theorems keeps_intros

lemma keeps_refl [keeps_intros]: "keeps P s s"
  by (simp add: keeps_def)

lemma keeps_trans: "keeps P s s1 \<Longrightarrow> keeps P s1 s2 \<Longrightarrow> keeps P s s2"
  by (simp add: keeps_def)

lemma keeps_mono: "keeps P s s' \<Longrightarrow> (\<And>c. Q c \<Longrightarrow> P c) \<Longrightarrow> keeps Q s s'"
  by (simp add: keeps_def)

lemma keeps_terminal:
  "keeps P s s' \<Longrightarrow> map_of (s_tasks s) i = Some t \<Longrightarrow> is_terminal (t_state t) \<Longrightarrow> map_of (s_tasks s') i = Some t"
  by (simp add: keeps_def)

lemma keeps_moved:
  assumes "map_of (s_tasks s) i = Some t" and "\<not> is_terminal (t_state t)"
    and "\<And>c. map_of (s_claims s) i = Some c \<Longrightarrow> \<not> P c"
  shows "keeps P s (moved i t n s)"
  using assms by (auto simp: keeps_def)

lemma keeps_transition:
  assumes "sched_transition i n s = (r, s')" and "\<And>c. map_of (s_claims s) i = Some c \<Longrightarrow> \<not> P c"
  shows "keeps P s s'"
  using assms keeps_moved [of s i _ P n] terminal_no_successor keeps_refl
  by (cases rule: sched_transition_cases [where s = s and i = i and n = n]) fastforce+

lemma keeps_retry:
  assumes "sched_transition i Retrying s = (Inr t, s1)" and "sched_transition i Queued s1 = (r, s2)"
    and "\<And>c. map_of (s_claims s) i = Some c \<Longrightarrow> \<not> P c"
  shows "keeps P s s2"
proof -
  have "map_of (s_claims s1) i = None"
    using assms(1) by (cases rule: sched_transition_cases [where s = s and i = i and n = Retrying]) auto
  then have "keeps P s1 s2" using keeps_transition [OF assms(2)] by simp
  with keeps_transition [OF assms(1,3)] show ?thesis by (rule keeps_trans)
qed

lemma expired_view_keeps:
  assumes inv: "sched_inv s" and ev: "expired_view now s s'"
  shows "keeps P s s'"
proof -
  have queued: "\<exists>t. map_of (s_tasks s) j = Some t \<and> t_state t = Queued"
    if "j \<in> set (takeWhile (overdue s now) (s_queue s))" for j
    using that sched_invD(4) [OF inv, of j] by (auto dest: set_takeWhileD)
  have "map_of (s_claims s) j = Some c \<Longrightarrow> j \<notin> set (takeWhile (overdue s now) (s_queue s))" for j c
    using sched_invD(7) [OF inv, of j c] queued [of j] by fastforce
  then show ?thesis
    using ev queued by (fastforce simp: keeps_def expired_view_def)
qed

lemma keeps_peek [keeps_intros]:
  assumes "sched_inv s" and "peek_runnable now s = (r, s')"
  shows "keeps P s s'"
  using peek_runnable_spec [OF assms(1), of now] assms expired_view_keeps by fastforce

lemma keeps_claim:
  assumes inv: "sched_inv s" and c: "claim now s = (r, s')"
  shows "keeps P s s'"
  using inv
proof (cases rule: claim_cases [where now = now])
  case (empty s1)
  then show ?thesis using c expired_view_keeps [OF inv] by simp
next
  case (started s1 i rest t)
  have "map_of (s_claims s1) i = None"
    using sched_invD(7) [OF started(2), of i] started(4,7) by fastforce
  then have "keeps P s1 s'" using c started by (auto simp: keeps_def update_conv')
  with expired_view_keeps [OF inv started(1)] show ?thesis by (rule keeps_trans)
qed

lemma keeps_lease_started:
  assumes none: "map_of (s_claims s1) (task_ident t) = None"
    and c: "claim now s = (Inr (Some t), s1)" "claim_with_lease now owner lease_ms s = (r, s')"
    and ok: "validate_lease owner lease_ms = Inr ()" "checked_add now lease_ms = Some until"
  shows "keeps P s1 s'"
proof (cases "checked_add (case map_of (s_generations s1) (task_ident t) of None \<Rightarrow> 0 | Some g \<Rightarrow> g) 1")
  case None
  obtain r2 s2 where s2: "sched_transition (task_ident t) Retrying s1 = (r2, s2)" by (meson surj_pair)
  obtain r3 s3 where s3: "sched_transition (task_ident t) Queued s2 = (r3, s3)" by (meson surj_pair)
  show ?thesis
  proof (cases r2)
    case (Inl e)
    then have "s' = s2" using c ok None s2 by (simp add: claim_with_lease_def Let_def)
    then show ?thesis using keeps_transition [OF s2] none by simp
  next
    case (Inr u)
    then have "s' = s3" using c ok None s2 s3 by (auto simp: claim_with_lease_def Let_def split: sum.splits)
    then show ?thesis using keeps_retry [of "task_ident t" s1 u s2 r3 s3] s2 s3 Inr none by simp
  qed
next
  case (Some g)
  then show ?thesis using c ok none by (auto simp: claim_with_lease_def Let_def keeps_def update_conv')
qed

lemma keeps_lease [keeps_intros]:
  assumes inv: "sched_inv s" and c: "claim_with_lease now owner lease_ms s = (r, s')"
  shows "keeps P s s'"
proof (cases "\<exists>until. validate_lease owner lease_ms = Inr () \<and> checked_add now lease_ms = Some until")
  case False
  then have "s' = s" using c by (auto simp: claim_with_lease_def split: sum.splits option.splits)
  then show ?thesis by (simp add: keeps_refl)
next
  case True
  then obtain until where ok: "validate_lease owner lease_ms = Inr ()" "checked_add now lease_ms = Some until"
    by blast
  obtain r1 s1 where cl: "claim now s = (r1, s1)" by (meson surj_pair)
  note kept = keeps_claim [OF inv cl, of P]
  show ?thesis
  proof (cases "\<exists>t. r1 = Inr (Some t)")
    case True
    then obtain t where t: "claim now s = (Inr (Some t), s1)" using cl by blast
    have "map_of (s_claims s1) (task_ident t) = None" using claim_Some(4,5) [OF inv t] by simp
    from keeps_lease_started [OF this t c ok] kept show ?thesis by (blast intro: keeps_trans)
  next
    case False
    then have "s' = s1" using c cl ok by (auto simp: claim_with_lease_def split: sum.splits option.splits)
    then show ?thesis using kept by simp
  qed
qed

text \<open>Renewing, finishing and releasing touch only a claim of the owner they name.\<close>

lemma keeps_renew [keeps_intros]:
  assumes "renew_claim c now lease_ms s = (r, s')"
  shows "keeps (\<lambda>a. ac_lease_owner a \<noteq> tc_lease_owner c) s s'"
proof (cases "require_live_claim c now s")
  case (Inr a)
  then have a: "map_of (s_claims s) (task_ident (tc_task c)) = Some a" "ac_lease_owner a = tc_lease_owner c"
    by (auto simp: result_simps)
  have "s' = s \<or> (\<exists>until. s' = s\<lparr>s_claims :=
      AList.update (task_ident (tc_task c)) (a\<lparr>ac_lease_until_ms := until\<rparr>) (s_claims s)\<rparr>)"
    using assms Inr by (auto simp: renew_claim_def Let_def split: sum.splits option.splits)
  then show ?thesis using a by (auto simp: keeps_def update_conv')
next
  case (Inl e)
  then have "s' = s" using assms by (auto simp: renew_claim_def Let_def split: sum.splits option.splits)
  then show ?thesis by (simp add: keeps_refl)
qed

lemma live_claim_owner:
  "require_live_claim c now s = Inr a \<Longrightarrow> map_of (s_claims s) (task_ident (tc_task c)) = Some b \<Longrightarrow>
    \<not> ac_lease_owner b \<noteq> tc_lease_owner c"
  by (auto simp: result_simps)

lemma keeps_finish [keeps_intros]:
  assumes "finish_claim c now n s = (r, s')"
  shows "keeps (\<lambda>a. ac_lease_owner a \<noteq> tc_lease_owner c) s s'"
proof (cases "s' = s")
  case False
  then obtain a where a: "require_live_claim c now s = Inr a"
    and t: "sched_transition (task_ident (tc_task c)) n s = (r, s')"
    using assms by (auto simp: finish_claim_def split: if_splits sum.splits)
  show ?thesis by (rule keeps_transition [OF t]) (rule live_claim_owner [OF a])
qed (simp add: keeps_refl)

lemma keeps_release [keeps_intros]:
  assumes r: "release_claim c now s = (r, s')"
  shows "keeps (\<lambda>a. ac_lease_owner a \<noteq> tc_lease_owner c) s s'"
proof (cases "\<exists>a. require_live_claim c now s = Inr a")
  case False
  then have "s' = s" using r by (auto simp: release_claim_def split: sum.splits)
  then show ?thesis by (simp add: keeps_refl)
next
  case True
  let ?i = "task_ident (tc_task c)"
  have own: "\<And>b. map_of (s_claims s) ?i = Some b \<Longrightarrow> \<not> ac_lease_owner b \<noteq> tc_lease_owner c"
    using True live_claim_owner by blast
  note one = keeps_transition [of ?i _ s _ s', OF _ own] and two = keeps_retry [of ?i s _ _ _ s', OF _ _ own]
  show ?thesis
    using True r one two keeps_refl
    by (auto simp: release_claim_def Let_def split: if_splits option.splits prod.splits sum.splits)
qed

lemma keeps_requeue_loop:
  assumes inv: "sched_inv s" and ids: "distinct ids"
    "\<And>j. j \<in> set ids \<Longrightarrow> \<exists>c. map_of (s_claims s) j = Some c \<and> \<not> P c"
    and r: "requeue_claims_loop now ids acc s = (r, s')"
  shows "keeps P s s'"
proof -
  have "set ids \<subseteq> dom (map_of (s_claims s))" using ids(2) by blast
  from requeue_claims_loop_spec [OF inv ids(1) this, of now acc] r obtain done_ids where
    sub: "set done_ids \<subseteq> set ids"
    and claims: "\<forall>j. map_of (s_claims s') j = (if j \<in> set done_ids then None else map_of (s_claims s) j)"
    and tasks: "\<forall>j. j \<notin> set done_ids \<longrightarrow> map_of (s_tasks s') j = map_of (s_tasks s) j"
    by auto
  have "j \<notin> set done_ids" if "map_of (s_claims s) j = Some c" "P c" for j c
    using that sub ids(2) by fastforce
  moreover have "j \<notin> set done_ids" if "map_of (s_tasks s) j = Some t" "is_terminal (t_state t)" for j t
    using that sub ids(2) sched_invD(7) [OF inv, of j] by fastforce
  ultimately show ?thesis using claims tasks by (fastforce simp: keeps_def)
qed

lemma keeps_requeue_filtered:
  assumes inv: "sched_inv s" and no: "\<And>c. Q c \<Longrightarrow> \<not> P c"
    and r: "requeue_claims (sort (map fst (filter (\<lambda>(i, c). Q c) (s_claims s)))) now limit s = (r, s')"
  shows "keeps P s s'"
proof -
  let ?ids = "sort (map fst (filter (\<lambda>(i, c). Q c) (s_claims s)))"
  have dist: "distinct ?ids" using sched_invD(10) [OF inv] by (simp add: distinct_map_filter)
  have in_table: "j \<in> set ?ids \<Longrightarrow> \<exists>c. map_of (s_claims s) j = Some c \<and> \<not> P c" for j
    using sched_invD(10) [OF inv] no by auto
  have "requeue_claims_loop now (take limit ?ids) [] s = (r, s')" using r by (simp add: requeue_claims_def)
  then show ?thesis
    using keeps_requeue_loop [OF inv distinct_take [OF dist]] in_table by (meson in_set_takeD)
qed

lemma keeps_expire [keeps_intros]:
  assumes "sched_inv s" and "requeue_expired now limit s = (r, s')"
  shows "keeps (\<lambda>a. now < ac_lease_until_ms a) s s'"
  using keeps_requeue_filtered [OF assms(1), of "\<lambda>c. ac_lease_until_ms c \<le> now"] assms(2)
  by (simp add: requeue_expired_def not_less)

lemma keeps_disconnect [keeps_intros]:
  assumes "sched_inv s" and "requeue_owner_claims owner now limit s = (r, s')"
  shows "keeps (\<lambda>a. ac_lease_owner a \<noteq> owner) s s'"
  using keeps_requeue_filtered [OF assms(1), of "\<lambda>c. ac_lease_owner c = owner"] assms(2)
  by (auto simp: requeue_owner_claims_def keeps_refl split: sum.splits)

lemma keeps_cancel:
  assumes "cancel i s = (r, s')"
  shows "keeps (\<lambda>_. False) s s'"
  using assms keeps_transition [of i Canceled s r s'] keeps_refl
  by (auto simp: cancel_def split: option.splits if_splits)

lemma keeps_enqueue:
  assumes "sched_inv s" and "enqueue t s = (r, s')"
  shows "keeps P s s'"
proof -
  have "map_of (s_claims s) (task_ident t) = None" if "map_of (s_tasks s) (task_ident t) = None"
    using sched_invD(7) [OF assms(1), of "task_ident t"] that by fastforce
  then show ?thesis
    using assms(2) by (auto simp: enqueue_def Let_def keeps_def update_conv' split: if_splits sum.splits)
qed

subsection \<open>Every handler is a sequence of scheduler calls\<close>

definition kept_run :: "(ActiveClaim \<Rightarrow> bool) \<Rightarrow> 'v Scheduler \<Rightarrow> 'v Scheduler \<Rightarrow> bool" where
  "kept_run P s s' \<longleftrightarrow> sched_step\<^sup>*\<^sup>* s s' \<and> keeps P s s'"

lemma kept_run_refl: "kept_run P s s"
  by (simp add: kept_run_def keeps_refl)

lemma kept_run_trans: "kept_run P s s1 \<Longrightarrow> kept_run P s1 s2 \<Longrightarrow> kept_run P s s2"
  unfolding kept_run_def by (blast intro: rtranclp_trans keeps_trans)

lemma kept_run_mono: "kept_run P s s' \<Longrightarrow> (\<And>c. Q c \<Longrightarrow> P c) \<Longrightarrow> kept_run Q s s'"
  unfolding kept_run_def by (blast intro: keeps_mono)

lemma sched_run_inv: "sched_step\<^sup>*\<^sup>* s s' \<Longrightarrow> sched_inv s \<Longrightarrow> sched_inv s'"
  by (induction rule: rtranclp_induct) (auto intro: sched_step_inv)

lemma kept_run_inv: "kept_run P s s' \<Longrightarrow> sched_inv s \<Longrightarrow> sched_inv s'"
  unfolding kept_run_def by (blast intro: sched_run_inv)

lemma kept_runs:
  "sched_inv s \<Longrightarrow> peek_runnable now s = (r1, s') \<Longrightarrow> kept_run P s s'"
  "sched_inv s \<Longrightarrow> claim_with_lease now owner lease_ms s = (r2, s') \<Longrightarrow> kept_run P s s'"
  "renew_claim c now lease_ms s = (r3, s') \<Longrightarrow> kept_run (\<lambda>a. ac_lease_owner a \<noteq> tc_lease_owner c) s s'"
  "finish_claim c now n s = (r4, s') \<Longrightarrow> kept_run (\<lambda>a. ac_lease_owner a \<noteq> tc_lease_owner c) s s'"
  "release_claim c now s = (r4, s') \<Longrightarrow> kept_run (\<lambda>a. ac_lease_owner a \<noteq> tc_lease_owner c) s s'"
  "sched_inv s \<Longrightarrow> requeue_expired now limit s = (r5, s') \<Longrightarrow> kept_run (\<lambda>a. now < ac_lease_until_ms a) s s'"
  "sched_inv s \<Longrightarrow> requeue_owner_claims owner now limit s = (r5, s') \<Longrightarrow> kept_run (\<lambda>a. ac_lease_owner a \<noteq> owner) s s'"
  "cancel i s = (r4, s') \<Longrightarrow> kept_run (\<lambda>_. False) s s'"
  "sched_inv s \<Longrightarrow> enqueue t s = (r6, s') \<Longrightarrow> kept_run P s s'"
  unfolding kept_run_def
  by (auto intro: sched_step.intros keeps_intros keeps_cancel keeps_enqueue)

lemma claim_loop_run:
  "sched_inv s \<Longrightarrow> broker_claim_loop env rid w ms now n leases s = (m, s') \<Longrightarrow>
    kept_run (\<lambda>a. ac_lease_owner a \<noteq> w) s s'"
proof (induction n arbitrary: leases s)
  case 0
  then show ?case by (simp add: kept_run_refl)
next
  case (Suc n)
  obtain r1 s1 where peek: "peek_runnable now s = (r1, s1)" by (meson surj_pair)
  obtain r2 s2 where lease: "claim_with_lease now w ms s1 = (r2, s2)" by (meson surj_pair)
  have run1: "kept_run (\<lambda>a. ac_lease_owner a \<noteq> w) s s1" using kept_runs(1) [OF Suc.prems(1) peek] .
  have inv1: "sched_inv s1" using kept_run_inv [OF run1 Suc.prems(1)] .
  have run2: "kept_run (\<lambda>a. ac_lease_owner a \<noteq> w) s s2"
    using run1 kept_runs(2) [OF inv1 lease] by (rule kept_run_trans)
  have inv2: "sched_inv s2" using kept_run_inv [OF run2 Suc.prems(1)] .
  show ?case
  proof (cases "s' = s1 \<or> s' = s2")
    case True
    then show ?thesis using run1 run2 by blast
  next
    case False
    then obtain c where c: "r2 = Inr (Some c)"
      and cont: "(\<exists>leases'. broker_claim_loop env rid w ms now n leases' s2 = (m, s')) \<or> s' = snd (release_claim c now s2)"
      using Suc.prems(2) peek lease
      by (auto simp: Let_def split: sum.splits option.splits if_splits)
    have own: "tc_lease_owner c = w" using claim_with_lease_Some(5) [OF inv1] lease c by blast
    from cont have "kept_run (\<lambda>a. ac_lease_owner a \<noteq> w) s2 s'"
      using Suc.IH [OF inv2] kept_runs(5) [of c now s2 _ s'] own by (metis prod.collapse)
    with run2 show ?thesis by (rule kept_run_trans)
  qed
qed

subsection \<open>The broker's invariant\<close>

fun outcome_state :: "'v TaskOutcome \<Rightarrow> TaskState" where
  "outcome_state (TO_Completed _) = Completed"
| "outcome_state TO_Suspended = Suspended"
| "outcome_state (TO_Failed _ _) = Failed"
| "outcome_state TO_Canceled = Canceled"
| "outcome_state TO_TimedOut = TimedOut"

definition broker_inv :: "'v TaskRpcBroker \<Rightarrow> bool" where
  "broker_inv b \<longleftrightarrow> sched_inv (br_scheduler b) \<and>
     (\<forall>i out. map_of (br_outcomes b) i = Some out \<longrightarrow>
        (\<exists>t. map_of (s_tasks (br_scheduler b)) i = Some t \<and> is_terminal (t_state t) \<and> outcome_state out = t_state t))"

definition broker_run :: "(ActiveClaim \<Rightarrow> bool) \<Rightarrow> 'v TaskRpcBroker \<Rightarrow> 'v TaskRpcBroker \<Rightarrow> bool" where
  "broker_run P b b' \<longleftrightarrow> kept_run P (br_scheduler b) (br_scheduler b') \<and> broker_inv b' \<and>
     (\<forall>i out. map_of (br_outcomes b) i = Some out \<longrightarrow> map_of (br_outcomes b') i = Some out)"

lemma broker_inv_sched: "broker_inv b \<Longrightarrow> sched_inv (br_scheduler b)"
  by (simp add: broker_inv_def)

lemma broker_run_refl: "broker_inv b \<Longrightarrow> broker_run P b b"
  by (simp add: broker_run_def kept_run_refl)

lemma broker_run_mono: "broker_run P b b' \<Longrightarrow> (\<And>c. Q c \<Longrightarrow> P c) \<Longrightarrow> broker_run Q b b'"
  unfolding broker_run_def by (blast intro: kept_run_mono)

lemma broker_run_inv: "broker_run P b b' \<Longrightarrow> broker_inv b'"
  by (simp add: broker_run_def)

lemma broker_run_scheduler:
  assumes "broker_inv b" and "kept_run P (br_scheduler b) s'"
  shows "broker_run P b (b\<lparr>br_scheduler := s'\<rparr>)"
  using assms kept_run_inv [OF assms(2)]
  by (fastforce simp: broker_run_def broker_inv_def kept_run_def dest: keeps_terminal)

lemma broker_run_record:
  assumes inv: "broker_inv b" and run: "kept_run P (br_scheduler b) s'"
    and t: "map_of (s_tasks s') i = Some t" "is_terminal (t_state t)" "outcome_state out = t_state t"
    and same: "\<And>o'. map_of (br_outcomes b) i = Some o' \<Longrightarrow> o' = out"
  shows "broker_run P b (b\<lparr>br_scheduler := s', br_outcomes := AList.update i out (br_outcomes b)\<rparr>)"
  using broker_run_scheduler [OF inv run] t same
  by (auto simp: broker_run_def broker_inv_def update_conv')

lemma broker_claim_run:
  assumes "broker_inv b" and "broker_claim env rid w ms limit now b = (m, b')"
  shows "broker_run (\<lambda>a. ac_lease_owner a \<noteq> w \<and> now < ac_lease_until_ms a) b b'"
proof -
  let ?P = "\<lambda>a. ac_lease_owner a \<noteq> w \<and> now < ac_lease_until_ms a"
  note inv = broker_inv_sched [OF assms(1)]
  obtain r s where req: "requeue_expired now (unat limit) (br_scheduler b) = (r, s)" by (meson surj_pair)
  have run1: "kept_run ?P (br_scheduler b) s" by (rule kept_run_mono [OF kept_runs(6) [OF inv req]]) simp
  obtain m' s' where loop: "broker_claim_loop env rid w ms now (unat limit) [] s = (m', s')" by (meson surj_pair)
  have "kept_run ?P s s'"
    by (rule kept_run_mono [OF claim_loop_run [OF kept_run_inv [OF run1 inv] loop]]) simp
  with run1 have run2: "kept_run ?P (br_scheduler b) s'" by (rule kept_run_trans)
  show ?thesis
    using assms(2) req loop broker_run_scheduler [OF assms(1) run1] broker_run_scheduler [OF assms(1) run2]
    by (auto simp: broker_claim_def split: sum.splits)
qed

lemma claim_from_token_Inr:
  "claim_from_token lease b = Inr c \<longleftrightarrow>
     (\<exists>i t. WireTaskId_parse (lt_task_id lease) = Inr i \<and> map_of (s_tasks (br_scheduler b)) i = Some t \<and>
       c = \<lparr>tc_task = t, tc_generation = lt_generation lease, tc_lease_owner = lt_lease_owner lease,
            tc_lease_until_ms = 0\<rparr>)"
  by (auto simp: claim_from_token_def sched_get_def ok_or_def result_simps split: option.splits)

lemma broker_renew_run:
  assumes "broker_inv b" and "broker_renew env rid lease ms now b = (m, b')"
  shows "broker_run (\<lambda>a. ac_lease_owner a \<noteq> lt_lease_owner lease) b b'"
proof (cases "claim_from_token lease b")
  case (Inr c)
  obtain r s where s: "renew_claim c now ms (br_scheduler b) = (r, s)" by (meson surj_pair)
  have "b' = b\<lparr>br_scheduler := s\<rparr>" using assms(2) Inr s by (simp add: broker_renew_def)
  moreover have "tc_lease_owner c = lt_lease_owner lease" using Inr by (auto simp: claim_from_token_Inr)
  ultimately show ?thesis using broker_run_scheduler [OF assms(1)] kept_runs(3) [OF s] by simp
qed (use assms broker_run_refl in \<open>simp add: broker_renew_def\<close>)

lemma broker_release_run:
  assumes "broker_inv b" and "broker_release rid lease now b = (m, b')"
  shows "broker_run (\<lambda>a. ac_lease_owner a \<noteq> lt_lease_owner lease) b b'"
proof (cases "claim_from_token lease b")
  case (Inr c)
  obtain r s where s: "release_claim c now (br_scheduler b) = (r, s)" by (meson surj_pair)
  have "b' = b\<lparr>br_scheduler := s\<rparr>" using assms(2) Inr s by (simp add: broker_release_def)
  moreover have "tc_lease_owner c = lt_lease_owner lease" using Inr by (auto simp: claim_from_token_Inr)
  ultimately show ?thesis using broker_run_scheduler [OF assms(1)] kept_runs(5) [OF s] by simp
qed (use assms broker_run_refl in \<open>simp add: broker_release_def\<close>)

lemma cancel_Inr:
  "cancel i s = (Inr t, s') \<Longrightarrow>
    map_of (s_tasks s') i = Some t \<and> (\<forall>u. map_of (s_tasks s) i = Some u \<longrightarrow> is_terminal (t_state u) \<longrightarrow> u = t)"
  by (cases rule: sched_transition_cases [where s = s and i = i and n = Canceled])
    (auto simp: cancel_def split: option.splits if_splits)

lemma broker_cancel_run:
  assumes inv: "broker_inv b" and c: "broker_cancel rid wid b = (m, b')"
  shows "broker_run (\<lambda>_. False) b b'"
proof (cases "WireTaskId_parse wid")
  case (Inl e)
  then show ?thesis using c broker_run_refl [OF inv] by (simp add: broker_cancel_def)
next
  case (Inr i)
  obtain r s where s: "cancel i (br_scheduler b) = (r, s)" by (meson surj_pair)
  note run = kept_runs(8) [OF s]
  show ?thesis
  proof (cases "\<exists>t. r = Inr t \<and> t_state t = Canceled")
    case True
    then obtain t where t: "cancel i (br_scheduler b) = (Inr t, s)" "t_state t = Canceled" using s by blast
    note ct = cancel_Inr [OF t(1)]
    have "o' = TO_Canceled" if "map_of (br_outcomes b) i = Some o'" for o'
      using that inv ct t(2) by (cases o') (force simp: broker_inv_def)+
    moreover have "b' = b\<lparr>br_scheduler := s, br_outcomes := AList.update i TO_Canceled (br_outcomes b)\<rparr>"
      using c Inr t by (simp add: broker_cancel_def)
    ultimately show ?thesis using broker_run_record [OF inv run, of i t TO_Canceled] ct t(2) by simp
  next
    case False
    then have "b' = b\<lparr>br_scheduler := s\<rparr>"
      using c Inr s by (auto simp: broker_cancel_def split: sum.splits SchedulerError.splits)
    then show ?thesis using broker_run_scheduler [OF inv run] by simp
  qed
qed

lemma sched_transition_Inr:
  "sched_transition i n s = (Inr t', s') \<Longrightarrow>
    map_of (s_tasks s') i = Some t' \<and> t_state t' = n \<and>
    (n \<in> {Queued, Suspended, Retrying} \<or> is_terminal n \<longrightarrow> map_of (s_claims s') i = None)"
  by (cases rule: sched_transition_cases [where s = s and i = i and n = n]) auto

lemma finish_claim_Inr:
  assumes "finish_claim c now n s = (Inr t', s')"
  shows "\<exists>a. require_live_claim c now s = Inr a"
    and "map_of (s_tasks s') (task_ident (tc_task c)) = Some t'" and "t_state t' = n"
    and "map_of (s_claims s') (task_ident (tc_task c)) = None"
  using assms sched_transition_Inr [of "task_ident (tc_task c)" n s t' s']
  by (auto simp: finish_claim_def split: if_splits sum.splits)

lemma release_claim_Inr:
  assumes "release_claim c now s = (Inr t', s')"
  shows "\<exists>a. require_live_claim c now s = Inr a"
    and "map_of (s_tasks s') (task_ident (tc_task c)) = Some t'" and "t_state t' \<in> {Queued, TimedOut}"
    and "map_of (s_claims s') (task_ident (tc_task c)) = None"
  using assms sched_transition_Inr [of "task_ident (tc_task c)" TimedOut s t' s']
    sched_transition_Inr [of "task_ident (tc_task c)" Queued _ t' s']
  by (auto simp: release_claim_def Let_def split: if_splits sum.splits option.splits prod.splits)

lemma apply_outcome_cases:
  assumes "apply_outcome out c now s = r"
  obtains (finish) "finish_claim c now (outcome_state out) s = r" "\<And>m. out \<noteq> TO_Failed m True"
  | (release) m where "out = TO_Failed m True" "release_claim c now s = r"
  using assms by (cases out) (auto split: if_splits)

definition committed_state :: "'v TaskOutcome \<Rightarrow> TaskState set" where
  "committed_state out = (case out of TO_Failed _ True \<Rightarrow> {Queued, TimedOut} | _ \<Rightarrow> {outcome_state out})"

lemma committed_state_final:
  "n \<in> committed_state out \<Longrightarrow> is_terminal n \<Longrightarrow> outcome_state (final_outcome n out) = n"
  by (cases out) (auto simp: committed_state_def final_outcome_def split: bool.splits)

lemma apply_outcome_Inr:
  assumes "apply_outcome out c now s = (Inr t', s')"
  shows "\<exists>a. require_live_claim c now s = Inr a"
    and "map_of (s_tasks s') (task_ident (tc_task c)) = Some t'"
    and "map_of (s_claims s') (task_ident (tc_task c)) = None"
    and "t_state t' \<in> committed_state out"
proof -
  have "(\<exists>a. require_live_claim c now s = Inr a) \<and> map_of (s_tasks s') (task_ident (tc_task c)) = Some t' \<and>
      map_of (s_claims s') (task_ident (tc_task c)) = None \<and> t_state t' \<in> committed_state out"
    using assms
  proof (cases rule: apply_outcome_cases)
    case finish
    have "committed_state out = {outcome_state out}"
      using finish(2) by (cases out) (auto simp: committed_state_def split: bool.splits)
    then show ?thesis using finish_claim_Inr [OF finish(1)] by simp
  next
    case (release m)
    then show ?thesis using release_claim_Inr [OF release(2)] by (simp add: committed_state_def)
  qed
  then show "\<exists>a. require_live_claim c now s = Inr a"
    and "map_of (s_tasks s') (task_ident (tc_task c)) = Some t'"
    and "map_of (s_claims s') (task_ident (tc_task c)) = None"
    and "t_state t' \<in> committed_state out"
    by blast+
qed

lemma sched_transition_Inl: "sched_transition i n s = (Inl e, s') \<Longrightarrow> s' = s"
  by (cases rule: sched_transition_cases [where s = s and i = i and n = n]) auto

lemma retry_Inl:
  assumes "map_of (s_tasks s) i = Some t" and "t_state t \<in> {Running, WaitingIo}"
    and "length (s_queue s) < s_capacity s" and "sched_transition i Retrying s = (Inr u, s1)"
  shows "\<exists>v s2. sched_transition i Queued s1 = (Inr v, s2)"
proof -
  have "s1 = moved i t Retrying s"
    using assms(4) sched_transition_ok [OF assms(1), of Retrying] assms(2) by auto
  then show ?thesis
    using sched_transition_ok [of s1 i "t\<lparr>t_state := Retrying\<rparr>" Queued] assms(3) by simp
qed

text \<open>A commit or release that is refused leaves the scheduler as it was.\<close>

lemma release_claim_Inl:
  assumes inv: "sched_inv s" and r: "release_claim c now s = (Inl e, s')"
  shows "s' = s"
proof (cases "\<exists>a. require_live_claim c now s = Inr a")
  case False
  then show ?thesis using r by (auto simp: release_claim_def split: sum.splits)
next
  case True
  let ?i = "task_ident (tc_task c)"
  obtain t where t: "map_of (s_tasks s) ?i = Some t" "t_state t \<in> {Running, WaitingIo}"
    using True sched_invD(7) [OF inv, of ?i] by (fastforce simp: result_simps)
  show ?thesis
  proof (cases "deadline_reached t now \<or> s_capacity s \<le> length (s_queue s)")
    case True
    then show ?thesis using r t(1) sched_transition_Inl \<open>\<exists>a. require_live_claim c now s = Inr a\<close>
      by (auto simp: release_claim_def Let_def split: if_splits)
  next
    case False
    obtain r1 s1 where s1: "sched_transition ?i Retrying s = (r1, s1)" by (meson surj_pair)
    show ?thesis
    proof (cases r1)
      case (Inl e1)
      then show ?thesis using r t(1) False s1 sched_transition_Inl \<open>\<exists>a. require_live_claim c now s = Inr a\<close>
        by (auto simp: release_claim_def Let_def)
    next
      case (Inr u)
      then show ?thesis
        using retry_Inl [OF t] False s1 r t(1) \<open>\<exists>a. require_live_claim c now s = Inr a\<close>
        by (auto simp: release_claim_def Let_def)
    qed
  qed
qed

lemma refused_unchanged:
  assumes inv: "sched_inv s" and a: "apply_outcome out c now s = (Inl e, s')"
  shows "s' = s"
  using a
proof (cases rule: apply_outcome_cases)
  case finish
  then show ?thesis using sched_transition_Inl by (auto simp: finish_claim_def split: if_splits sum.splits)
next
  case (release m)
  then show ?thesis using release_claim_Inl [OF inv] by blast
qed

lemma claimed_no_outcome:
  assumes "broker_inv b" and "map_of (s_claims (br_scheduler b)) i = Some a"
  shows "map_of (br_outcomes b) i = None"
proof -
  obtain t where t: "map_of (s_tasks (br_scheduler b)) i = Some t" "t_state t \<in> {Running, WaitingIo}"
    using sched_invD(7) [OF broker_inv_sched [OF assms(1)] assms(2)] by blast
  then have "\<not> is_terminal (t_state t)" by auto
  with t(1) assms(1) show ?thesis by (cases "map_of (br_outcomes b) i") (force simp: broker_inv_def)+
qed

lemma broker_commit_run:
  assumes inv: "broker_inv b" and c: "broker_commit rid lease out now b = (m, b')"
  shows "broker_run (\<lambda>a. ac_lease_owner a \<noteq> lt_lease_owner lease) b b'"
proof (cases "claim_from_token lease b")
  case (Inl e)
  then show ?thesis using c broker_run_refl [OF inv] by (simp add: broker_commit_def)
next
  case (Inr cl)
  obtain r s where s: "apply_outcome out cl now (br_scheduler b) = (r, s)" by (meson surj_pair)
  have own: "tc_lease_owner cl = lt_lease_owner lease" using Inr by (auto simp: claim_from_token_Inr)
  have run: "kept_run (\<lambda>a. ac_lease_owner a \<noteq> lt_lease_owner lease) (br_scheduler b) s"
    using s kept_runs(4) [of cl now _ "br_scheduler b" r s] kept_runs(5) [of cl now "br_scheduler b" r s] own
    by (cases out) (auto split: if_splits)
  show ?thesis
  proof (cases "\<exists>t. r = Inr t \<and> is_terminal (t_state t)")
    case True
    then obtain t where t: "apply_outcome out cl now (br_scheduler b) = (Inr t, s)" "is_terminal (t_state t)"
      using s by blast
    let ?i = "task_ident (tc_task cl)"
    obtain a where "map_of (s_claims (br_scheduler b)) ?i = Some a"
      using apply_outcome_Inr(1) [OF t(1)] by (auto simp: result_simps)
    then have "map_of (br_outcomes b) ?i = None" by (rule claimed_no_outcome [OF inv])
    moreover have "b' = b\<lparr>br_scheduler := s,
        br_outcomes := AList.update ?i (final_outcome (t_state t) out) (br_outcomes b)\<rparr>"
      using c Inr t by (simp add: broker_commit_def)
    ultimately show ?thesis
      using broker_run_record [OF inv run apply_outcome_Inr(2) [OF t(1)] t(2) committed_state_final [OF apply_outcome_Inr(4) [OF t(1)] t(2)]] by simp
  next
    case False
    then have "b' = b\<lparr>br_scheduler := s\<rparr>" using c Inr s by (auto simp: broker_commit_def split: sum.splits)
    then show ?thesis using broker_run_scheduler [OF inv run] by simp
  qed
qed

lemma broker_handle_run:
  assumes inv: "broker_inv b" and h: "broker_handle env now e b = (reply, b')"
  shows "broker_run (\<lambda>a. worker_request_matches (en_message e) w \<and> ac_lease_owner a \<noteq> w \<and> now < ac_lease_until_ms a) b b'"
proof (cases "Envelope_validate (be_rpc env) e")
  case (Inl err)
  then show ?thesis using h broker_run_refl [OF inv] by (simp add: broker_handle_def)
next
  case (Inr u)
  show ?thesis
  proof (cases "en_message e")
    case (RM_Claim rid w' ms limit)
    then obtain m where "broker_claim env rid w' ms limit now b = (m, b')"
      using h Inr by (auto simp: broker_handle_def split: prod.splits)
    from broker_claim_run [OF inv this] show ?thesis
      by (rule broker_run_mono) (use RM_Claim in auto)
  next
    case (RM_Renew rid l ms)
    then obtain m where "broker_renew env rid l ms now b = (m, b')"
      using h Inr by (auto simp: broker_handle_def split: prod.splits)
    from broker_renew_run [OF inv this] show ?thesis
      by (rule broker_run_mono) (use RM_Renew in auto)
  next
    case (RM_Release rid l)
    then obtain m where "broker_release rid l now b = (m, b')"
      using h Inr by (auto simp: broker_handle_def split: prod.splits)
    from broker_release_run [OF inv this] show ?thesis
      by (rule broker_run_mono) (use RM_Release in auto)
  next
    case (RM_Cancel rid i)
    then obtain m where "broker_cancel rid i b = (m, b')"
      using h Inr by (auto simp: broker_handle_def split: prod.splits)
    from broker_cancel_run [OF inv this] show ?thesis
      by (rule broker_run_mono) (use RM_Cancel in auto)
  next
    case (RM_Commit rid l out)
    then obtain m where "broker_commit rid l out now b = (m, b')"
      using h Inr by (auto simp: broker_handle_def split: prod.splits)
    from broker_commit_run [OF inv this] show ?thesis
      by (rule broker_run_mono) (use RM_Commit in auto)
  qed (use h Inr broker_run_refl [OF inv] in \<open>auto simp: broker_handle_def\<close>)
qed

subsection \<open>Any interleaving of requests\<close>

inductive broker_step :: "'v broker_env \<Rightarrow> 'v TaskRpcBroker \<Rightarrow> 'v TaskRpcBroker \<Rightarrow> bool" for env where
  enqueue: "broker_enqueue env t b = (r, b') \<Longrightarrow> broker_step env b b'"
| handle: "broker_handle env now e b = (reply, b') \<Longrightarrow> broker_step env b b'"
| expire: "broker_requeue_expired now limit b = (r, b') \<Longrightarrow> broker_step env b b'"
| disconnect: "disconnect_worker w now b = (r, b') \<Longrightarrow> broker_step env b b'"

inductive_cases broker_stepE: "broker_step env b b'"

inductive broker_reachable :: "'v broker_env \<Rightarrow> 'v TaskRpcBroker \<Rightarrow> bool" for env where
  new: "broker_new capacity = Inr b \<Longrightarrow> broker_reachable env b"
| step: "broker_reachable env b \<Longrightarrow> broker_step env b b' \<Longrightarrow> broker_reachable env b'"

lemma disconnect_worker_run:
  assumes "broker_inv b" and "disconnect_worker w now b = (r, b')"
  shows "broker_run (\<lambda>a. ac_lease_owner a \<noteq> w) b b'"
  using assms kept_runs(7) [OF broker_inv_sched [OF assms(1)]] broker_run_scheduler [OF assms(1)]
  by (auto simp: disconnect_worker_def split: prod.splits)

lemma broker_step_run:
  assumes inv: "broker_inv b" and st: "broker_step env b b'"
  shows "broker_run (\<lambda>_. False) b b'"
  using st
proof (rule broker_stepE)
  fix t r
  assume "broker_enqueue env t b = (r, b')"
  then show ?thesis
    using broker_run_refl [OF inv] kept_runs(9) [OF broker_inv_sched [OF inv]] broker_run_scheduler [OF inv]
    by (auto simp: broker_enqueue_def split: sum.splits prod.splits)
next
  fix now e reply
  assume "broker_handle env now e b = (reply, b')"
  from broker_handle_run [OF inv this] show ?thesis by (rule broker_run_mono) simp
next
  fix now limit r
  assume "broker_requeue_expired now limit b = (r, b')"
  then obtain s where s: "requeue_expired now limit (br_scheduler b) = (r, s)" "b' = b\<lparr>br_scheduler := s\<rparr>"
    by (auto simp: broker_requeue_expired_def split: prod.splits)
  have "kept_run (\<lambda>_. False) (br_scheduler b) s"
    by (rule kept_run_mono [OF kept_runs(6) [OF broker_inv_sched [OF inv] s(1)]]) simp
  then show ?thesis using broker_run_scheduler [OF inv] s(2) by simp
next
  fix w now r
  assume "disconnect_worker w now b = (r, b')"
  from disconnect_worker_run [OF inv this] show ?thesis by (rule broker_run_mono) simp
qed

lemma broker_new_inv: "broker_new capacity = Inr b \<Longrightarrow> broker_inv b \<and> sched_reachable (br_scheduler b)"
  by (auto simp: broker_new_def broker_inv_def result_simps intro: Scheduler_new_inv sched_reachable.new)

lemma broker_reachable_inv: "broker_reachable env b \<Longrightarrow> broker_inv b"
  by (induction rule: broker_reachable.induct)
    (auto dest: broker_new_inv broker_step_run intro: broker_run_inv)

lemma sched_run_reachable: "sched_step\<^sup>*\<^sup>* s s' \<Longrightarrow> sched_reachable s \<Longrightarrow> sched_reachable s'"
  by (induction rule: rtranclp_induct) (auto intro: sched_reachable.step)

lemma broker_steps_run:
  assumes "broker_inv b" and "(broker_step env)\<^sup>*\<^sup>* b b'"
  shows "broker_run (\<lambda>_. False) b b'"
  using assms(2)
proof (induction rule: rtranclp_induct)
  case base
  then show ?case by (rule broker_run_refl [OF assms(1)])
next
  case (step b1 b2)
  have "broker_run (\<lambda>_. False) b1 b2" using broker_step_run [OF broker_run_inv [OF step.IH] step.hyps(2)] .
  with step.IH show ?case unfolding broker_run_def by (blast intro: kept_run_trans)
qed

subsection \<open>Lease tokens\<close>

definition token_live :: "'v TaskRpcBroker \<Rightarrow> TaskId \<Rightarrow> LeaseToken \<Rightarrow> u64 \<Rightarrow> bool" where
  "token_live b i token now \<longleftrightarrow>
     WireTaskId_parse (lt_task_id token) = Inr i \<and>
     (\<exists>a. map_of (s_claims (br_scheduler b)) i = Some a \<and> ac_generation a = lt_generation token \<and>
        ac_lease_owner a = lt_lease_owner token \<and> now < ac_lease_until_ms a)"

interpretation tokens: fenced_lease broker_inv "broker_step env"
  "\<lambda>b i. unat (last_generation (br_scheduler b) i)" token_live "\<lambda>token. unat (lt_generation token)" for env :: "'v broker_env"
proof unfold_locales
  fix b :: "'v TaskRpcBroker" and b'
  assume "broker_inv b" and "broker_step env b b'"
  then show "broker_inv b'" using broker_step_run broker_run_inv by blast
next
  fix b :: "'v TaskRpcBroker" and b' i
  assume "broker_inv b" and "broker_step env b b'"
  then have "sched_step\<^sup>*\<^sup>* (br_scheduler b) (br_scheduler b')" and "sched_inv (br_scheduler b)"
    using broker_step_run broker_inv_sched by (fastforce simp: broker_run_def kept_run_def)+
  then show "unat (last_generation (br_scheduler b) i) \<le> unat (last_generation (br_scheduler b') i)"
    by (rule claims.gen_mono_run)
next
  fix b :: "'v TaskRpcBroker" and i token now
  assume "broker_inv b" and "token_live b i token now"
  then show "unat (lt_generation token) = unat (last_generation (br_scheduler b) i)"
    using sched_invD(8) [OF broker_inv_sched, of b i] by (auto simp: token_live_def last_generation_def)
qed

lemma dead_token:
  assumes inv: "broker_inv b" and dead: "\<And>i. \<not> token_live b i token now"
    and c: "claim_from_token token b = Inr c"
  shows "require_live_claim c now (br_scheduler b) = Inl SE_LeaseLost"
proof -
  obtain i t where i: "WireTaskId_parse (lt_task_id token) = Inr i" "map_of (s_tasks (br_scheduler b)) i = Some t"
    and c': "c = \<lparr>tc_task = t, tc_generation = lt_generation token, tc_lease_owner = lt_lease_owner token,
            tc_lease_until_ms = 0\<rparr>"
    using c by (auto simp: claim_from_token_Inr)
  have "task_ident t = i" using sched_invD(5) [OF broker_inv_sched [OF inv] i(2)] .
  then have "\<nexists>a. require_live_claim c now (br_scheduler b) = Inr a"
    using dead [of i] i(1) by (auto simp: result_simps c' token_live_def)
  then show ?thesis using require_live_claim_Inl by (cases "require_live_claim c now (br_scheduler b)") auto
qed

text \<open>A token that is not live is refused everywhere, without any effect.\<close>

lemma dead_token_refused:
  assumes inv: "broker_inv b" and dead: "\<And>i. \<not> token_live b i token now"
  shows "broker_commit rid token out now b = (RM_Committed rid False, b)"
    and "broker_release rid token now b = (RM_Released rid False, b)"
    and "\<exists>m. broker_renew env rid token ms now b = (m, b) \<and> (\<forall>l. m \<noteq> RM_Renewed rid (Some l))"
proof -
  have lost: "require_live_claim c now (br_scheduler b) = Inl SE_LeaseLost" if "claim_from_token token b = Inr c" for c
    by (rule dead_token [OF inv dead that])
  have refused: "apply_outcome out c now (br_scheduler b) = (Inl SE_LeaseLost, br_scheduler b)"
    if "claim_from_token token b = Inr c" for c
    using lost [OF that] by (cases out) (auto simp: finish_claim_def release_claim_def)
  show "broker_commit rid token out now b = (RM_Committed rid False, b)"
    using refused by (cases "claim_from_token token b") (auto simp: broker_commit_def)
  show "broker_release rid token now b = (RM_Released rid False, b)"
    using lost by (cases "claim_from_token token b") (auto simp: broker_release_def release_claim_def)
  show "\<exists>m. broker_renew env rid token ms now b = (m, b) \<and> (\<forall>l. m \<noteq> RM_Renewed rid (Some l))"
    using lost
    by (cases "claim_from_token token b")
      (auto simp: broker_renew_def renew_claim_def scheduler_error_def error_message_def
        split: sum.splits option.splits SchedulerError.splits)
qed

lemma terminal_token_dead:
  assumes "broker_inv b" and "map_of (s_tasks (br_scheduler b)) i = Some t" and "is_terminal (t_state t)"
  shows "\<not> token_live b i token now"
  using assms sched_invD(7) [OF broker_inv_sched [OF assms(1)], of i] by (fastforce simp: token_live_def)

lemma token_live_unique: "token_live b i token now \<Longrightarrow> WireTaskId_parse (lt_task_id token) = Inr j \<Longrightarrow> i = j"
  by (simp add: token_live_def)

end
