(* ===== verification/Broker_Outcomes.thy ===== *)
theory Broker_Outcomes
  imports Task_Broker
begin

text \<open>
  What the TaskRPC broker promises about results: an outcome is final, a commit counts only under a live lease, and a
  worker whose lease was handed on can change nothing. A concrete run of one task over two workers - enqueue, claim,
  expiry, second claim, commit - provides the states at which the properties are instantiated.
\<close>

subsection \<open>A concrete run of the broker\<close>

definition demo_benv :: "unit broker_env" where
  "demo_benv = \<lparr>be_rpc = \<lparr>rpc_codec = \<lparr>jc_to_vec = \<lambda>_. Some [], jc_from_slice = \<lambda>_. None\<rparr>,
     rpc_value_to_vec = \<lambda>_. Some ''null''\<rparr>, be_cause = [], be_debug = id\<rparr>"

definition demo_broker :: "unit Scheduler \<Rightarrow> unit TaskOutcome list \<Rightarrow> unit TaskRpcBroker" where
  "demo_broker s outs = \<lparr>br_scheduler = s, br_outcomes = map (Pair 42) outs\<rparr>"

definition demo_token :: "u64 \<Rightarrow> string \<Rightarrow> LeaseToken" where
  "demo_token g w = \<lparr>lt_task_id = WireTaskId_new 42, lt_generation = g, lt_lease_owner = w\<rparr>"

lemmas rpc_eval = Envelope_validate_def Envelope_new_def RpcMessage_validate_iff token_ok_def worker_ok_def
  is_worker_byte_def lease_ok_def descriptor_ok_def TASK_RPC_VERSION_def

lemma demo_codec_simps [simp]:
  "jc_to_vec (rpc_codec (be_rpc demo_benv)) e = Some []" "rpc_value_to_vec (be_rpc demo_benv) v = Some ''null''"
  by (simp_all add: demo_benv_def)

lemma demo_descriptor:
  "TaskDescriptor_from_task (be_rpc demo_benv) (demo_run st n) =
    (if n = 0 then Inl RE_InvalidTaskAttempt
     else Inr \<lparr>td_trigger = WT_Agent ''planner'', td_input = (), td_attempt = n, td_deadline_ms = Some 100\<rparr>)"
  by (simp add: TaskDescriptor_from_task_def TaskDescriptor_validate_def WireTaskTrigger_validate_def rpc_limits
      demo_run_def Let_def ok_or_def)

lemma demo_encode:
  assumes "length leases \<le> 64" and "\<forall>l \<in> set leases. lease_ok (be_rpc demo_benv) l"
  shows "encode_message (be_rpc demo_benv) (Envelope_new (RM_Claimed rid leases)) = Inr []"
proof -
  have "Envelope_validate (be_rpc demo_benv) (Envelope_new (RM_Claimed rid leases)) = Inr ()"
    using assms RpcMessage_validate_iff [of "be_rpc demo_benv" "RM_Claimed rid leases"]
    by (simp add: Envelope_validate_def Envelope_new_def del: RpcMessage_validate.simps)
  then show ?thesis by (simp add: encode_message_def ok_or_def MAX_TASK_RPC_FRAME_def)
qed

definition demo_lease_msg :: "u64 \<Rightarrow> string \<Rightarrow> u64 \<Rightarrow> u32 \<Rightarrow> unit TaskLease" where
  "demo_lease_msg g w until n = \<lparr>tl_token = demo_token g w,
     tl_task = \<lparr>td_trigger = WT_Agent ''planner'', td_input = (), td_attempt = n, td_deadline_ms = Some 100\<rparr>,
     tl_lease_until_ms = until\<rparr>"

lemma demo_worker_ok: "worker_ok ''w1''" "worker_ok ''w2''" "worker_ok (replicate 128 (CHR ''w''))"
proof -
  have "is_worker_byte (CHR ''w'')" "is_worker_byte (CHR ''1'')" "is_worker_byte (CHR ''2'')" by code_simp+
  then show "worker_ok ''w1''" "worker_ok ''w2''" "worker_ok (replicate 128 (CHR ''w''))"
    by (simp_all add: worker_ok_def)
qed

lemma demo_lease_ok:
  "g \<noteq> 0 \<Longrightarrow> n \<noteq> 0 \<Longrightarrow> until \<noteq> 0 \<Longrightarrow> worker_ok w \<Longrightarrow> lease_ok (be_rpc demo_benv) (demo_lease_msg g w until n)"
  by (simp add: demo_lease_msg_def lease_ok_def token_ok_def descriptor_ok_def demo_token_def word_ge_1)

lemma demo_preview:
  "n \<noteq> 0 \<Longrightarrow> preview_wire_lease (be_rpc demo_benv) (demo_run st n) w = Inr (demo_lease_msg (- 1) w (- 1) n)"
  by (simp add: preview_wire_lease_def demo_descriptor demo_lease_msg_def demo_token_def)
    (simp add: demo_run_def demo_meta_def)

lemma demo_wire_lease:
  "n \<noteq> 0 \<Longrightarrow> wire_lease (be_rpc demo_benv) (demo_claim g w until n) = Inr (demo_lease_msg g w until n)"
  by (simp add: wire_lease_def demo_claim_def demo_descriptor demo_lease_msg_def demo_token_def)
    (simp add: demo_run_def demo_meta_def)

lemma demo_broker_enqueue:
  "broker_enqueue demo_benv demo_task (demo_broker (demo_sched [] [] [] []) []) =
    (Inr (), demo_broker (demo_sched [42] [demo_run Queued 0] [] []) [])"
proof -
  have q: "Task_transition demo_task Queued = Inr (demo_run Queued 0)"
    by (simp add: Task_transition_def demo_defs)
  have b: "begin_attempt (demo_run Queued 0) = Inr (demo_run Running 1)"
    by (simp add: begin_attempt_def Task_transition_def demo_run_def saturating_add_def)
  have "deliverable (be_rpc demo_benv) demo_task = Inr ()"
    using demo_encode [of "[demo_lease_msg (- 1) (replicate 128 (CHR ''w'')) (- 1) 1]"]
      demo_lease_ok [OF _ _ _ demo_worker_ok(3), of "- 1" 1 "- 1"]
    by (simp add: deliverable_def q b demo_descriptor demo_preview MAX_WORKER_ID_BYTES_def)
  then show ?thesis by (simp add: broker_enqueue_def demo_broker_def demo_enqueue)
qed

lemma demo_claim_loop:
  assumes "peek_runnable now s = (Inr (Some (demo_run Queued n)), s)"
    and "claim_with_lease now w ms s = (Inr (Some (demo_claim g w until (n + 1))), s')"
    and "n = 0 \<or> n = 1" "g \<noteq> 0" "until \<noteq> 0" "worker_ok w"
  shows "broker_claim_loop demo_benv rid w ms now 1 [] s = (RM_Claimed rid [demo_lease_msg g w until (n + 1)], s')"
proof -
  have n: "n + 1 \<noteq> 0" "saturating_add n 1 = n + 1"
    using assms(3) by (auto simp: saturating_add_def)
  have b: "begin_attempt (demo_run Queued n) = Inr (demo_run Running (n + 1))"
    by (simp add: begin_attempt_def Task_transition_def demo_run_def n(2))
  show ?thesis
    using assms demo_encode [of "[demo_lease_msg (- 1) w (- 1) (n + 1)]" rid] demo_lease_ok [of "- 1" "n + 1" "- 1" w] n(1)
    by (simp add: b demo_preview demo_wire_lease Let_def)
qed

abbreviation demo_request :: "'v RpcMessage \<Rightarrow> 'v Envelope" where
  "demo_request m \<equiv> \<lparr>en_version = 1, en_message = m\<rparr>"

lemma demo_valid:
  "Envelope_validate (be_rpc demo_benv) (demo_request (RM_Claim 1 ''w1'' 50 1)) = Inr ()"
  "Envelope_validate (be_rpc demo_benv) (demo_request (RM_Claim 1 ''w2'' 20 1)) = Inr ()"
  "Envelope_validate (be_rpc demo_benv) (demo_request (RM_Commit 2 (demo_token 2 ''w2'') (TO_Completed ()))) = Inr ()"
  using demo_worker_ok
  by (simp_all add: Envelope_validate_def RpcMessage_validate_iff TASK_RPC_VERSION_def token_ok_def demo_token_def
      word_ge_1 del: RpcMessage_validate.simps)

lemma demo_handle_claim:
  "broker_handle demo_benv 10 (demo_request (RM_Claim 1 ''w1'' 50 1))
     (demo_broker (demo_sched [42] [demo_run Queued 0] [] []) []) =
   (Envelope_new (RM_Claimed 1 [demo_lease_msg 1 ''w1'' 60 1]),
    demo_broker (demo_sched [] [demo_run Running 1] [demo_active 1 ''w1'' 60] [1]) [])"
proof -
  have peek: "peek_runnable 10 (demo_sched [42] [demo_run Queued 0] [] []) =
      (Inr (Some (demo_run Queued 0)), demo_sched [42] [demo_run Queued 0] [] [])"
    by (simp add: sched_eval demo_defs)
  have "requeue_expired 10 1 (demo_sched [42] [demo_run Queued 0] [] []) =
      (Inr [], demo_sched [42] [demo_run Queued 0] [] [])"
    by (simp add: sched_eval demo_defs)
  then show ?thesis
    using demo_claim_loop [OF peek, of "''w1''" 50 1 60] demo_lease demo_worker_ok
    by (simp add: broker_handle_def demo_valid broker_claim_def demo_broker_def del: broker_claim_loop.simps)
qed

lemma demo_handle_reclaim:
  "broker_handle demo_benv 70 (demo_request (RM_Claim 1 ''w2'' 20 1))
     (demo_broker (demo_sched [42] [demo_run Queued 1] [] [1]) []) =
   (Envelope_new (RM_Claimed 1 [demo_lease_msg 2 ''w2'' 90 2]),
    demo_broker (demo_sched [] [demo_run Running 2] [demo_active 2 ''w2'' 90] [2]) [])"
proof -
  have peek: "peek_runnable 70 (demo_sched [42] [demo_run Queued 1] [] [1]) =
      (Inr (Some (demo_run Queued 1)), demo_sched [42] [demo_run Queued 1] [] [1])"
    by (simp add: sched_eval demo_defs)
  have "requeue_expired 70 1 (demo_sched [42] [demo_run Queued 1] [] [1]) =
      (Inr [], demo_sched [42] [demo_run Queued 1] [] [1])"
    by (simp add: sched_eval demo_defs)
  then show ?thesis
    using demo_claim_loop [OF peek, of "''w2''" 20 2 90] demo_lease_again demo_worker_ok
    by (simp add: broker_handle_def demo_valid broker_claim_def demo_broker_def del: broker_claim_loop.simps)
qed

lemma demo_parse: "WireTaskId_parse (lt_task_id (demo_token g w)) = Inr 42"
proof -
  have "WireTaskId_validate (WireTaskId_new 42) = Inr ()" by (simp add: WireTaskId_validate_iff)
  moreover have "hex_parse 0 (WireTaskId_new 42) = Some 42"
    by (simp add: WireTaskId_new_def TaskId_to_string_def hex_parse_hex_fixed)
  ultimately show ?thesis by (simp add: WireTaskId_parse_def demo_token_def)
qed

lemma demo_commit:
  "broker_commit 2 (demo_token 2 ''w2'') (TO_Completed ()) 80
     (demo_broker (demo_sched [] [demo_run Running 2] [demo_active 2 ''w2'' 90] [2]) []) =
   (RM_Committed 2 True, demo_broker (demo_sched [] [demo_run Completed 2] [] [2]) [TO_Completed ()])"
  by (simp add: broker_commit_def claim_from_token_def demo_parse sched_get_def ok_or_def demo_broker_def)
    (simp add: demo_defs demo_token_def finish_claim_def sched_eval final_outcome_def)

lemma demo_queued: "broker_reachable demo_benv (demo_broker (demo_sched [42] [demo_run Queued 0] [] []) [])"
proof -
  have "broker_reachable demo_benv (demo_broker (demo_sched [] [] [] []) [])"
    by (rule broker_reachable.new [of 2]) (simp add: broker_new_def Scheduler_new_def demo_sched_def demo_broker_def)
  then show ?thesis by (rule broker_reachable.step [OF _ broker_step.enqueue [OF demo_broker_enqueue]])
qed

lemma demo_claimed:
  "broker_reachable demo_benv (demo_broker (demo_sched [] [demo_run Running 1] [demo_active 1 ''w1'' 60] [1]) [])"
  by (rule broker_reachable.step [OF demo_queued broker_step.handle [OF demo_handle_claim]])

lemma demo_recovered:
  "broker_step demo_benv (demo_broker (demo_sched [] [demo_run Running 1] [demo_active 1 ''w1'' 60] [1]) [])
     (demo_broker (demo_sched [42] [demo_run Queued 1] [] [1]) [])"
  by (rule broker_step.expire [of 60 5]) (simp add: broker_requeue_expired_def demo_broker_def demo_requeue)

lemma demo_reclaimed_run:
  "(broker_step demo_benv)\<^sup>*\<^sup>* (demo_broker (demo_sched [] [demo_run Running 1] [demo_active 1 ''w1'' 60] [1]) [])
     (demo_broker (demo_sched [] [demo_run Running 2] [demo_active 2 ''w2'' 90] [2]) [])"
  using demo_recovered broker_step.handle [OF demo_handle_reclaim]
  by (meson converse_rtranclp_into_rtranclp rtranclp.rtrancl_refl)

lemma demo_reclaimed:
  "broker_reachable demo_benv (demo_broker (demo_sched [] [demo_run Running 2] [demo_active 2 ''w2'' 90] [2]) [])"
  by (rule broker_reachable.step [OF broker_reachable.step [OF demo_claimed demo_recovered]
        broker_step.handle [OF demo_handle_reclaim]])

subsection \<open>Properties\<close>

text \<open>
  C3. An outcome is final. Whenever the broker has recorded an outcome for a task, the task is in the terminal state
  of that outcome; and whatever requests, recoveries and disconnects follow, the outcome and the task stay exactly as
  they are, and every further commit for the task is answered negatively and changes nothing.
\<close>

theorem outcome_final:
  assumes "broker_reachable env b" and "broker_outcome b i = Some out" and "(broker_step env)\<^sup>*\<^sup>* b b'"
  shows "broker_outcome b' i = Some out \<and>
    (\<exists>t. broker_task b i = Some t \<and> broker_task b' i = Some t \<and> is_terminal (t_state t) \<and>
      t_state t = outcome_state out) \<and>
    (\<forall>lease rid out' now. WireTaskId_parse (lt_task_id lease) = Inr i \<longrightarrow>
      broker_commit rid lease out' now b' = (RM_Committed rid False, b'))"
proof (intro conjI allI impI)
  have inv: "broker_inv b" using assms(1) by (rule broker_reachable_inv)
  note run = broker_steps_run [OF inv assms(3)]
  obtain t where t: "map_of (s_tasks (br_scheduler b)) i = Some t" "is_terminal (t_state t)" "outcome_state out = t_state t"
    using inv assms(2) by (fastforce simp: broker_inv_def broker_outcome_def)
  have t': "map_of (s_tasks (br_scheduler b')) i = Some t"
    using run t(1,2) by (auto simp: broker_run_def kept_run_def dest: keeps_terminal)
  show "broker_outcome b' i = Some out"
    using run assms(2) by (simp add: broker_run_def broker_outcome_def)
  show "\<exists>t. broker_task b i = Some t \<and> broker_task b' i = Some t \<and> is_terminal (t_state t) \<and> t_state t = outcome_state out"
    using t t' by (simp add: broker_task_def sched_get_def)
  show "broker_commit rid lease out' now b' = (RM_Committed rid False, b')"
    if "WireTaskId_parse (lt_task_id lease) = Inr i" for lease rid out' now
  proof (rule dead_token_refused(1) [OF broker_run_inv [OF run]])
    show "\<not> token_live b' j lease now" for j
      using terminal_token_dead [OF broker_run_inv [OF run] t' t(2)] token_live_unique [OF _ that] by blast
  qed
qed

theorem outcome_final_witness:
  "let b = demo_broker (demo_sched [] [demo_run Completed 2] [] [2]) [TO_Completed ()] in
   broker_commit 9 (demo_token 2 ''w2'') TO_TimedOut 85 b = (RM_Committed 9 False, b) \<and> broker_outcome b 42 = Some (TO_Completed ())"
proof -
  let ?b = "demo_broker (demo_sched [] [demo_run Completed 2] [] [2]) [TO_Completed ()]"
  have "broker_handle demo_benv 80 (demo_request (RM_Commit 2 (demo_token 2 ''w2'') (TO_Completed ())))
      (demo_broker (demo_sched [] [demo_run Running 2] [demo_active 2 ''w2'' 90] [2]) []) =
      (Envelope_new (RM_Committed 2 True), ?b)"
    by (simp add: broker_handle_def demo_valid demo_commit)
  from broker_reachable.step [OF demo_reclaimed broker_step.handle [OF this]]
  have r: "broker_reachable demo_benv ?b" .
  have o: "broker_outcome ?b 42 = Some (TO_Completed ())" by (simp add: broker_outcome_def demo_broker_def)
  from outcome_final [OF r o rtranclp.rtrancl_refl] demo_parse o show ?thesis by simp
qed

text \<open>
  C11. A commit counts only under a live lease. If a commit is accepted, the task was claimed at that moment by the
  worker and under the generation of the token, with time left; the lease is gone afterwards, the task is in the state
  that the reported outcome asks for (back in the queue, or timed out, after a retryable failure), and the outcome is
  recorded exactly if that state is terminal. If it is not accepted, the broker has not changed at all.
\<close>

theorem commit_needs_live_lease:
  assumes "broker_reachable env b" and "broker_commit rid lease out now b = (reply, b')"
  shows "if reply = RM_Committed rid True
    then \<exists>i t. token_live b i lease now \<and> map_of (s_claims (br_scheduler b')) i = None \<and>
      broker_task b' i = Some t \<and> t_state t \<in> committed_state out \<and>
      broker_outcome b' i = (if is_terminal (t_state t) then Some (final_outcome (t_state t) out) else None)
    else b' = b"
proof -
  have inv: "broker_inv b" using assms(1) by (rule broker_reachable_inv)
  show ?thesis
  proof (cases "claim_from_token lease b")
    case (Inl e)
    then show ?thesis using assms(2) by (auto simp: broker_commit_def)
  next
    case (Inr c)
    then obtain i t0 where i: "WireTaskId_parse (lt_task_id lease) = Inr i" "map_of (s_tasks (br_scheduler b)) i = Some t0"
      and c: "c = \<lparr>tc_task = t0, tc_generation = lt_generation lease, tc_lease_owner = lt_lease_owner lease,
            tc_lease_until_ms = 0\<rparr>"
      by (auto simp: claim_from_token_Inr)
    have ident: "task_ident (tc_task c) = i" using sched_invD(5) [OF broker_inv_sched [OF inv] i(2)] by (simp add: c)
    obtain r s where s: "apply_outcome out c now (br_scheduler b) = (r, s)" by (meson surj_pair)
    show ?thesis
    proof (cases r)
      case (Inr t)
      note ok = apply_outcome_Inr [OF s [unfolded Inr]]
      obtain a where a: "map_of (s_claims (br_scheduler b)) i = Some a"
        using ok(1) ident by (auto simp: result_simps)
      have live: "token_live b i lease now"
        using ok(1) i(1) ident by (auto simp: token_live_def result_simps c)
      have reply: "reply = RM_Committed rid True" "br_scheduler b' = s"
        "broker_outcome b' i = (if is_terminal (t_state t) then Some (final_outcome (t_state t) out) else None)"
        using assms(2) \<open>claim_from_token lease b = Inr c\<close> s Inr ident claimed_no_outcome [OF inv a]
        by (auto simp: broker_commit_def broker_outcome_def update_conv')
      have "\<exists>i t. token_live b i lease now \<and> map_of (s_claims (br_scheduler b')) i = None \<and>
          broker_task b' i = Some t \<and> t_state t \<in> committed_state out \<and>
          broker_outcome b' i = (if is_terminal (t_state t) then Some (final_outcome (t_state t) out) else None)"
        by (intro exI [of _ i] exI [of _ t])
          (use live ok(2-4) ident reply(2,3) in \<open>simp add: broker_task_def sched_get_def\<close>)
      then show ?thesis using reply(1) by (simp only: if_True simp_thms)
    next
      case (Inl e)
      have "s = br_scheduler b" by (rule refused_unchanged [OF broker_inv_sched [OF inv] s [unfolded Inl]])
      then have "b' = b \<and> reply \<noteq> RM_Committed rid True"
        using assms(2) \<open>claim_from_token lease b = Inr c\<close> s Inl
        by (auto simp: broker_commit_def scheduler_error_def error_message_def split: if_split_asm)
      then show ?thesis by (simp only: if_False simp_thms)
    qed
  qed
qed

theorem commit_needs_live_lease_witness:
  "token_live (demo_broker (demo_sched [] [demo_run Running 2] [demo_active 2 ''w2'' 90] [2]) []) 42 (demo_token 2 ''w2'') 80"
proof -
  from commit_needs_live_lease [OF demo_reclaimed demo_commit] obtain i where
    "token_live (demo_broker (demo_sched [] [demo_run Running 2] [demo_active 2 ''w2'' 90] [2]) []) i (demo_token 2 ''w2'') 80"
    by auto
  then show ?thesis using token_live_unique [OF _ demo_parse] by blast
qed

text \<open>
  C7. A worker that has lost its lease cannot do harm. Once a task has been handed out again under a later generation,
  in every later state of the broker the old token is refused by commit, release and renew alike, and none of them
  changes anything, so a late result is discarded however requests interleave.
\<close>

theorem late_worker_fenced:
  assumes "broker_reachable env b" and "token_live b i old now"
    and "(broker_step env)\<^sup>*\<^sup>* b b'" and "token_live b' i new later" and "lt_generation new \<noteq> lt_generation old"
    and "(broker_step env)\<^sup>*\<^sup>* b' b''"
  shows "broker_commit rid old out t b'' = (RM_Committed rid False, b'') \<and>
    broker_release rid old t b'' = (RM_Released rid False, b'') \<and>
    (\<exists>m. broker_renew env rid old ms t b'' = (m, b'') \<and> (\<forall>l. m \<noteq> RM_Renewed rid (Some l)))"
proof -
  have inv: "broker_inv b" using assms(1) by (rule broker_reachable_inv)
  have inv'': "broker_inv b''"
    using tokens.valid_run [OF assms(6)] tokens.valid_run [OF assms(3) inv] by blast
  have gen: "unat (lt_generation new) \<noteq> unat (lt_generation old)" using assms(5) by (auto dest: unsigned_word_eqI)
  have "\<not> token_live b'' i old t" by (rule tokens.superseded_never_honoured [OF inv assms(2,3,4) gen assms(6)])
  moreover have "WireTaskId_parse (lt_task_id old) = Inr i" using assms(2) by (simp add: token_live_def)
  ultimately have "\<And>j. \<not> token_live b'' j old t" using token_live_unique by blast
  note dead = dead_token_refused [OF inv'' this]
  then show ?thesis by blast
qed

theorem late_worker_fenced_witness:
  "let b = demo_broker (demo_sched [] [demo_run Running 2] [demo_active 2 ''w2'' 90] [2]) [] in
   broker_commit 3 (demo_token 1 ''w1'') (TO_Completed ()) 75 b = (RM_Committed 3 False, b)"
proof -
  have old: "token_live (demo_broker (demo_sched [] [demo_run Running 1] [demo_active 1 ''w1'' 60] [1]) []) 42
      (demo_token 1 ''w1'') 20"
    by (simp add: token_live_def demo_parse) (simp add: demo_broker_def demo_sched_def demo_token_def)
  have new: "token_live (demo_broker (demo_sched [] [demo_run Running 2] [demo_active 2 ''w2'' 90] [2]) []) 42
      (demo_token 2 ''w2'') 75"
    by (simp add: token_live_def demo_parse) (simp add: demo_broker_def demo_sched_def demo_token_def)
  show ?thesis
    using late_worker_fenced [OF demo_claimed old demo_reclaimed_run new _ rtranclp.rtrancl_refl]
    by (simp add: demo_token_def)
qed

end
