(* ===== verification/Task_Sessions.thy ===== *)
theory Task_Sessions
  imports Broker_Outcomes
begin

text \<open>
  Connections of workers to the broker (\<^verbatim>\<open>crates/tysel-runtime/src/task_rpc.rs\<close>): a session only touches the
  leases of the worker that opened it, and the Unix-socket server, a transition system over interleaved connections,
  never serves one worker on two connections at once.
\<close>

lemma session_handle_run:
  assumes inv: "broker_inv b" and h: "session_handle env now e session b = (reply, session', b')"
  shows "broker_run (\<lambda>a. ss_worker_id session \<noteq> Some (ac_lease_owner a) \<and> now < ac_lease_until_ms a) b b'"
    and "ss_worker_id session = None \<Longrightarrow> b' = b"
    and "ss_worker_id session \<noteq> None \<Longrightarrow> session' = session"
proof -
  show "ss_worker_id session \<noteq> None \<Longrightarrow> session' = session"
    using h by (auto simp: session_handle_def Let_def split: if_split_asm prod.split_asm)
  show unbound: "ss_worker_id session = None \<Longrightarrow> b' = b"
    using h by (auto simp: session_handle_def Let_def broker_handle_def split: RpcMessage.split_asm sum.split_asm)
  show "broker_run (\<lambda>a. ss_worker_id session \<noteq> Some (ac_lease_owner a) \<and> now < ac_lease_until_ms a) b b'"
  proof (cases "\<exists>w. ss_worker_id session = Some w \<and> worker_request_matches (en_message e) w")
    case True
    then obtain w where w: "ss_worker_id session = Some w" "worker_request_matches (en_message e) w" by blast
    obtain reply' where "broker_handle env now e b = (reply', b')"
      using h w by (auto simp: session_handle_def Let_def split: prod.split_asm)
    from broker_handle_run [OF inv this, of w] show ?thesis by (rule broker_run_mono) (use w in auto)
  next
    case False
    then have "b' = b"
      using h unbound by (cases "ss_worker_id session") (auto simp: session_handle_def Let_def)
    then show ?thesis using broker_run_refl [OF inv] by simp
  qed
qed

text \<open>
  C38. Workers cannot interfere with each other. Whatever message arrives on a connection, a claim that belongs to
  another worker and whose lease has not run out stays as it is, together with its task; the same holds when the
  connection is closed, even for leases that have run out. A connection that has not introduced itself changes nothing
  in the broker, and one that has keeps its identity.
\<close>

theorem session_confined:
  assumes "broker_reachable env b" and "session_handle env now e session b = (reply, session', b')"
    and "session_disconnect now session b = (r, session'', b'')"
    and "map_of (s_claims (br_scheduler b)) i = Some a" and "ss_worker_id session \<noteq> Some (ac_lease_owner a)"
  shows "(now < ac_lease_until_ms a \<longrightarrow>
      map_of (s_claims (br_scheduler b')) i = Some a \<and> broker_task b' i = broker_task b i) \<and>
    map_of (s_claims (br_scheduler b'')) i = Some a \<and> broker_task b'' i = broker_task b i \<and>
    (if ss_worker_id session = None then b' = b \<and> b'' = b else session' = session)"
proof -
  have inv: "broker_inv b" using assms(1) by (rule broker_reachable_inv)
  note h = session_handle_run [OF inv assms(2)]
  have d: "broker_run (\<lambda>a. ss_worker_id session \<noteq> Some (ac_lease_owner a)) b b''"
  proof (cases "ss_worker_id session")
    case None
    then show ?thesis using assms(3) broker_run_refl [OF inv] by (simp add: session_disconnect_def)
  next
    case (Some w)
    then obtain r' where "disconnect_worker w now b = (r', b'')"
      using assms(3) by (auto simp: session_disconnect_def split: prod.split_asm)
    from disconnect_worker_run [OF inv this] show ?thesis by (rule broker_run_mono) (use Some in auto)
  qed
  have "ss_worker_id session = None \<Longrightarrow> b'' = b" using assms(3) by (simp add: session_disconnect_def)
  then show ?thesis
    using h d assms(4,5) by (auto simp: broker_run_def kept_run_def keeps_def broker_task_def sched_get_def)
qed

theorem session_confined_witness:
  "let b = demo_broker (demo_sched [] [demo_run Running 1] [demo_active 1 ''w1'' 60] [1]) [];
       b' = snd (snd (session_handle demo_benv 30 (demo_request (RM_Claim 1 ''w2'' 20 1)) \<lparr>ss_worker_id = Some ''w2''\<rparr> b)) in
   map_of (s_claims (br_scheduler b')) 42 = Some (demo_active 1 ''w1'' 60)"
proof -
  let ?b = "demo_broker (demo_sched [] [demo_run Running 1] [demo_active 1 ''w1'' 60] [1]) []"
  obtain reply session' b' where h: "session_handle demo_benv 30 (demo_request (RM_Claim 1 ''w2'' 20 1))
      \<lparr>ss_worker_id = Some ''w2''\<rparr> ?b = (reply, session', b')" by (metis prod.collapse)
  obtain r session'' b'' where d: "session_disconnect 30 \<lparr>ss_worker_id = Some ''w2''\<rparr> ?b = (r, session'', b'')"
    by (metis prod.collapse)
  have "map_of (s_claims (br_scheduler ?b)) 42 = Some (demo_active 1 ''w1'' 60)"
    by (simp add: demo_broker_def demo_sched_def)
  from session_confined [OF demo_claimed h d this] h show ?thesis by simp
qed

subsection \<open>The server: one connection per worker\<close>

text \<open>
  \<open>serve_task_rpc_connection\<close> runs once per connection, concurrently with the others. What it shares is the broker and
  the set of connected workers, each behind its own lock; between two lock sections any other connection may move. A
  connection is therefore a small machine whose steps are the lock sections: register the name of a greeting, answer
  the request, hand the claims back, and give the name free.
\<close>

datatype 'v conn_phase =
    Reading
  | Answering "'v Envelope" bool
  | Leaving "string option"

record 'v connection =
  cn_session :: TaskRpcSession
  cn_phase :: "'v conn_phase"

record 'v rpc_server =
  sv_broker :: "'v TaskRpcBroker"
  sv_active :: "string set"
  sv_conns :: "nat \<Rightarrow> 'v connection option"

definition registering :: "'v Envelope \<Rightarrow> TaskRpcSession \<Rightarrow> string option" where
  "registering request session =
     (case (en_message request, ss_worker_id session) of (RM_Hello worker_id, None) \<Rightarrow> Some worker_id | _ \<Rightarrow> None)"

definition server_register :: "nat \<Rightarrow> 'v connection \<Rightarrow> 'v Envelope \<Rightarrow> 'v rpc_server \<Rightarrow> 'v rpc_server" where
  "server_register k c request sv =
     (case registering request (cn_session c) of
        Some worker_id \<Rightarrow>
          sv\<lparr>sv_active := insert worker_id (sv_active sv),
             sv_conns := (sv_conns sv)(k \<mapsto> c\<lparr>cn_phase := Answering request (worker_id \<in> sv_active sv)\<rparr>)\<rparr>
      | None \<Rightarrow> sv\<lparr>sv_conns := (sv_conns sv)(k \<mapsto> c\<lparr>cn_phase := Answering request False\<rparr>)\<rparr>)"

definition server_answer ::
  "'v broker_env \<Rightarrow> u64 \<Rightarrow> nat \<Rightarrow> 'v connection \<Rightarrow> 'v Envelope \<Rightarrow> bool \<Rightarrow> 'v rpc_server \<Rightarrow> 'v Envelope \<times> 'v rpc_server" where
  "server_answer env now k c request duplicate_worker sv =
     (if duplicate_worker
      then (error_response None EC_InvalidRequest ''TaskRPC worker id is already connected'',
            sv\<lparr>sv_conns := (sv_conns sv)(k \<mapsto> c\<lparr>cn_phase := Reading\<rparr>)\<rparr>)
      else
        (case session_handle env now request (cn_session c) (sv_broker sv) of
           (reply, session, b) \<Rightarrow>
             (reply, sv\<lparr>sv_broker := b, sv_conns := (sv_conns sv)(k \<mapsto> \<lparr>cn_session = session, cn_phase = Reading\<rparr>)\<rparr>)))"

definition server_leave :: "u64 \<Rightarrow> nat \<Rightarrow> 'v connection \<Rightarrow> 'v rpc_server \<Rightarrow> 'v rpc_server" where
  "server_leave now k c sv =
     (case session_disconnect now (cn_session c) (sv_broker sv) of
        (_, session, b) \<Rightarrow>
          sv\<lparr>sv_broker := b,
             sv_conns := (sv_conns sv)(k \<mapsto> \<lparr>cn_session = session, cn_phase = Leaving (ss_worker_id (cn_session c))\<rparr>)\<rparr>)"

definition server_forget :: "nat \<Rightarrow> string option \<Rightarrow> 'v rpc_server \<Rightarrow> 'v rpc_server" where
  "server_forget k worker_id sv =
     sv\<lparr>sv_active := (case worker_id of None \<Rightarrow> sv_active sv | Some w \<Rightarrow> sv_active sv - {w}),
        sv_conns := (sv_conns sv)(k := None)\<rparr>"

inductive server_step :: "'v broker_env \<Rightarrow> 'v rpc_server \<Rightarrow> 'v rpc_server \<Rightarrow> bool" for env where
  accept: "sv_conns sv k = None \<Longrightarrow>
    server_step env sv (sv\<lparr>sv_conns := (sv_conns sv)(k \<mapsto> \<lparr>cn_session = session_new, cn_phase = Reading\<rparr>)\<rparr>)"
| read_request: "sv_conns sv k = Some c \<Longrightarrow> cn_phase c = Reading \<Longrightarrow> Envelope_validate (be_rpc env) request = Inr () \<Longrightarrow>
    server_step env sv (server_register k c request sv)"
| answer: "sv_conns sv k = Some c \<Longrightarrow> cn_phase c = Answering request dup \<Longrightarrow>
    server_answer env now k c request dup sv = (reply, sv') \<Longrightarrow> server_step env sv sv'"
| leave: "sv_conns sv k = Some c \<Longrightarrow> cn_phase c = Reading \<Longrightarrow> server_step env sv (server_leave now k c sv)"
| forget: "sv_conns sv k = Some c \<Longrightarrow> cn_phase c = Leaving w \<Longrightarrow> server_step env sv (server_forget k w sv)"
| application: "broker_step env (sv_broker sv) b' \<Longrightarrow> server_step env sv (sv\<lparr>sv_broker := b'\<rparr>)"

inductive server_reachable :: "'v broker_env \<Rightarrow> 'v rpc_server \<Rightarrow> bool" for env where
  start: "broker_reachable env b \<Longrightarrow> server_reachable env \<lparr>sv_broker = b, sv_active = {}, sv_conns = \<lambda>_. None\<rparr>"
| step: "server_reachable env sv \<Longrightarrow> server_step env sv sv' \<Longrightarrow> server_reachable env sv'"

text \<open>The name a connection holds in the set of connected workers.\<close>

definition holds :: "'v connection \<Rightarrow> string option" where
  "holds c =
     (case cn_phase c of
        Answering request False \<Rightarrow>
          (case ss_worker_id (cn_session c) of Some w \<Rightarrow> Some w | None \<Rightarrow> registering request (cn_session c))
      | Leaving w \<Rightarrow> w
      | _ \<Rightarrow> ss_worker_id (cn_session c))"

definition server_inv :: "'v broker_env \<Rightarrow> 'v rpc_server \<Rightarrow> bool" where
  "server_inv env sv \<longleftrightarrow>
     (\<forall>k c w. sv_conns sv k = Some c \<longrightarrow> holds c = Some w \<longrightarrow> w \<in> sv_active sv) \<and>
     (\<forall>k c k' c' w. sv_conns sv k = Some c \<longrightarrow> sv_conns sv k' = Some c' \<longrightarrow> holds c = Some w \<longrightarrow> holds c' = Some w \<longrightarrow> k = k') \<and>
     (\<forall>k c request dup. sv_conns sv k = Some c \<longrightarrow> cn_phase c = Answering request dup \<longrightarrow>
        Envelope_validate (be_rpc env) request = Inr () \<and> (dup \<longrightarrow> ss_worker_id (cn_session c) = None)) \<and>
     (\<forall>k c w. sv_conns sv k = Some c \<longrightarrow> cn_phase c = Leaving w \<longrightarrow> ss_worker_id (cn_session c) = None)"

definition hold_at :: "'v connection option \<Rightarrow> string option" where
  "hold_at oc = (case oc of None \<Rightarrow> None | Some c \<Rightarrow> holds c)"

definition phase_ok :: "'v broker_env \<Rightarrow> 'v connection \<Rightarrow> bool" where
  "phase_ok env c =
     (case cn_phase c of
        Reading \<Rightarrow> True
      | Answering request dup \<Rightarrow>
          Envelope_validate (be_rpc env) request = Inr () \<and> (dup \<longrightarrow> ss_worker_id (cn_session c) = None)
      | Leaving _ \<Rightarrow> ss_worker_id (cn_session c) = None)"

lemma server_inv_iff:
  "server_inv env sv \<longleftrightarrow>
     (\<forall>k w. hold_at (sv_conns sv k) = Some w \<longrightarrow> w \<in> sv_active sv) \<and>
     (\<forall>k k' w. hold_at (sv_conns sv k) = Some w \<longrightarrow> hold_at (sv_conns sv k') = Some w \<longrightarrow> k = k') \<and>
     (\<forall>k c. sv_conns sv k = Some c \<longrightarrow> phase_ok env c)"
proof -
  have phase: "phase_ok env c \<longleftrightarrow>
      (\<forall>request dup. cn_phase c = Answering request dup \<longrightarrow>
        Envelope_validate (be_rpc env) request = Inr () \<and> (dup \<longrightarrow> ss_worker_id (cn_session c) = None)) \<and>
      (\<forall>w. cn_phase c = Leaving w \<longrightarrow> ss_worker_id (cn_session c) = None)" for c
    by (cases "cn_phase c") (auto simp: phase_ok_def)
  have hold: "hold_at oc = Some w \<longleftrightarrow> (\<exists>c. oc = Some c \<and> holds c = Some w)" for oc :: "'a connection option" and w
    by (cases oc) (auto simp: hold_at_def)
  show ?thesis unfolding server_inv_def hold phase by blast
qed

lemma server_inv_update:
  assumes inv: "server_inv env sv" and conns: "sv_conns sv' = (sv_conns sv)(k := oc)"
    and new: "\<And>w. hold_at oc = Some w \<Longrightarrow> (hold_at (sv_conns sv k) = Some w \<or> w \<notin> sv_active sv) \<and> w \<in> sv_active sv'"
    and active: "\<And>w. w \<in> sv_active sv \<Longrightarrow> hold_at (sv_conns sv k) \<noteq> Some w \<Longrightarrow> w \<in> sv_active sv'"
    and phase: "\<And>c. oc = Some c \<Longrightarrow> phase_ok env c"
  shows "server_inv env sv'"
proof -
  have held: "hold_at (sv_conns sv j) = Some w \<Longrightarrow> w \<in> sv_active sv"
    and unique: "hold_at (sv_conns sv j) = Some w \<Longrightarrow> hold_at (sv_conns sv j') = Some w \<Longrightarrow> j = j'" for j j' w
    using inv by (auto simp: server_inv_iff)
  have other: "hold_at (sv_conns sv' j) = hold_at (sv_conns sv j)" if "j \<noteq> k" for j using that by (simp add: conns)
  have mine: "hold_at (sv_conns sv' k) = hold_at oc" by (simp add: conns)
  show ?thesis
    unfolding server_inv_iff
  proof (intro conjI allI impI)
    fix j w
    assume j: "hold_at (sv_conns sv' j) = Some w"
    show "w \<in> sv_active sv'"
    proof (cases "j = k")
      case True
      then show ?thesis using new j mine by simp
    next
      case False
      then have "hold_at (sv_conns sv j) = Some w" using j other by simp
      then show ?thesis using active [OF held] unique [of j w k] False by blast
    qed
  next
    fix j j' w
    assume j: "hold_at (sv_conns sv' j) = Some w" and j': "hold_at (sv_conns sv' j') = Some w"
    have no: False if "i \<noteq> k" "hold_at (sv_conns sv i) = Some w" "hold_at oc = Some w" for i
      using new [OF that(3)] held [OF that(2)] unique [OF that(2), of k] that(1) by blast
    show "j = j'"
    proof (cases "j = k"; cases "j' = k")
      assume "j = k" "j' \<noteq> k"
      then show ?thesis using no [of j'] j j' other mine by simp
    next
      assume "j \<noteq> k" "j' = k"
      then show ?thesis using no [of j] j j' other mine by simp
    next
      assume "j \<noteq> k" "j' \<noteq> k"
      then show ?thesis using unique j j' other by simp
    qed simp
  next
    fix j c
    assume "sv_conns sv' j = Some c"
    then show "phase_ok env c"
      using inv phase by (cases "j = k") (auto simp: conns server_inv_iff)
  qed
qed

lemma server_inv_same_hold:
  assumes inv: "server_inv env sv" and conns: "sv_conns sv' = (sv_conns sv)(k \<mapsto> c')"
    and same: "sv_active sv' = sv_active sv" "hold_at (Some c') = hold_at (sv_conns sv k)" and phase: "phase_ok env c'"
  shows "server_inv env sv'"
proof (rule server_inv_update [OF inv conns])
  show "(hold_at (sv_conns sv k) = Some w \<or> w \<notin> sv_active sv) \<and> w \<in> sv_active sv'" if "hold_at (Some c') = Some w" for w
    using that inv unfolding same by (auto simp: server_inv_iff)
qed (use same phase in auto)

lemma registered_session:
  assumes "Envelope_validate (be_rpc env) request = Inr ()"
    and "session_handle env now request session b = (reply, session', b')"
  shows "ss_worker_id session' = (case ss_worker_id session of Some w \<Rightarrow> Some w | None \<Rightarrow> registering request session)"
  using assms
  by (auto simp: session_handle_def registering_def Let_def split: option.splits RpcMessage.splits prod.splits if_splits)

lemma server_step_inv:
  assumes inv: "server_inv env sv" and st: "server_step env sv sv'"
  shows "server_inv env sv'"
  using st
proof (cases rule: server_step.cases)
  case (accept k)
  then show ?thesis
    by (intro server_inv_update [OF inv, where k = k]) (auto simp: hold_at_def holds_def phase_ok_def session_new_def)
next
  case (read_request k c request)
  have p: "phase_ok env c" using inv read_request(2) by (simp add: server_inv_iff)
  show ?thesis
  proof (cases "registering request (cn_session c)")
    case None
    then show ?thesis using read_request
      by (intro server_inv_same_hold [OF inv, where k = k and c' = "c\<lparr>cn_phase := Answering request False\<rparr>"])
        (auto simp: server_register_def hold_at_def holds_def phase_ok_def split: option.split)
  next
    case (Some w)
    then have none: "ss_worker_id (cn_session c) = None"
      by (auto simp: registering_def split: RpcMessage.splits option.splits)
    show ?thesis using read_request Some none
      by (intro server_inv_update [OF inv, where k = k
            and oc = "Some (c\<lparr>cn_phase := Answering request (w \<in> sv_active sv)\<rparr>)"])
        (auto simp: server_register_def hold_at_def holds_def phase_ok_def split: bool.splits)
  qed
next
  case (answer k c request dup now reply)
  have p: "phase_ok env c" using inv answer(1) by (simp add: server_inv_iff)
  show ?thesis
  proof (cases dup)
    case True
    then show ?thesis using answer p
      by (intro server_inv_update [OF inv, where k = k and oc = "Some (c\<lparr>cn_phase := Reading\<rparr>)"])
        (auto simp: server_answer_def hold_at_def holds_def phase_ok_def)
  next
    case False
    obtain reply' session b where h: "session_handle env now request (cn_session c) (sv_broker sv) = (reply', session, b)"
      by (metis prod.collapse)
    have valid: "Envelope_validate (be_rpc env) request = Inr ()" using p answer(2) by (simp add: phase_ok_def)
    note w = registered_session [OF valid h]
    have same: "hold_at (Some \<lparr>cn_session = session, cn_phase = Reading\<rparr>) = hold_at (sv_conns sv k)"
      using answer(1,2) False by (simp add: hold_at_def holds_def w)
    show ?thesis using answer False h
      by (intro server_inv_same_hold [OF inv _ _ same]) (auto simp: server_answer_def phase_ok_def)
  qed
next
  case (leave k c now)
  obtain r session b where d: "session_disconnect now (cn_session c) (sv_broker sv) = (r, session, b)"
    by (metis prod.collapse)
  have none: "ss_worker_id session = None"
    using d by (auto simp: session_disconnect_def split: option.splits prod.splits)
  have same: "hold_at (Some \<lparr>cn_session = session, cn_phase = Leaving (ss_worker_id (cn_session c))\<rparr>) = hold_at (sv_conns sv k)"
    using leave by (simp add: hold_at_def holds_def)
  show ?thesis using leave d none
    by (intro server_inv_same_hold [OF inv _ _ same]) (auto simp: server_leave_def phase_ok_def)
next
  case (forget k c w)
  then show ?thesis
    by (intro server_inv_update [OF inv, where k = k and oc = None])
      (auto simp: server_forget_def hold_at_def holds_def split: option.splits)
next
  case (application b')
  then show ?thesis using inv by (simp add: server_inv_def)
qed

lemma session_handle_step:
  "session_handle env now e session b = (reply, session', b') \<Longrightarrow> b' = b \<or> broker_step env b b'"
  by (auto simp: session_handle_def Let_def intro: broker_step.handle
      split: option.split_asm if_split_asm prod.split_asm RpcMessage.split_asm)

lemma session_disconnect_step:
  "session_disconnect now session b = (r, session', b') \<Longrightarrow> b' = b \<or> broker_step env b b'"
  by (auto simp: session_disconnect_def intro: broker_step.disconnect split: option.split_asm prod.split_asm)

lemma server_step_broker:
  assumes "server_step env sv sv'"
  shows "sv_broker sv' = sv_broker sv \<or> broker_step env (sv_broker sv) (sv_broker sv')"
  using assms
proof (cases rule: server_step.cases)
  case (read_request k c request)
  then show ?thesis by (auto simp: server_register_def split: option.split)
next
  case (answer k c request dup now reply)
  then show ?thesis
    using session_handle_step by (auto simp: server_answer_def split: if_split_asm prod.split_asm) blast
next
  case (leave k c now)
  then show ?thesis
    using session_disconnect_step by (auto simp: server_leave_def split: prod.split) blast
qed (auto simp: server_forget_def)

lemma server_reachable_facts: "server_reachable env sv \<Longrightarrow> server_inv env sv \<and> broker_reachable env (sv_broker sv)"
proof (induction rule: server_reachable.induct)
  case (start b)
  then show ?case by (simp add: server_inv_def)
next
  case (step sv sv')
  then show ?case
    using server_step_inv server_step_broker broker_reachable.step by metis
qed

text \<open>
  C10. A worker has one connection. However the lock sections of the connections interleave, two connections that have
  introduced themselves under the same name are the same connection, the name is in the set of connected workers, and
  the broker behind them is in a state that broker requests alone can reach, so that all that is proved of the broker
  holds of the server.
\<close>

theorem one_connection_per_worker:
  assumes "server_reachable env sv" and "sv_conns sv k = Some c" and "sv_conns sv k' = Some c'"
    and "ss_worker_id (cn_session c) = Some w" and "ss_worker_id (cn_session c') = Some w"
  shows "k = k' \<and> w \<in> sv_active sv \<and> broker_reachable env (sv_broker sv)"
proof -
  have inv: "server_inv env sv" and reach: "broker_reachable env (sv_broker sv)"
    using server_reachable_facts [OF assms(1)] by auto
  have hold: "hold_at (Some x) = Some w" if "sv_conns sv j = Some x" "ss_worker_id (cn_session x) = Some w" for j x
  proof -
    have "phase_ok env x" using inv that(1) by (auto simp: server_inv_iff)
    then show ?thesis using that(2)
      by (auto simp: phase_ok_def hold_at_def holds_def split: conn_phase.splits bool.splits)
  qed
  have "hold_at (sv_conns sv k) = Some w" "hold_at (sv_conns sv k') = Some w"
    using hold [OF assms(2,4)] hold [OF assms(3,5)] assms(2,3) by simp_all
  then show ?thesis using inv reach by (auto simp: server_inv_iff)
qed

theorem one_connection_per_worker_witness:
  "\<exists>sv :: unit rpc_server. \<exists>c. server_reachable demo_benv sv \<and> sv_conns sv 7 = Some c \<and>
    ss_worker_id (cn_session c) = Some ''w1'' \<and> ''w1'' \<in> sv_active sv"
proof -
  let ?b = "demo_broker (demo_sched [42] [demo_run Queued 0] [] []) []"
  let ?hello = "demo_request (RM_Hello ''w1'') :: unit Envelope"
  let ?c0 = "\<lparr>cn_session = session_new, cn_phase = Reading\<rparr> :: unit connection"
  let ?c1 = "?c0\<lparr>cn_phase := Answering ?hello False\<rparr>"
  let ?c2 = "\<lparr>cn_session = \<lparr>ss_worker_id = Some ''w1''\<rparr>, cn_phase = Reading\<rparr> :: unit connection"
  let ?sv = "\<lambda>act c. \<lparr>sv_broker = ?b, sv_active = act, sv_conns = [7 \<mapsto> c]\<rparr>"
  have valid: "Envelope_validate (be_rpc demo_benv) ?hello = Inr ()"
    using demo_worker_ok
    by (simp add: Envelope_validate_def RpcMessage_validate_iff TASK_RPC_VERSION_def del: RpcMessage_validate.simps)
  have "server_reachable demo_benv (?sv {} ?c0)"
    using server_reachable.step [OF server_reachable.start [OF demo_queued] server_step.accept [of _ 7]] by simp
  then have "server_reachable demo_benv (server_register 7 ?c0 ?hello (?sv {} ?c0))"
    by (rule server_reachable.step) (rule server_step.read_request, use valid in simp_all)
  then have r: "server_reachable demo_benv (?sv {''w1''} ?c1)"
    by (simp add: server_register_def registering_def session_new_def)
  have "server_answer demo_benv 10 7 ?c1 ?hello False (?sv {''w1''} ?c1) = (Envelope_new RM_Ready, ?sv {''w1''} ?c2)"
    by (simp add: server_answer_def session_handle_def session_new_def broker_handle_def valid)
  then have r2: "server_reachable demo_benv (?sv {''w1''} ?c2)"
    by (intro server_reachable.step [OF r]) (rule server_step.answer [where k = 7], auto)
  from one_connection_per_worker [OF r2, of 7 ?c2 7 ?c2 "''w1''"] r2 show ?thesis by fastforce
qed

end
