(* ===== verification/Broker_Replies.thy ===== *)
theory Broker_Replies
  imports Broker_Outcomes
begin

text \<open>
  The replies of the TaskRPC broker obey the protocol they are sent over: lengths of the error texts, leases in claim
  and renewal replies, and the errors each handler can report.
\<close>

subsection \<open>Replies obey the protocol\<close>

text \<open>The text of a library's error is short, and no encoding reaches the size of the address space.\<close>

definition texts_short :: "'v broker_env \<Rightarrow> bool" where
  "texts_short env \<longleftrightarrow> length (be_cause env) \<le> 4000 \<and>
     (\<forall>m bs. jc_to_vec (rpc_codec (be_rpc env)) m = Some bs \<longrightarrow> length bs < 2 ^ 64) \<and>
     (\<forall>v bs. rpc_value_to_vec (be_rpc env) v = Some bs \<longrightarrow> length bs < 2 ^ 64)"

lemma nat_text_length: "n < 2 ^ 64 \<Longrightarrow> length (nat_to_string n) \<le> 20"
  using nat_to_string_length [of n 19] by simp

lemma word_text_length: "LENGTH('a::len) \<le> 64 \<Longrightarrow> length (nat_to_string (unat (w :: 'a word))) \<le> 20"
proof -
  assume "LENGTH('a) \<le> 64"
  then have "(2 :: nat) ^ LENGTH('a) \<le> 2 ^ 64" by (rule power_increasing) simp
  then show ?thesis using unat_less_2p [of w] by (intro nat_text_length) linarith
qed

fun error_sized :: "TaskRpcError \<Rightarrow> bool" where
  "error_sized (RE_FrameTooLarge n) = (n < 2 ^ 64)"
| "error_sized (RE_TooManyLeases n) = (n < 2 ^ 64)"
| "error_sized (RE_TaskInputTooLarge n) = (n < 2 ^ 64)"
| "error_sized (RE_ResultTooLarge n) = (n < 2 ^ 64)"
| "error_sized (RE_InvalidTaskId _) = False"
| "error_sized _ = True"

lemma limit_texts:
  "length (nat_to_string MAX_TASK_RPC_FRAME) \<le> 20" "length (nat_to_string MAX_WORKER_ID_BYTES) \<le> 20"
  "length (nat_to_string MAX_TASK_TRIGGER_BYTES) \<le> 20" "length (nat_to_string MAX_TASK_INPUT_BYTES) \<le> 20"
  "length (nat_to_string MAX_ERROR_BYTES) \<le> 20" "length (nat_to_string MAX_RESULT_BYTES) \<le> 20"
  "length (nat_to_string MAX_LEASE_OWNER_BYTES) \<le> 20"
  by (rule nat_text_length, simp add: rpc_limits MAX_LEASE_OWNER_BYTES_def)+

lemma owner_alphabet_length: "length owner_alphabet \<le> 100"
  by (simp add: owner_alphabet_def quoted_def)

lemma error_text_short:
  assumes "texts_short env" and "error_sized e"
  shows "length (TaskRpcError_to_string env e) \<le> 4096"
proof -
  have cause: "length (be_cause env) \<le> 4000" using assms(1) by (simp add: texts_short_def)
  note words = word_text_length [where 'a = 16] word_text_length [where 'a = 64]
  show ?thesis
  proof (cases e)
    case (RE_UnsupportedVersion found supported)
    then show ?thesis using words(1) [of found] words(1) [of supported] by simp
  next
    case (RE_InvalidClaimLimit limit)
    then show ?thesis using words(1) [of limit] words(1) [of MAX_CLAIM_BATCH] by simp
  next
    case (RE_TooManyLeases n)
    then show ?thesis using nat_text_length [of n] words(1) [of MAX_CLAIM_BATCH] assms(2) by simp
  next
    case RE_InvalidLeaseDuration
    then show ?thesis using words(2) [of RPC_MAX_LEASE_MS] by simp
  next
    case (RE_FrameTooLarge n)
    then show ?thesis using nat_text_length [of n] limit_texts assms(2) by simp
  next
    case (RE_TaskInputTooLarge n)
    then show ?thesis using nat_text_length [of n] limit_texts assms(2) by simp
  next
    case (RE_ResultTooLarge n)
    then show ?thesis using nat_text_length [of n] limit_texts assms(2) by simp
  qed (use assms(2) cause limit_texts owner_alphabet_length in simp_all)
qed

lemma TaskId_text_length: "length (TaskId_to_string i) = 32"
  by (simp add: TaskId_to_string_def)

lemma state_text_length: "length (TaskState_debug st) \<le> 9"
  by (cases st) simp_all

fun scheduler_error_sized :: "SchedulerError \<Rightarrow> bool" where
  "scheduler_error_sized (SE_Full _) = False"
| "scheduler_error_sized _ = True"

lemma scheduler_text_short: "scheduler_error_sized e \<Longrightarrow> length (SchedulerError_to_string e) \<le> 4096"
proof (cases e)
  case (SE_InvalidTransition t)
  then show ?thesis
    using state_text_length [of "tte_from t"] state_text_length [of "tte_to t"]
    by (simp add: TaskTransitionError_to_string_def TaskId_text_length)
next
  case (SE_InvalidClaimOutcome st)
  then show ?thesis using state_text_length [of st] by simp
next
  case SE_InvalidLeaseDuration
  then show ?thesis using word_text_length [of MAX_LEASE_MS] by simp
qed (use limit_texts owner_alphabet_length in \<open>simp_all add: TaskId_text_length\<close>)

lemma scheduler_error_ok:
  "scheduler_error_sized e \<Longrightarrow>
    rpc_message_ok env (scheduler_error rid e) \<and> rpc_request_id (scheduler_error rid e :: 'v RpcMessage) = rid"
  for env :: "'v rpc_env"
  by (simp add: scheduler_error_def error_message_def scheduler_text_short)

lemma descriptor_sized:
  assumes "texts_short env" and "TaskDescriptor_from_task (be_rpc env) t = Inl e"
  shows "error_sized e"
proof -
  have trigger: "error_sized e'" if "WireTaskTrigger_validate w = Inl e'" for w e'
  proof -
    have "trigger_total n fs = Inl e' \<Longrightarrow> error_sized e'" for n fs
      by (induction n fs rule: trigger_total.induct) (auto split: if_split_asm)
    then show ?thesis using that by (auto simp: WireTaskTrigger_validate_def result_simps split: if_split_asm)
  qed
  show ?thesis
    using assms trigger
    by (auto simp: TaskDescriptor_from_task_def TaskDescriptor_validate_def texts_short_def result_simps Let_def ok_or_def
        split: if_split_asm option.split_asm)
qed

lemma encode_sized:
  assumes "texts_short env" and "rpc_message_ok (be_rpc env) m"
    and "encode_message (be_rpc env) (Envelope_new m) = Inl e"
  shows "error_sized e"
proof -
  have "Envelope_validate (be_rpc env) (Envelope_new m) = Inr ()"
    using assms(2) by (simp add: Envelope_validate_def Envelope_new_def RpcMessage_validate_iff)
  then show ?thesis
    using assms(1,3) by (auto simp: encode_message_def texts_short_def ok_or_def split: if_split_asm option.split_asm)
qed

lemma wire_leases_ok:
  "preview_wire_lease env t w = Inr l \<Longrightarrow> worker_ok w \<Longrightarrow> lease_ok env l"
  "wire_lease env c = Inr l \<Longrightarrow> worker_ok (tc_lease_owner c) \<Longrightarrow> 0 < tc_generation c \<Longrightarrow> 0 < tc_lease_until_ms c \<Longrightarrow>
    lease_ok env l"
  by (auto simp: preview_wire_lease_def wire_lease_def lease_ok_def token_ok_def word_ge_1 TaskDescriptor_from_task_def
      TaskDescriptor_validate_iff result_simps Let_def)

lemma claim_with_lease_Inl:
  assumes inv: "sched_inv s" and c: "claim_with_lease now w ms s = (Inl e, s')"
  shows "scheduler_error_sized e"
proof (cases "\<exists>until. validate_lease w ms = Inr () \<and> checked_add now ms = Some until")
  case False
  then show ?thesis
    using c by (auto simp: claim_with_lease_def validate_lease_def validate_lease_owner_def
        split: sum.split_asm option.split_asm if_split_asm)
next
  case True
  then obtain until where ok: "validate_lease w ms = Inr ()" "checked_add now ms = Some until" by blast
  show ?thesis
    using inv
  proof (cases rule: claim_cases [where now = now])
    case (empty s1)
    then show ?thesis using c ok by (simp add: claim_with_lease_def)
  next
    case (started s1 i rest t)
    let ?s2 = "s1\<lparr>s_queue := rest, s_tasks := AList.update i (started t) (s_tasks s1)\<rparr>"
    have ident: "task_ident (started t) = i" using started(6) by (simp add: started_def)
    have t2: "map_of (s_tasks ?s2) i = Some (started t)" "t_state (started t) \<in> {Running, WaitingIo}"
      by (simp_all add: update_conv' started_def)
    have room: "length (s_queue ?s2) < s_capacity ?s2"
      using sched_invD(2) [OF started(2)] started(3) by simp
    have re: "\<exists>u s3. sched_transition i Retrying ?s2 = (Inr u, s3)"
      using sched_transition_ok [OF t2(1), of Retrying] by (simp add: started_def)
    then obtain u s3 where re: "sched_transition i Retrying ?s2 = (Inr u, s3)" by blast
    obtain v s4 where qu: "sched_transition i Queued s3 = (Inr v, s4)" using retry_Inl [OF t2 room re] by blast
    show ?thesis
      using c ok started(9) ident re qu by (auto simp: claim_with_lease_def Let_def split: option.split_asm)
  qed
qed

lemma lease_until_pos: "checked_add now ms = Some until \<Longrightarrow> 0 < ms \<Longrightarrow> 0 < (until :: u64)"
  by (drule checked_add_unat) (simp add: word_less_nat_alt)

lemma granted_lease_ok:
  assumes inv: "sched_inv s" and c: "claim_with_lease now w ms s = (Inr (Some tc), s')"
    and w: "worker_ok w" "0 < ms" and l: "wire_lease env tc = Inr l"
  shows "lease_ok env l"
  using claim_with_lease_Some(3-5) [OF inv c] new_generation_pos lease_until_pos [OF _ w(2)] w(1)
  by (intro wire_leases_ok(2) [OF l]) auto

lemma claim_loop_cases:
  assumes "broker_claim_loop env rid w ms now (Suc n) leases s = (m, s')"
  obtains (listed) "m = RM_Claimed rid leases"
  | (peeked) e s1 where "peek_runnable now s = (Inl e, s1)"
  | (attempt) "m = error_message (Some rid) EC_Internal ''queued task cannot begin an attempt''"
  | (preview) t e where "preview_wire_lease (be_rpc env) t w = Inl e"
      "m = error_message (Some rid) EC_Internal (TaskRpcError_to_string env e)"
  | (encoded) t p e where "preview_wire_lease (be_rpc env) t w = Inr p"
      "encode_message (be_rpc env) (Envelope_new (RM_Claimed rid (leases @ [p]))) = Inl e"
      "m = error_message (Some rid) EC_Internal (TaskRpcError_to_string env e)"
  | (refused) r e s1 s2 where "peek_runnable now s = (r, s1)" "claim_with_lease now w ms s1 = (Inl e, s2)"
      "m = scheduler_error (Some rid) e"
  | (wired) c e where "wire_lease (be_rpc env) c = Inl e"
      "m = error_message (Some rid) EC_Internal (TaskRpcError_to_string env e)"
  | (granted) r s1 c s2 l where "peek_runnable now s = (r, s1)" "claim_with_lease now w ms s1 = (Inr (Some c), s2)"
      "wire_lease (be_rpc env) c = Inr l" "broker_claim_loop env rid w ms now n (leases @ [l]) s2 = (m, s')"
  using assms
  by (auto simp: Let_def split: prod.split_asm sum.split_asm option.split_asm if_split_asm)

lemma internal_ok:
  "texts_short (env :: 'v broker_env) \<Longrightarrow> error_sized e \<Longrightarrow>
    rpc_message_ok (be_rpc env) (error_message rid EC_Internal (TaskRpcError_to_string env e)) \<and>
    rpc_request_id (error_message rid EC_Internal (TaskRpcError_to_string env e) :: 'v RpcMessage) = rid"
  by (simp add: error_message_def error_text_short)

lemma claim_loop_reply:
  "sched_inv s \<Longrightarrow> texts_short env \<Longrightarrow> worker_ok w \<Longrightarrow> 0 < ms \<Longrightarrow> length leases + n \<le> 64 \<Longrightarrow>
    \<forall>l \<in> set leases. lease_ok (be_rpc env) l \<Longrightarrow> broker_claim_loop env rid w ms now n leases s = (m, s') \<Longrightarrow>
    rpc_message_ok (be_rpc env) m \<and> rpc_request_id m = Some rid"
proof (induction n arbitrary: leases s)
  case 0
  then show ?case by auto
next
  case (Suc n)
  obtain r1 s1 where peek: "peek_runnable now s = (Inr r1, s1)" and inv1: "sched_inv s1"
    using peek_runnable_spec [OF Suc.prems(1)] by blast
  note sized = descriptor_sized [OF Suc.prems(2)]
  from Suc.prems(7) show ?case
  proof (cases rule: claim_loop_cases)
    case listed
    then show ?thesis using Suc.prems(5,6) by simp
  next
    case (preview t e)
    then show ?thesis using internal_ok [OF Suc.prems(2)] sized by (auto simp: preview_wire_lease_def result_simps)
  next
    case (encoded t p e)
    have "rpc_message_ok (be_rpc env) (RM_Claimed rid (leases @ [p]))"
      using Suc.prems(5,6) wire_leases_ok(1) [OF encoded(1) Suc.prems(3)] by auto
    then show ?thesis using internal_ok [OF Suc.prems(2) encode_sized [OF Suc.prems(2)]] encoded(2,3) by blast
  next
    case (refused r e s1' s2)
    then have "scheduler_error_sized e" using claim_with_lease_Inl [OF inv1] peek by auto
    then show ?thesis using scheduler_error_ok refused(3) by simp
  next
    case (wired c e)
    then show ?thesis using internal_ok [OF Suc.prems(2)] sized by (auto simp: wire_lease_def result_simps)
  next
    case (granted r s1' c s2 l)
    then have lease: "claim_with_lease now w ms s1 = (Inr (Some c), s2)" using peek by simp
    have "lease_ok (be_rpc env) l" using granted_lease_ok [OF inv1 lease Suc.prems(3,4) granted(3)] .
    then show ?thesis
      using Suc.IH [OF claim_with_lease_inv [OF inv1 lease], of "leases @ [l]"] granted(4) Suc.prems by auto
  qed (use peek in \<open>simp_all add: error_message_def\<close>)
qed

lemma requeue_expired_Inr:
  assumes "sched_inv s"
  shows "\<exists>ids s'. requeue_expired now limit s = (Inr ids, s')"
proof -
  let ?ids = "sort (map fst (filter (\<lambda>(i, c). ac_lease_until_ms c \<le> now) (s_claims s)))"
  have dist: "distinct ?ids" using sched_invD(10) [OF assms] by (simp add: distinct_map_filter)
  have "set (take limit ?ids) \<subseteq> dom (map_of (s_claims s))"
    by (rule subset_trans [OF set_take_subset]) (auto simp: dom_map_of_conv_image_fst)
  from requeue_claims_loop_spec [OF assms distinct_take [OF dist] this, of now "[]"] show ?thesis
    by (auto simp: requeue_expired_def requeue_claims_def)
qed

lemma broker_claim_reply:
  assumes "broker_inv b" and "texts_short env" and "worker_ok w" and "0 < ms" and "limit \<le> 64"
    and "broker_claim env rid w ms limit now b = (m, b')"
  shows "rpc_message_ok (be_rpc env) m \<and> rpc_request_id m = Some rid"
proof -
  note inv = broker_inv_sched [OF assms(1)]
  obtain ids s where req: "requeue_expired now (unat limit) (br_scheduler b) = (Inr ids, s)"
    using requeue_expired_Inr [OF inv] by blast
  have inv1: "sched_inv s" using kept_run_inv [OF kept_runs(6) [OF inv req] inv] .
  have "unat limit \<le> 64" using assms(5) by (simp add: word_le_nat_alt)
  then show ?thesis
    using claim_loop_reply [OF inv1 assms(2-4), of "[]" "unat limit"] assms(6) req
    by (auto simp: broker_claim_def split: prod.split_asm)
qed

lemma renew_claim_errors: "renew_claim c now ms s = (Inl e, s') \<Longrightarrow> scheduler_error_sized e"
  by (auto simp: renew_claim_def validate_lease_def validate_lease_owner_def require_live_claim_def result_simps Let_def
      split: sum.split_asm option.split_asm if_split_asm)

lemma renewed_lease_ok:
  assumes "sched_inv s" and "renew_claim c now ms s = (Inr c', s')" and "worker_ok (tc_lease_owner c)"
    and "0 < ms" and "wire_lease env c' = Inr l"
  shows "lease_ok env l"
proof -
  obtain until a t where u: "checked_add now ms = Some until" "require_live_claim c now s = Inr a"
    and c': "c' = \<lparr>tc_task = t, tc_generation = ac_generation a, tc_lease_owner = ac_lease_owner a,
      tc_lease_until_ms = until\<rparr>"
    using assms(2) by (auto simp: renew_claim_def Let_def split: sum.split_asm option.split_asm)
  have "0 < ac_generation a" using u(2) sched_invD(9) [OF assms(1), of "task_ident (tc_task c)" a] by (simp add: result_simps)
  moreover have "ac_lease_owner a = tc_lease_owner c" using u(2) by (auto simp: result_simps)
  ultimately show ?thesis
    using wire_leases_ok(2) [OF assms(5)] c' lease_until_pos [OF u(1) assms(4)] assms(3) by simp
qed

lemma broker_renew_reply:
  assumes "broker_inv b" and "texts_short env" and "worker_ok (lt_lease_owner lease)" and "0 < ms"
    and "broker_renew env rid lease ms now b = (m, b')"
  shows "rpc_message_ok (be_rpc env) m \<and> rpc_request_id m = Some rid"
proof (cases "claim_from_token lease b")
  case (Inl e)
  then show ?thesis using assms(5) by (auto simp: broker_renew_def)
next
  case (Inr c)
  have owner: "worker_ok (tc_lease_owner c)" using Inr assms(3) by (auto simp: claim_from_token_Inr)
  obtain r s where ren: "renew_claim c now ms (br_scheduler b) = (r, s)" by (meson surj_pair)
  show ?thesis
  proof (cases r)
    case (Inl e)
    then show ?thesis
      using assms(5) \<open>claim_from_token lease b = Inr c\<close> ren scheduler_error_ok [OF renew_claim_errors, of c now ms _ e s]
      by (cases e) (auto simp: broker_renew_def)
  next
    case (Inr c')
    note ok = renewed_lease_ok [OF broker_inv_sched [OF assms(1)] _ owner assms(4)]
    show ?thesis
      using assms(5) \<open>claim_from_token lease b = Inr c\<close> ren Inr ok internal_ok [OF assms(2)] descriptor_sized [OF assms(2)]
      by (auto simp: broker_renew_def wire_lease_def result_simps split: sum.split_asm)
  qed
qed

lemma transition_sized: "sched_transition i n s = (Inl e, s') \<Longrightarrow> n \<noteq> Queued \<Longrightarrow> scheduler_error_sized e"
  by (cases rule: sched_transition_cases [where s = s and i = i and n = n]) auto

lemma not_refused_sized: "\<not> lease_refused e \<Longrightarrow> scheduler_error_sized e"
  by (cases e) simp_all

lemma cancel_sized: "cancel i s = (Inl e, s') \<Longrightarrow> scheduler_error_sized e"
  by (auto simp: cancel_def dest: transition_sized split: option.split_asm if_split_asm)

lemma broker_release_reply:
  "broker_release rid lease now b = (m, b') \<Longrightarrow> rpc_message_ok env m \<and> rpc_request_id m = Some rid"
  using scheduler_error_ok [OF not_refused_sized]
  by (auto simp: broker_release_def split: sum.split_asm prod.split_asm if_split_asm)

lemma broker_cancel_reply:
  "broker_cancel rid wid b = (m, b') \<Longrightarrow> rpc_message_ok env m \<and> rpc_request_id m = Some rid"
  by (auto simp: broker_cancel_def scheduler_error_ok dest: cancel_sized
      split: sum.split_asm prod.split_asm SchedulerError.split_asm)

lemma broker_commit_reply:
  "broker_commit rid lease out now b = (m, b') \<Longrightarrow> rpc_message_ok env m \<and> rpc_request_id m = Some rid"
  using scheduler_error_ok [OF not_refused_sized]
  by (auto simp: broker_commit_def split: sum.split_asm prod.split_asm if_split_asm)



end
