(* ===== verification/Cron.thy ===== *)
theory Cron
  imports Tysel_Text "HOL-Library.Signed_Division"
begin

text \<open>
  Cron expressions of \<^verbatim>\<open>crates/tysel-runtime/src/task_ingress.rs\<close>: parsing of the five fields, the civil calendar and
  the test whether a schedule selects a minute. The values of a field are \<open>u8\<close>; here they are natural
  numbers, with the range of \<open>u8\<close> in the parser and the casts written out. An error is the text that the code wraps in
  \<open>TaskIngressError::InvalidCron\<close>. \<open>i64\<close> is \<open>int\<close>, with the truncating division of the code.
\<close>

subsection \<open>Fields\<close>

record Field =
  f_minimum :: nat
  f_allowed :: "bool list"
  f_wildcard :: bool

text \<open>\<open>str::parse\<close> to an unsigned integer of \<open>k\<close> bits accepts a leading plus sign.\<close>

definition parse_unsigned :: "nat \<Rightarrow> string \<Rightarrow> nat option" where
  "parse_unsigned k s = parse_decimal k (if starts_with ''+'' s then tl s else s)"

definition parse_number :: "string \<Rightarrow> nat \<Rightarrow> nat \<Rightarrow> (string, nat) result" where
  "parse_number source minimum maximum =
     rbind (ok_or (parse_unsigned 8 source) (''invalid cron value '' @ [CHR 0x27] @ source @ [CHR 0x27])) (\<lambda>value.
       if \<not> (minimum \<le> value \<and> value \<le> maximum)
       then Inl (''cron value '' @ nat_to_string value @ '' is outside '' @ nat_to_string minimum @ ''..='' @
                 nat_to_string maximum)
       else Inr value)"

text \<open>One component of a list: the first and the last value and the step.\<close>

definition parse_component :: "nat \<Rightarrow> nat \<Rightarrow> string \<Rightarrow> (string, nat \<times> nat \<times> nat) result" where
  "parse_component minimum maximum component =
     rbind (case split_once (CHR ''/'') component of
              Some (span, step) \<Rightarrow>
                rbind (parse_number step minimum maximum) (\<lambda>step.
                  if step = 0 then Inl ''cron step must be positive'' else Inr (span, step))
            | None \<Rightarrow> Inr (component, 1)) (\<lambda>(span, step).
     rbind (if span = ''*'' then Inr (minimum, maximum)
            else case split_once (CHR ''-'') span of
              Some (start, stop) \<Rightarrow>
                rbind (parse_number start minimum maximum) (\<lambda>start.
                rbind (parse_number stop minimum maximum) (\<lambda>stop.
                  if start > stop then Inl ''cron range is reversed'' else Inr (start, stop)))
            | None \<Rightarrow> rbind (parse_number span minimum maximum) (\<lambda>value. Inr (value, value))) (\<lambda>(start, stop).
       Inr (start, stop, step)))"

text \<open>\<open>(start..=stop).step_by(step)\<close>.\<close>

definition step_range :: "nat \<Rightarrow> nat \<Rightarrow> nat \<Rightarrow> nat list" where
  "step_range start stop step = map (\<lambda>k. start + k * step) [0..<Suc ((stop - start) div step)]"

fun parse_components :: "nat \<Rightarrow> nat \<Rightarrow> string list \<Rightarrow> bool list \<Rightarrow> (string, bool list) result" where
  "parse_components minimum maximum [] allowed = Inr allowed"
| "parse_components minimum maximum (component # rest) allowed =
     rbind (parse_component minimum maximum component) (\<lambda>(start, stop, step).
       parse_components minimum maximum rest
         (foldl (\<lambda>allowed value. allowed[value := True]) allowed (step_range start stop step)))"

definition Field_parse :: "string \<Rightarrow> nat \<Rightarrow> nat \<Rightarrow> (string, Field) result" where
  "Field_parse source minimum maximum =
     (if source = [] then Inl ''empty cron field''
      else
        rbind (parse_components minimum maximum (split_on (CHR '','') source) (replicate (maximum + 1) False)) (\<lambda>allowed.
          if \<not> list_ex (\<lambda>a. a) allowed then Inl ''cron field selects no values''
          else Inr \<lparr>f_minimum = minimum, f_allowed = allowed, f_wildcard = starts_with ''*'' source\<rparr>))"

definition Field_contains :: "Field \<Rightarrow> nat \<Rightarrow> bool" where
  "Field_contains f value \<longleftrightarrow>
     f_minimum f \<le> value \<and> (if value < length (f_allowed f) then f_allowed f ! value else False)"

subsection \<open>Expressions\<close>

record CronExpression =
  c_source :: string
  c_minute :: Field
  c_hour :: Field
  c_day :: Field
  c_month :: Field
  c_weekday :: Field

text \<open>
  \<open>str::split_whitespace\<close>. The length of the whitespace character at the front of a text in UTF-8, or 0: the ASCII
  ones, U+0085 and U+00A0, and U+1680, U+2000 to U+200A, U+2028, U+2029, U+202F, U+205F and U+3000.
\<close>

definition whitespace_len :: "string \<Rightarrow> nat" where
  "whitespace_len s =
     (case map byte_val (take 3 s) of
        b # bs \<Rightarrow>
          if 9 \<le> b \<and> b \<le> 13 \<or> b = 32 then 1
          else if b = 0xC2 \<and> take 1 bs \<in> {[0x85], [0xA0]} then 2
          else if b = 0xE1 \<and> bs = [0x9A, 0x80] \<or> b = 0xE3 \<and> bs = [0x80, 0x80] \<or>
                  b = 0xE2 \<and> (bs = [0x81, 0x9F] \<or> length bs = 2 \<and> bs ! 0 = 0x80 \<and>
                    (0x80 \<le> bs ! 1 \<and> bs ! 1 \<le> 0x8A \<or> bs ! 1 \<in> {0xA8, 0xA9, 0xAF})) then 3
          else 0
      | [] \<Rightarrow> 0)"

function words_from :: "string \<Rightarrow> string \<Rightarrow> string list" where
  "words_from word s =
     (if s = [] then (if word = [] then [] else [word])
      else if whitespace_len s = 0 then words_from (word @ [hd s]) (tl s)
      else (if word = [] then [] else [word]) @ words_from [] (drop (whitespace_len s) s))"
  by auto
termination by (relation "measure (\<lambda>(w, s). length s)") auto

definition split_whitespace :: "string \<Rightarrow> string list" where
  "split_whitespace s = words_from [] s"

definition CronExpression_parse :: "string \<Rightarrow> (string, CronExpression) result" where
  "CronExpression_parse source =
     (if length source > 128 then Inl ''cron expression is too long''
      else
        (case split_whitespace source of
           [f0, f1, f2, f3, f4] \<Rightarrow>
             rbind (Field_parse f0 0 59) (\<lambda>minute.
             rbind (Field_parse f1 0 23) (\<lambda>hour.
             rbind (Field_parse f2 1 31) (\<lambda>day.
             rbind (Field_parse f3 1 12) (\<lambda>month.
             rbind (Field_parse f4 0 7) (\<lambda>weekday.
               Inr \<lparr>c_source = source, c_minute = minute, c_hour = hour, c_day = day, c_month = month,
                    c_weekday = weekday\<rparr>)))))
         | _ \<Rightarrow> Inl ''cron expression must contain five fields''))"

subsection \<open>The calendar\<close>

definition civil_from_days :: "int \<Rightarrow> int \<times> nat \<times> nat" where
  "civil_from_days days =
     (let z = days + 719468;
          era = (if z \<ge> 0 then z else z - 146096) sdiv 146097;
          day_of_era = z - era * 146097;
          year_of_era = (day_of_era - day_of_era sdiv 1460 + day_of_era sdiv 36524 - day_of_era sdiv 146096) sdiv 365;
          year = year_of_era + era * 400;
          day_of_year = day_of_era - (365 * year_of_era + year_of_era sdiv 4 - year_of_era sdiv 100);
          month_prime = (5 * day_of_year + 2) sdiv 153;
          day = day_of_year - (153 * month_prime + 2) sdiv 5 + 1;
          month = month_prime + (if month_prime < 10 then 3 else - 9);
          year = year + (if month \<le> 2 then 1 else 0)
      in (signed_take_bit 31 year, nat (month mod 256), nat (day mod 256)))"

abbreviation MINUTE_MS :: nat where
  "MINUTE_MS \<equiv> 60000"

definition matches_unix_ms :: "CronExpression \<Rightarrow> u64 \<Rightarrow> bool" where
  "matches_unix_ms e unix_ms =
     (let minute = unat unix_ms div MINUTE_MS;
          days = minute div (24 * 60);
          minute_of_day = minute mod (24 * 60);
          hour = minute_of_day div 60 mod 256;
          minute = minute_of_day mod 60 mod 256;
          (_, month, day) = civil_from_days (int days);
          weekday = (days + 4) mod 7 mod 256;
          day_match = Field_contains (c_day e) day;
          weekday_match = (Field_contains (c_weekday e) weekday \<or> weekday = 0 \<and> Field_contains (c_weekday e) 7);
          calendar_day_match =
            (if f_wildcard (c_day e) \<or> f_wildcard (c_weekday e) then day_match \<and> weekday_match
             else day_match \<or> weekday_match)
      in Field_contains (c_minute e) minute \<and> Field_contains (c_hour e) hour \<and> Field_contains (c_month e) month \<and>
         calendar_day_match)"

subsection \<open>What a field selects\<close>

lemma parse_number_range: "parse_number s lo hi = Inr v \<Longrightarrow> lo \<le> v \<and> v \<le> hi"
  by (auto simp: parse_number_def result_simps split: if_split_asm)

lemma parse_component_range:
  assumes "parse_component lo hi s = Inr (a, b, k)" and "lo \<le> hi"
  shows "lo \<le> a \<and> a \<le> b \<and> b \<le> hi \<and> 0 < k"
  using assms
  by (auto simp: parse_component_def result_simps dest!: parse_number_range split: if_split_asm option.split_asm)

lemma step_range_set: "0 < k \<Longrightarrow> a \<le> b \<Longrightarrow> v \<in> set (step_range a b k) \<longleftrightarrow> a \<le> v \<and> v \<le> b \<and> (v - a) mod k = 0"
proof -
  assume k: "0 < k" "a \<le> b"
  show ?thesis
  proof
    assume "v \<in> set (step_range a b k)"
    then have "v \<in> (\<lambda>i. a + i * k) ` {0..<Suc ((b - a) div k)}" by (simp add: step_range_def del: upt_Suc)
    then obtain i where i: "v = a + i * k" "i \<le> (b - a) div k" by fastforce
    then have "i * k \<le> b - a" using k(1) by (simp add: less_eq_div_iff_mult_less_eq)
    then show "a \<le> v \<and> v \<le> b \<and> (v - a) mod k = 0" using i k(2) by auto
  next
    assume v: "a \<le> v \<and> v \<le> b \<and> (v - a) mod k = 0"
    then have eq: "v = a + (v - a) div k * k" using div_mult_mod_eq [of "v - a" k] by linarith
    have "(v - a) div k \<le> (b - a) div k" using v by (intro div_le_mono diff_le_mono) simp
    then have "v \<in> (\<lambda>i. a + i * k) ` {0..<Suc ((b - a) div k)}" 
      using eq by (intro rev_image_eqI [of "(v - a) div k"]) (auto simp: less_Suc_eq_le)
    then show "v \<in> set (step_range a b k)" by (simp add: step_range_def del: upt_Suc)
  qed
qed

lemma nth_select: "i < length xs \<Longrightarrow> xs[a := True] ! i = (xs ! i \<or> i = a)"
  by (cases "a < length xs") (auto simp: nth_list_update)

lemma foldl_select:
  "length (foldl (\<lambda>a v. a[v := True]) xs vs) = length xs"
  "i < length xs \<Longrightarrow> foldl (\<lambda>a v. a[v := True]) xs vs ! i = (xs ! i \<or> i \<in> set vs)"
  by (induction vs arbitrary: xs) (auto simp: nth_select)

definition selects :: "nat \<Rightarrow> nat \<Rightarrow> string \<Rightarrow> nat \<Rightarrow> bool" where
  "selects lo hi component v \<longleftrightarrow>
     (case parse_component lo hi component of Inl _ \<Rightarrow> False
      | Inr (a, b, k) \<Rightarrow> a \<le> v \<and> v \<le> b \<and> (v - a) mod k = 0)"

lemma parse_components_spec:
  assumes "parse_components lo hi cs xs = Inr ys" and "lo \<le> hi"
  shows "length ys = length xs \<and> (\<forall>c \<in> set cs. \<exists>r. parse_component lo hi c = Inr r) \<and>
    (\<forall>i < length xs. ys ! i \<longleftrightarrow> xs ! i \<or> (\<exists>c \<in> set cs. selects lo hi c i))"
  using assms(1)
proof (induction cs arbitrary: xs)
  case (Cons c cs)
  from Cons.prems obtain a b k where c: "parse_component lo hi c = Inr (a, b, k)"
    and rest: "parse_components lo hi cs (foldl (\<lambda>a v. a[v := True]) xs (step_range a b k)) = Inr ys"
    by (auto simp: result_simps)
  have "selects lo hi c i \<longleftrightarrow> i \<in> set (step_range a b k)" for i
    using parse_component_range [OF c assms(2)] c by (simp add: selects_def step_range_set)
  then show ?case using Cons.IH [OF rest] c by (auto simp: foldl_select)
qed simp

lemma parse_components_total:
  "\<forall>c \<in> set cs. \<exists>r. parse_component lo hi c = Inr r \<Longrightarrow> \<exists>ys. parse_components lo hi cs xs = Inr ys"
  by (induction cs arbitrary: xs) auto

lemma selects_first:
  assumes "parse_component lo hi c = Inr (a, b, k)" and "lo \<le> hi"
  shows "selects lo hi c a" and "selects lo hi c v \<Longrightarrow> lo \<le> v \<and> v \<le> hi"
  using assms(1) parse_component_range [OF assms] by (auto simp: selects_def)

text \<open>C40. The meaning of a cron field. A field is accepted exactly if it is non-empty and each of its comma-separated
components is a value, a range in order, or an asterisk, within the bounds, with at most one positive step; an accepted
field selects exactly the values that one of its components names - from its first value in steps up to its last - and
only values within the bounds, at least one.\<close>

theorem cron_field_meaning:
  assumes "lo \<le> hi"
  shows "case Field_parse source lo hi of
      Inl _ \<Rightarrow> source = [] \<or> (\<exists>c \<in> set (split_on (CHR '','') source). \<exists>e. parse_component lo hi c = Inl e)
    | Inr f \<Rightarrow> source \<noteq> [] \<and> (\<forall>c \<in> set (split_on (CHR '','') source). \<exists>r. parse_component lo hi c = Inr r) \<and>
        (\<forall>v. Field_contains f v \<longleftrightarrow> (\<exists>c \<in> set (split_on (CHR '','') source). selects lo hi c v)) \<and>
        (\<forall>v. Field_contains f v \<longrightarrow> lo \<le> v \<and> v \<le> hi) \<and> (\<exists>v. Field_contains f v)"
proof (cases "source = [] \<or> (\<exists>c \<in> set (split_on (CHR '','') source). \<exists>e. parse_component lo hi c = Inl e)")
  case True
  have "\<exists>e. Field_parse source lo hi = Inl e"
  proof (cases "parse_components lo hi (split_on (CHR '','') source) (replicate (hi + 1) False)")
    case (Inr ys)
    then have "source = []" using parse_components_spec [OF Inr assms] True by fastforce
    then show ?thesis by (simp add: Field_parse_def)
  qed (simp add: Field_parse_def)
  then show ?thesis using True by auto
next
  case False
  let ?cs = "split_on (CHR '','') source"
  have all: "\<forall>c \<in> set ?cs. \<exists>r. parse_component lo hi c = Inr r" using False by (metis sum.exhaust)
  obtain ys where ys: "parse_components lo hi ?cs (replicate (hi + 1) False) = Inr ys"
    using parse_components_total [OF all] by blast
  note spec = parse_components_spec [OF ys assms]
  have within: "c \<in> set ?cs \<Longrightarrow> selects lo hi c v \<Longrightarrow> lo \<le> v \<and> v \<le> hi" for c v
    using all selects_first(2) [OF _ assms] by (metis surj_pair)
  obtain c where c: "c \<in> set ?cs" using hd_in_set [OF split_on_not_Nil] by blast
  obtain v where v: "selects lo hi c v" using all c selects_first(1) [OF _ assms] by (metis surj_pair)
  have len: "length ys = hi + 1" using spec by simp
  have at: "ys ! i \<longleftrightarrow> (\<exists>c \<in> set ?cs. selects lo hi c i)" if "i \<le> hi" for i
    using spec that by (simp add: less_Suc_eq_le del: replicate_Suc)
  have "ys ! v" "v < length ys" using at within [OF c v] c v len by auto
  then have "list_ex (\<lambda>a. a) ys" using nth_mem by (fastforce simp: list_ex_iff)
  then have f: "Field_parse source lo hi =
      Inr \<lparr>f_minimum = lo, f_allowed = ys, f_wildcard = starts_with ''*'' source\<rparr>"
    using False ys by (simp add: Field_parse_def)
  have contains: "Field_contains \<lparr>f_minimum = lo, f_allowed = ys, f_wildcard = starts_with ''*'' source\<rparr> i \<longleftrightarrow>
      (\<exists>c \<in> set ?cs. selects lo hi c i)" for i
    using at [of i] within [of _ i] len by (cases "i \<le> hi") (auto simp: Field_contains_def)
  show ?thesis
    unfolding f sum.case contains using False all within c v by blast
qed

theorem cron_field_meaning_witness:
  "case Field_parse ''5,20-30/5'' 0 59 of Inl _ \<Rightarrow> False | Inr f \<Rightarrow> Field_contains f 25 \<and> \<not> Field_contains f 26"
proof -
  have cs: "split_on (CHR '','') ''5,20-30/5'' = [''5'', ''20-30/5'']" by code_simp
  have p: "parse_component 0 59 ''5'' = Inr (5, 5, 1)" "parse_component 0 59 ''20-30/5'' = Inr (20, 30, 5)"
    by code_simp+
  show ?thesis
    using cron_field_meaning [of 0 59 "''5,20-30/5''"] by (auto simp: cs p selects_def split: sum.splits)
qed

subsection \<open>The calendar, day by day\<close>

text \<open>The Gregorian calendar by its own rule: the day after a date.\<close>

definition leap_year :: "int \<Rightarrow> bool" where
  "leap_year y \<longleftrightarrow> y mod 4 = 0 \<and> (y mod 100 \<noteq> 0 \<or> y mod 400 = 0)"

definition days_in_month :: "int \<Rightarrow> nat \<Rightarrow> nat" where
  "days_in_month y m = (if m = 2 then if leap_year y then 29 else 28 else if m \<in> {4, 6, 9, 11} then 30 else 31)"

fun next_date :: "int \<times> nat \<times> nat \<Rightarrow> int \<times> nat \<times> nat" where
  "next_date (y, m, d) =
     (if d < days_in_month y m then (y, m, d + 1) else if m < 12 then (y, m + 1, 1) else (y + 1, 1, 1))"

definition calendar_date :: "nat \<Rightarrow> int \<times> nat \<times> nat" where
  "calendar_date n = (next_date ^^ n) (1970, 1, 1)"

text \<open>The code counts years from March: month and day of the \<open>d\<close>-th day of such a year.\<close>

definition march_month :: "int \<Rightarrow> nat" where
  "march_month d = nat ((5 * d + 2) div 153 + (if (5 * d + 2) div 153 < 10 then 3 else - 9))"

definition march_day :: "int \<Rightarrow> nat" where
  "march_day d = nat (d - (153 * ((5 * d + 2) div 153) + 2) div 5 + 1)"

definition march_step_ok :: "int \<Rightarrow> bool" where
  "march_step_ok d \<longleftrightarrow>
     (let m = march_month d; k = march_day d in
      (m = 2 \<longrightarrow> k < 28) \<and> m \<le> 12 \<and> k \<le> 31 \<and> (m \<le> 2 \<longleftrightarrow> 306 \<le> d) \<and>
      (march_month (d + 1), march_day (d + 1)) =
        (if m = 2 \<or> k < (if m \<in> {4, 6, 9, 11} then 30 else 31) then (m, k + 1)
         else if m < 12 then (m + 1, 1) else (1, 1)))"

lemma march_steps: "list_all march_step_ok [0..363]"
  by code_simp

lemma march_step: "0 \<le> d \<Longrightarrow> d \<le> 363 \<Longrightarrow> march_step_ok d"
  using march_steps by (simp add: list_all_iff)

lemma march_ends:
  "march_month 0 = 3" "march_day 0 = 1" "march_month 364 = 2" "march_day 364 = 28" "march_month 365 = 2" "march_day 365 = 29"
  by (simp_all add: march_month_def march_day_def)

subsection \<open>The code's conversion\<close>

text \<open>
  A day of an era of 400 years is the \<open>d\<close>-th day of the \<open>p\<close>-th year of the \<open>q\<close>-th four years of the \<open>c\<close>-th century; only a
  leap year has a 365-th day.
\<close>

definition era_parts :: "int \<Rightarrow> int \<Rightarrow> int \<Rightarrow> int \<Rightarrow> bool" where
  "era_parts c q p d \<longleftrightarrow> 0 \<le> c \<and> c \<le> 3 \<and> 0 \<le> q \<and> q \<le> 24 \<and> 0 \<le> p \<and> p \<le> 3 \<and> 0 \<le> d \<and> d \<le> 365 \<and>
     (d = 365 \<longrightarrow> p = 3 \<and> (q < 24 \<or> c = 3))"

lemma era_split:
  assumes "0 \<le> doe" and "doe < 146097"
  obtains c q p d where "era_parts c q p d" and "doe = 36524 * c + 1461 * q + 365 * p + d"
proof -
  define c where "c = min 3 (doe div 36524)"
  define r where "r = doe - 36524 * c"
  define q where "q = min 24 (r div 1461)"
  define r' where "r' = r - 1461 * q"
  define p where "p = min 3 (r' div 365)"
  have d1: "36524 * (doe div 36524) + doe mod 36524 = doe" "0 \<le> doe mod 36524" "doe mod 36524 < 36524" by simp_all
  have c: "0 \<le> c" "c \<le> 3" "0 \<le> r" "r < 36524 \<or> c = 3 \<and> r < 36525"
    using assms d1 unfolding c_def r_def by (auto simp: min_def pos_imp_zdiv_nonneg_iff)
  have d2: "1461 * (r div 1461) + r mod 1461 = r" "0 \<le> r mod 1461" "r mod 1461 < 1461" by simp_all
  have q: "0 \<le> q" "q \<le> 24" "0 \<le> r'" "r' < 1460 \<or> (q < 24 \<or> c = 3) \<and> r' < 1461"
    using c d2 unfolding q_def r'_def by (auto simp: min_def pos_imp_zdiv_nonneg_iff)
  have d3: "365 * (r' div 365) + r' mod 365 = r'" "0 \<le> r' mod 365" "r' mod 365 < 365" by simp_all
  have p: "0 \<le> p" "p \<le> 3" "0 \<le> r' - 365 * p" "r' - 365 * p < 365 \<or> p = 3 \<and> (q < 24 \<or> c = 3) \<and> r' - 365 * p < 366"
    using q d3 unfolding p_def by (auto simp: min_def pos_imp_zdiv_nonneg_iff)
  show thesis
    by (rule that [of c q p "r' - 365 * p"]) (use c q p in \<open>auto simp: era_parts_def r_def r'_def\<close>)
qed

lemma era_years:
  assumes "era_parts c q p d" and doe: "doe = 36524 * c + 1461 * q + 365 * p + d"
  shows "(doe - doe div 1460 + doe div 36524 - doe div 146096) div 365 = 100 * c + 4 * q + p"
    and "doe - (365 * (100 * c + 4 * q + p) + (100 * c + 4 * q + p) div 4 - (100 * c + 4 * q + p) div 100) = d"
    and "0 \<le> doe - doe div 1460 + doe div 36524 - doe div 146096"
proof -
  note r = assms(1) [unfolded era_parts_def]
  define k where "k = (if 24 * c + q + 365 * p + d \<ge> 1460 then 1 else 0 :: int)"
  have "doe div 36524 - doe div 146096 = c"
  proof (cases "doe = 146096")
    case True
    then show ?thesis using r doe by auto
  next
    case False
    then have "1461 * q + 365 * p + d < 36524" using r doe by auto
    then have "doe div 36524 = c" using r by (intro int_div_pos_eq [of _ _ _ "1461 * q + 365 * p + d"]) (auto simp: doe)
    moreover have "doe div 146096 = 0" using r doe \<open>1461 * q + 365 * p + d < 36524\<close> by (intro div_pos_pos_trivial) auto
    ultimately show ?thesis by simp
  qed
  moreover have "doe div 1460 = 25 * c + q + k"
    using r by (intro int_div_pos_eq [of _ _ _ "24 * c + q + 365 * p + d - 1460 * k"]) (auto simp: doe k_def)
  ultimately have total: "doe - doe div 1460 + doe div 36524 - doe div 146096 = 365 * (100 * c + 4 * q + p) + (d - k)"
    unfolding doe by (simp add: algebra_simps)
  then show "0 \<le> doe - doe div 1460 + doe div 36524 - doe div 146096" using r by (auto simp: k_def)
  show "(doe - doe div 1460 + doe div 36524 - doe div 146096) div 365 = 100 * c + 4 * q + p"
    using r total by (intro int_div_pos_eq) (auto simp: k_def)
  have "(100 * c + 4 * q + p) div 4 = 25 * c + q"
    using r by (intro int_div_pos_eq [of _ _ _ p]) auto
  moreover have "(100 * c + 4 * q + p) div 100 = c"
    using r by (intro int_div_pos_eq [of _ _ _ "4 * q + p"]) auto
  ultimately show "doe - (365 * (100 * c + 4 * q + p) + (100 * c + 4 * q + p) div 4 - (100 * c + 4 * q + p) div 100) = d"
    unfolding doe by simp
qed

lemma sdiv_pos: "0 \<le> a \<Longrightarrow> 0 < b \<Longrightarrow> a sdiv b = a div (b :: int)"
  by (auto simp: signed_divide_int_def sgn_if)

lemma sdiv_floor: "(if z \<ge> 0 then z else z - 146096) sdiv 146097 = z div (146097 :: int)"
proof (cases "z \<ge> 0")
  case False
  have z: "146097 * (z div 146097) + z mod 146097 = z" "0 \<le> z mod 146097" "z mod 146097 < 146097" by simp_all
  have "(146096 - z) div 146097 = - (z div 146097)"
    using z by (intro int_div_pos_eq [of _ _ _ "146096 - z mod 146097"]) linarith+
  then show ?thesis using False by (simp add: signed_divide_int_def sgn_if)
qed (simp add: sdiv_pos)

definition civil :: "int \<Rightarrow> int \<Rightarrow> int \<times> nat \<times> nat" where
  "civil y d = (y + (if march_month d \<le> 2 then 1 else 0), march_month d, march_day d)"

definition march_cast_ok :: "int \<Rightarrow> bool" where
  "march_cast_ok d \<longleftrightarrow>
     (let mp = (5 * d + 2) div 153; m = mp + (if mp < 10 then 3 else - 9) in
      0 \<le> mp \<and> nat (m mod 256) = march_month d \<and> (m \<le> 2 \<longleftrightarrow> march_month d \<le> 2) \<and>
      nat ((d - (153 * mp + 2) div 5 + 1) mod 256) = march_day d)"

lemma march_cast: "0 \<le> d \<Longrightarrow> d \<le> 365 \<Longrightarrow> march_cast_ok d"
proof -
  have "list_all march_cast_ok [0..365]" by code_simp
  then show "0 \<le> d \<Longrightarrow> d \<le> 365 \<Longrightarrow> march_cast_ok d" by (simp add: list_all_iff)
qed

lemma civil_from_days_parts:
  assumes parts: "era_parts c q p d" and n: "n + 719468 = 146097 * e + (36524 * c + 1461 * q + 365 * p + d)"
  shows "civil_from_days n = map_prod (signed_take_bit 31) id (civil (400 * e + 100 * c + 4 * q + p) d)"
proof -
  note r = parts [unfolded era_parts_def]
  define doe where "doe = 36524 * c + 1461 * q + 365 * p + d"
  define y where "y = 100 * c + 4 * q + p"
  have b: "0 \<le> doe" "doe < 146097" "0 \<le> y" using r unfolding doe_def y_def by auto
  have era: "(n + 719468) div 146097 = e" using b by (intro int_div_pos_eq [of _ _ _ doe]) (auto simp: n doe_def)
  have rest: "n + 719468 - e * 146097 = doe" by (simp add: n doe_def)
  note years = era_years [OF parts doe_def, folded y_def]
  have yoe: "(doe - doe sdiv 1460 + doe sdiv 36524 - doe sdiv 146096) sdiv 365 = y"
    using years(1,3) b by (simp add: sdiv_pos)
  have doy: "doe - (365 * y + y sdiv 4 - y sdiv 100) = d" using years(2) b(3) by (simp add: sdiv_pos)
  have cast: "march_cast_ok d" using r by (intro march_cast) auto
  have mp: "(5 * d + 2) sdiv 153 = (5 * d + 2) div 153"
    "(153 * ((5 * d + 2) div 153) + 2) sdiv 5 = (153 * ((5 * d + 2) div 153) + 2) div 5"
    using r cast by (auto simp: sdiv_pos march_cast_ok_def Let_def)
  show ?thesis
    unfolding civil_from_days_def Let_def sdiv_floor era rest yoe doy mp
    using cast by (simp add: civil_def march_cast_ok_def Let_def y_def algebra_simps)
qed

lemma leap_parts:
  assumes "era_parts c q p d"
  shows "leap_year (400 * e + 100 * c + 4 * q + p + 1) \<longleftrightarrow> p = 3 \<and> (q < 24 \<or> c = 3)"
proof -
  note r = assms [unfolded era_parts_def]
  let ?y = "400 * e + 100 * c + 4 * q + p + 1"
  have m4: "?y mod 4 = (p + 1) mod 4"
    using mod_mult_self2 [of "p + 1" 4 "100 * e + 25 * c + q"] by (simp add: algebra_simps)
  have m100: "?y mod 100 = (4 * q + p + 1) mod 100"
    using mod_mult_self2 [of "4 * q + p + 1" 100 "4 * e + c"] by (simp add: algebra_simps)
  have m400: "?y mod 400 = (100 * c + 4 * q + p + 1) mod 400"
    using mod_mult_self2 [of "100 * c + 4 * q + p + 1" 400 e] by (simp add: algebra_simps)
  show ?thesis
  proof (cases "p = 3")
    case False
    then have "(p + 1) mod 4 = p + 1" using r by (intro mod_pos_pos_trivial) auto
    then show ?thesis using m4 r False by (simp add: leap_year_def)
  next
    case p: True
    show ?thesis
    proof (cases "q < 24")
      case True
      then have "(4 * q + p + 1) mod 100 = 4 * q + 4" using r p by (subst mod_pos_pos_trivial) auto
      then show ?thesis using m4 m100 p True r by (simp add: leap_year_def)
    next
      case False
      then have q: "q = 24" using r by simp
      show ?thesis
      proof (cases "c = 3")
        case True
        then show ?thesis using m4 m100 m400 p q by (simp add: leap_year_def)
      next
        case False
        then have "(100 * c + 100) mod 400 = 100 * c + 100" using r by (intro mod_pos_pos_trivial) auto
        then show ?thesis using m4 m100 m400 p q False r by (simp add: leap_year_def)
      qed
    qed
  qed
qed

text \<open>The date of a day, before the year is cast to 32 bits.\<close>

definition civil_date :: "int \<Rightarrow> (int \<times> nat \<times> nat) \<Rightarrow> bool" where
  "civil_date n t \<longleftrightarrow> (\<exists>e c q p d. era_parts c q p d \<and> n + 719468 = 146097 * e + (36524 * c + 1461 * q + 365 * p + d) \<and>
     t = civil (400 * e + 100 * c + 4 * q + p) d)"

lemma civil_dateI:
  "era_parts c q p d \<Longrightarrow> n + 719468 = 146097 * e + (36524 * c + 1461 * q + 365 * p + d) \<Longrightarrow>
    y = 400 * e + 100 * c + 4 * q + p \<Longrightarrow> civil_date n (civil y d)"
  unfolding civil_date_def by blast

lemma next_date_within:
  assumes "march_step_ok d"
  shows "next_date (civil y d) = civil y (d + 1)"
proof (cases "march_month d = 2")
  case True
  then have "march_day d < days_in_month (y + 1) 2" using assms by (auto simp: march_step_ok_def days_in_month_def Let_def)
  then show ?thesis using assms True by (simp add: march_step_ok_def civil_def Let_def)
next
  case False
  then have "days_in_month y' (march_month d) = (if march_month d \<in> {4, 6, 9, 11} then 30 else 31)" for y'
    by (simp add: days_in_month_def)
  then show ?thesis using assms False by (auto simp: march_step_ok_def civil_def Let_def split: if_split_asm)
qed

lemma civil_date_next:
  assumes "civil_date n t"
  shows "civil_date (n + 1) (next_date t)"
proof -
  obtain e c q p d where parts: "era_parts c q p d" and n: "n + 719468 = 146097 * e + (36524 * c + 1461 * q + 365 * p + d)"
    and t: "t = civil (400 * e + 100 * c + 4 * q + p) d"
    using assms unfolding civil_date_def by blast
  note r = parts [unfolded era_parts_def]
  note leap = leap_parts [OF parts, of e]
  have ends: "next_date (civil y 364) = (if leap_year (y + 1) then civil y 365 else civil (y + 1) 0)"
    "leap_year (y + 1) \<Longrightarrow> next_date (civil y 365) = civil (y + 1) 0" for y
    by (simp_all add: civil_def march_ends days_in_month_def)
  consider (within) "d \<le> 363" | (last) "d = 364" | (leap_day) "d = 365" using r by linarith
  then show ?thesis
  proof cases
    case within
    then have "next_date t = civil (400 * e + 100 * c + 4 * q + p) (d + 1)"
      using r by (simp add: t next_date_within march_step)
    moreover have "era_parts c q p (d + 1)" using r within by (simp add: era_parts_def)
    ultimately show ?thesis using n by (auto intro!: civil_dateI)
  next
    case last
    show ?thesis
    proof (cases "p = 3 \<and> (q < 24 \<or> c = 3)")
      case True
      then have "era_parts c q p 365" using r by (simp add: era_parts_def)
      then show ?thesis using True n last leap by (auto simp: t ends intro!: civil_dateI)
    next
      case False
      then have "\<not> leap_year (400 * e + 100 * c + 4 * q + p + 1)" using leap by blast
      then have "next_date t = civil (400 * e + 100 * c + 4 * q + p + 1) 0" by (simp add: t last ends)
      moreover have "era_parts c q (p + 1) 0 \<or> p = 3 \<and> q = 24 \<and> era_parts (c + 1) 0 0 0"
        using r False by (auto simp: era_parts_def)
      ultimately show ?thesis
        using n last civil_dateI
          [of c q "p + 1" 0 "n + 1" e "400 * e + 100 * c + 4 * q + p + 1"]
        civil_dateI [of "c + 1" 0 0 0 "n + 1" e "400 * e + 100 * c + 4 * q + p + 1"] by auto
    qed
  next
    case leap_day
    then have p: "p = 3" "q < 24 \<or> c = 3" using r by auto
    then have "leap_year (400 * e + 100 * c + 4 * q + p + 1)" using leap by blast
    then have "next_date t = civil (400 * e + 100 * c + 4 * q + p + 1) 0" by (simp add: t leap_day ends(2))
    moreover have "q < 24 \<and> era_parts c (q + 1) 0 0 \<or> q = 24 \<and> c = 3 \<and> era_parts 0 0 0 0"
      using r p by (auto simp: era_parts_def)
    ultimately show ?thesis
      using n leap_day p civil_dateI
        [of c "q + 1" 0 0 "n + 1" e "400 * e + 100 * c + 4 * q + p + 1"]
        civil_dateI [of 0 0 0 0 "n + 1" "e + 1" "400 * e + 100 * c + 4 * q + p + 1"] by auto
  qed
qed

lemma civil_date_calendar: "civil_date (int n) (calendar_date n)"
proof (induction n)
  case 0
  have "era_parts 3 17 1 306" "civil 1969 306 = (1970, 1, 1)"
    by (simp_all add: era_parts_def civil_def march_month_def march_day_def)
  then show ?case using civil_dateI [of 3 17 1 306 0 4 1969] by (simp add: calendar_date_def)
next
  case (Suc n)
  then show ?case using civil_date_next [OF Suc] by (simp add: calendar_date_def add.commute)
qed

lemma civil_from_days_calendar:
  assumes "n < 2 ^ 38"
  shows "civil_from_days (int n) = calendar_date n"
proof -
  obtain e c q p d where parts: "era_parts c q p d" and n: "int n + 719468 = 146097 * e + (36524 * c + 1461 * q + 365 * p + d)"
    and t: "calendar_date n = civil (400 * e + 100 * c + 4 * q + p) d"
    using civil_date_calendar [of n] unfolding civil_date_def by blast
  note r = parts [unfolded era_parts_def]
  have "0 \<le> e" "e < 2000000" using r n assms by auto
  then have "- (2 ^ 31) \<le> fst (civil (400 * e + 100 * c + 4 * q + p) d)" "fst (civil (400 * e + 100 * c + 4 * q + p) d) < 2 ^ 31"
    using r by (auto simp: civil_def)
  then have "signed_take_bit 31 (fst (civil (400 * e + 100 * c + 4 * q + p) d)) = fst (civil (400 * e + 100 * c + 4 * q + p) d)"
    by (intro signed_take_bit_int_eq_self) simp_all
  then show ?thesis using civil_from_days_parts [OF parts n] t by (simp add: map_prod_def split_def)
qed

definition weekday_of :: "nat \<Rightarrow> nat" where
  "weekday_of n = ((\<lambda>w. if w = 6 then 0 else w + 1) ^^ n) 4"

lemma weekday_of_eq: "weekday_of n = (n + 4) mod 7"
proof (induction n)
  case (Suc n)
  then have "weekday_of (Suc n) = (if (n + 4) mod 7 = 6 then 0 else (n + 4) mod 7 + 1)" by (simp add: weekday_of_def)
  then show ?case using mod_Suc [of "n + 4" 7] by simp
qed (simp add: weekday_of_def)

text \<open>Whether a schedule names a minute since the epoch, by the calendar's own rules.\<close>

definition cron_due :: "CronExpression \<Rightarrow> nat \<Rightarrow> bool" where
  "cron_due e m =
     (case calendar_date (m div 1440) of (_, month, day) \<Rightarrow>
        let weekday = weekday_of (m div 1440);
            on_day = Field_contains (c_day e) day;
            on_weekday = (Field_contains (c_weekday e) weekday \<or> weekday = 0 \<and> Field_contains (c_weekday e) 7)
        in Field_contains (c_minute e) (m mod 60) \<and> Field_contains (c_hour e) (m div 60 mod 24) \<and>
           Field_contains (c_month e) month \<and>
           (if f_wildcard (c_day e) \<or> f_wildcard (c_weekday e) then on_day \<and> on_weekday else on_day \<or> on_weekday))"

text \<open>C14. The schedule follows the calendar. For every time that a 64-bit clock can show, a schedule matches exactly if
it selects the minute and the hour, and the month, day and weekday that counting days from Thursday, 1 January 1970 by the
Gregorian rules arrives at; 7 also means Sunday, and day of month and weekday are alternatives if both are
restricted. In particular no cast of the conversion loses anything.\<close>

theorem cron_follows_calendar: "matches_unix_ms e unix_ms \<longleftrightarrow> cron_due e (unat unix_ms div 60000)"
proof -
  let ?m = "unat unix_ms div 60000"
  have "unat unix_ms < 2 ^ 64" using unsigned_less [of unix_ms, where ?'a = nat] by simp
  then have "?m div 1440 < 2 ^ 38" by (simp add: div_mult2_eq [symmetric] div_less_iff_less_mult)
  then have date: "civil_from_days (int (?m div 1440)) = calendar_date (?m div 1440)" by (rule civil_from_days_calendar)
  have "?m mod 1440 div 60 = ?m div 60 mod 24" using mod_mult2_eq [of ?m 60 24] by simp
  moreover have "?m mod 1440 mod 60 = ?m mod 60" by (rule mod_mod_cancel) simp
  moreover have "x mod 24 mod 256 = x mod 24" "x mod 60 mod 256 = x mod 60" "x mod 7 mod 256 = x mod 7" for x :: nat
    by (rule mod_less, rule order.strict_trans [OF mod_less_divisor], simp_all)+
  ultimately show ?thesis
    by (simp add: matches_unix_ms_def cron_due_def date weekday_of_eq Let_def split: prod.split)
qed

end
