(* ===== verification/Task_Ingress.thy ===== *)
theory Task_Ingress
  imports Cron Task_Broker "HOL-Library.Char_ord" "HOL-Library.List_Lexorder"
begin

text \<open>
  Ingress of cron, queue and MCP tasks (\<^verbatim>\<open>crates/tysel-runtime/src/task_ingress.rs\<close>): the definitions a task module
  declares (\<^verbatim>\<open>crates/tysel-engine-qjs/src/task_module.rs\<close>), the routing table made of them, and the operations that turn
  a message, a tool call or the passing of time into tasks of the broker. An operation maps the ingress and the broker
  to its result and the two it leaves behind. Minutes are natural numbers, with the \<open>u64\<close> arithmetic written out.
\<close>

subsection \<open>Declared tasks\<close>

datatype McpValueType = VT_String | VT_Number | VT_Integer | VT_Boolean | VT_Object | VT_Array

datatype McpError = ME_Json | ME_Io | ME_MessageTooLarge nat | ME_TooManyTools | ME_InvalidTool string

definition McpValueType_parse :: "string \<Rightarrow> (McpError, McpValueType) result" where
  "McpValueType_parse source =
     (if source = ''string'' then Inr VT_String
      else if source = ''number'' then Inr VT_Number
      else if source = ''integer'' then Inr VT_Integer
      else if source = ''boolean'' then Inr VT_Boolean
      else if source = ''object'' then Inr VT_Object
      else if source = ''array'' then Inr VT_Array
      else Inl (ME_InvalidTool (''unsupported MCP input type '' @ [CHR 0x27] @ source @ [CHR 0x27])))"

record McpTool =
  mt_name :: string
  mt_description :: string
  mt_input :: "(string \<times> McpValueType) list"

datatype ModuleTaskKind =
    MK_Cron string
  | MK_Queue string
  | MK_Mcp string "(string \<times> string) list"

record ModuleTaskDefinition =
  md_name :: string
  md_kind :: ModuleTaskKind

definition task_trigger :: "ModuleTaskDefinition \<Rightarrow> TaskTrigger" where
  "task_trigger d =
     (case md_kind d of
        MK_Cron expression \<Rightarrow> TT_Cron (md_name d) expression
      | MK_Queue queue \<Rightarrow> TT_Queue queue (md_name d) None
      | MK_Mcp _ _ \<Rightarrow> TT_Mcp (md_name d))"

definition MAX_MODULE_TASKS :: nat where "MAX_MODULE_TASKS = 256"
definition MAX_TASK_NAME_BYTES :: nat where "MAX_TASK_NAME_BYTES = 128"
definition MAX_TASK_METADATA_BYTES :: nat where "MAX_TASK_METADATA_BYTES = 64 * 1024"

text \<open>The errors are the texts that the code wraps in \<open>EngineError::Isolate\<close>; \<open>parse\<close> stands for the JSON decoder of the
  metadata, an error being the library's text.\<close>

definition module_validate_identifier :: "string \<Rightarrow> string \<Rightarrow> (string, unit) result" where
  "module_validate_identifier label v =
     (if v = [] \<or> length v > MAX_TASK_NAME_BYTES
      then Inl (label @ '' must be 1..='' @ nat_to_string MAX_TASK_NAME_BYTES @ '' bytes'') else Inr ())"

definition validate_field :: "string \<Rightarrow> string \<Rightarrow> (string, unit) result" where
  "validate_field label v = (if v = [] then Inl (label @ '' must not be empty'') else Inr ())"

fun validate_inputs :: "(string \<times> string) list \<Rightarrow> (string, unit) result" where
  "validate_inputs [] = Inr ()"
| "validate_inputs ((name, kind) # rest) =
     rbind (validate_field ''MCP input name'' name) (\<lambda>_.
     rbind (validate_field ''MCP input type'' kind) (\<lambda>_. validate_inputs rest))"

definition validate_definition :: "ModuleTaskDefinition \<Rightarrow> (string, unit) result" where
  "validate_definition d =
     rbind (module_validate_identifier ''task name'' (md_name d)) (\<lambda>_.
     (case md_kind d of
        MK_Cron expression \<Rightarrow> validate_field ''cron expression'' expression
      | MK_Queue queue \<Rightarrow> validate_field ''queue name'' queue
      | MK_Mcp description input \<Rightarrow>
          rbind (validate_field ''MCP description'' description) (\<lambda>_. validate_inputs input)))"

fun validate_definitions :: "ModuleTaskDefinition list \<Rightarrow> (string, unit) result" where
  "validate_definitions [] = Inr ()"
| "validate_definitions (d # ds) = rbind (validate_definition d) (\<lambda>_. validate_definitions ds)"

definition decode_definitions ::
  "(string \<Rightarrow> (string, ModuleTaskDefinition list) result) \<Rightarrow> string \<Rightarrow> (string, ModuleTaskDefinition list) result" where
  "decode_definitions parse json =
     (if length json > MAX_TASK_METADATA_BYTES
      then Inl (''task metadata exceeds '' @ nat_to_string MAX_TASK_METADATA_BYTES @ '' bytes'')
      else
        rbind (map_err (\<lambda>error. ''invalid task metadata: '' @ error) (parse json)) (\<lambda>definitions.
          if length definitions > MAX_MODULE_TASKS
          then Inl (''task module defines more than '' @ nat_to_string MAX_MODULE_TASKS @ '' tasks'')
          else rbind (validate_definitions definitions) (\<lambda>_. Inr definitions)))"

subsection \<open>The routing table\<close>

datatype TaskIngressError =
    TE_InvalidCron string
  | TE_DuplicateQueueConsumer string string string
  | TE_UnknownQueue string
  | TE_UnknownMcpTool string
  | TE_InvalidTaskIdSeed
  | TE_InvalidApplicationId
  | TE_InvalidTimeout
  | TE_TaskIdExhausted
  | TE_Clock
  | TE_Broker TaskRpcBrokerError
  | TE_Mcp McpError

record CronRegistration =
  reg_name :: string
  reg_schedule :: CronExpression

record TaskRegistry =
  rg_cron :: "CronRegistration list"
  rg_queues :: "(string \<times> string) list"
  rg_mcp_tools :: "(string \<times> McpTool) list"

fun parse_inputs :: "(string \<times> string) list \<Rightarrow> (McpError, (string \<times> McpValueType) list) result" where
  "parse_inputs [] = Inr []"
| "parse_inputs ((name, kind) # rest) =
     rbind (McpValueType_parse kind) (\<lambda>t. rbind (parse_inputs rest) (\<lambda>ts. Inr ((name, t) # ts)))"

fun register :: "ModuleTaskDefinition list \<Rightarrow> TaskRegistry \<Rightarrow> (TaskIngressError, TaskRegistry) result" where
  "register [] r = Inr r"
| "register (d # ds) r =
     (case md_kind d of
        MK_Cron expression \<Rightarrow>
          rbind (map_err TE_InvalidCron (CronExpression_parse expression)) (\<lambda>schedule.
            register ds (r\<lparr>rg_cron := rg_cron r @ [\<lparr>reg_name = md_name d, reg_schedule = schedule\<rparr>]\<rparr>))
      | MK_Queue queue \<Rightarrow>
          (case map_of (rg_queues r) queue of
             Some existing \<Rightarrow> Inl (TE_DuplicateQueueConsumer queue existing (md_name d))
           | None \<Rightarrow> register ds (r\<lparr>rg_queues := AList.update queue (md_name d) (rg_queues r)\<rparr>))
      | MK_Mcp description input \<Rightarrow>
          rbind (map_err TE_Mcp (parse_inputs input)) (\<lambda>types.
            register ds (r\<lparr>rg_mcp_tools := AList.update (md_name d)
                \<lparr>mt_name = md_name d, mt_description = description, mt_input = types\<rparr> (rg_mcp_tools r)\<rparr>)))"

definition from_definitions :: "ModuleTaskDefinition list \<Rightarrow> (TaskIngressError, TaskRegistry) result" where
  "from_definitions definitions =
     rbind (register definitions \<lparr>rg_cron = [], rg_queues = [], rg_mcp_tools = []\<rparr>) (\<lambda>r.
       Inr (r\<lparr>rg_cron := sort_key reg_name (rg_cron r)\<rparr>))"

definition queue_handler :: "TaskRegistry \<Rightarrow> string \<Rightarrow> string option" where
  "queue_handler r queue = map_of (rg_queues r) queue"

definition has_mcp_tool :: "TaskRegistry \<Rightarrow> string \<Rightarrow> bool" where
  "has_mcp_tool r name \<longleftrightarrow> map_of (rg_mcp_tools r) name \<noteq> None"

subsection \<open>The ingress\<close>

record TriggeredTask =
  tg_id :: TaskId
  tg_handler :: string
  tg_scheduled_at_ms :: u64

record CronPosition =
  cp_minute :: nat
  cp_registration :: nat

record TaskIngress =
  ti_registry :: TaskRegistry
  ti_application_id :: string
  ti_next_id :: u64
  ti_next_cron_position :: "CronPosition option"
  ti_request_timeout_ms :: u64

definition TaskIngress_new :: "TaskRegistry \<Rightarrow> string \<Rightarrow> u64 \<Rightarrow> u64 \<Rightarrow> (TaskIngressError, TaskIngress) result" where
  "TaskIngress_new registry application_id first_task_id request_timeout_ms =
     (if application_id = [] then Inl TE_InvalidApplicationId
      else if first_task_id = 0 then Inl TE_InvalidTaskIdSeed
      else if request_timeout_ms = 0 then Inl TE_InvalidTimeout
      else Inr \<lparr>ti_registry = registry, ti_application_id = application_id, ti_next_id = first_task_id,
                ti_next_cron_position = None, ti_request_timeout_ms = request_timeout_ms\<rparr>)"

definition reserve_task_ids :: "nat \<Rightarrow> TaskIngress \<Rightarrow> (TaskIngressError, u64) result \<times> TaskIngress" where
  "reserve_task_ids count g =
     (if count = 0 then (Inr (ti_next_id g), g)
      else if count \<ge> 2 ^ 64 then (Inl TE_TaskIdExhausted, g)
      else case checked_add (ti_next_id g) (of_nat count) of
          None \<Rightarrow> (Inl TE_TaskIdExhausted, g)
        | Some next \<Rightarrow>
            if next > ti_next_id g then (Inr (ti_next_id g), g\<lparr>ti_next_id := next\<rparr>) else (Inl TE_TaskIdExhausted, g))"

definition ingress_task :: "'v \<Rightarrow> TaskIngress \<Rightarrow> u64 \<Rightarrow> TaskTrigger \<Rightarrow> string option \<Rightarrow> 'v \<Rightarrow> u64 \<Rightarrow> 'v Task" where
  "ingress_task json_null g n trg key input deadline =
     with_input (Task_new json_null
       \<lparr>m_id = ucast n, m_application_id = ti_application_id g, m_tenant_id = None,
        m_idempotency_key = key, m_trace_id = None\<rparr> trg (Some deadline)) input"

text \<open>The task an ingress submits: reserve an identity, add the timeout to the clock, and hand it to the broker.\<close>

definition submit ::
  "'v broker_env \<Rightarrow> 'v \<Rightarrow> TaskTrigger \<Rightarrow> string option \<Rightarrow> 'v \<Rightarrow> u64 \<Rightarrow> TaskIngress \<Rightarrow> 'v TaskRpcBroker \<Rightarrow>
    (TaskIngressError, TaskId) result \<times> TaskIngress \<times> 'v TaskRpcBroker" where
  "submit env json_null trg key input now g b =
     (case reserve_task_ids 1 g of
        (Inl e, g) \<Rightarrow> (Inl e, g, b)
      | (Inr n, g) \<Rightarrow>
          (case checked_add now (ti_request_timeout_ms g) of
             None \<Rightarrow> (Inl TE_Clock, g, b)
           | Some deadline \<Rightarrow>
               (case broker_enqueue env (ingress_task json_null g n trg key input deadline) b of
                  (Inl e, b) \<Rightarrow> (Inl (TE_Broker e), g, b)
                | (Inr _, b) \<Rightarrow> (Inr (ucast n), g, b))))"

definition enqueue_queue ::
  "'v broker_env \<Rightarrow> 'v \<Rightarrow> string \<Rightarrow> string option \<Rightarrow> 'v \<Rightarrow> u64 \<Rightarrow> TaskIngress \<Rightarrow> 'v TaskRpcBroker \<Rightarrow>
    (TaskIngressError, TaskId) result \<times> TaskIngress \<times> 'v TaskRpcBroker" where
  "enqueue_queue env json_null queue message_id input now g b =
     (case queue_handler (ti_registry g) queue of
        None \<Rightarrow> (Inl (TE_UnknownQueue queue), g, b)
      | Some handler \<Rightarrow> submit env json_null (TT_Queue queue handler message_id) message_id input now g b)"

definition enqueue_mcp ::
  "'v broker_env \<Rightarrow> 'v \<Rightarrow> string \<Rightarrow> 'v \<Rightarrow> u64 \<Rightarrow> TaskIngress \<Rightarrow> 'v TaskRpcBroker \<Rightarrow>
    (TaskIngressError, TaskId) result \<times> TaskIngress \<times> 'v TaskRpcBroker" where
  "enqueue_mcp env json_null tool input now g b =
     (if \<not> has_mcp_tool (ti_registry g) tool then (Inl (TE_UnknownMcpTool tool), g, b)
      else submit env json_null (TT_Mcp tool) None input now g b)"

text \<open>The inner loop of \<open>enqueue_due_cron\<close> over the registrations that are left of one minute. Its result is the
  registration at which it stopped, whether it stopped because the queue is full, and the tasks triggered so far.\<close>

fun cron_minute ::
  "'v broker_env \<Rightarrow> 'v \<Rightarrow> u64 \<Rightarrow> nat \<Rightarrow> CronRegistration list \<Rightarrow> nat \<Rightarrow> TriggeredTask list \<Rightarrow> TaskIngress \<Rightarrow> 'v TaskRpcBroker \<Rightarrow>
    (TaskIngressError, bool \<times> nat \<times> TriggeredTask list) result \<times> TaskIngress \<times> 'v TaskRpcBroker" where
  "cron_minute env json_null now minute [] k triggered g b = (Inr (False, k, triggered), g, b)"
| "cron_minute env json_null now minute (r # rs) k triggered g b =
     (let scheduled_at_ms = of_nat (minute * MINUTE_MS) in
      if \<not> matches_unix_ms (reg_schedule r) scheduled_at_ms
      then cron_minute env json_null now minute rs (Suc k) triggered g b
      else if broker_remaining_capacity b = 0 then (Inr (True, k, triggered), g, b)
      else
        (case submit env json_null (TT_Cron (reg_name r) (c_source (reg_schedule r)))
                (Some (''cron:'' @ reg_name r @ '':'' @ nat_to_string minute)) json_null now g b of
           (Inl e, g, b) \<Rightarrow> (Inl e, g, b)
         | (Inr i, g, b) \<Rightarrow>
             cron_minute env json_null now minute rs (Suc k)
               (triggered @ [\<lparr>tg_id = i, tg_handler = reg_name r, tg_scheduled_at_ms = scheduled_at_ms\<rparr>]) g b))"

function cron_loop ::
  "'v broker_env \<Rightarrow> 'v \<Rightarrow> u64 \<Rightarrow> nat \<Rightarrow> nat \<Rightarrow> TriggeredTask list \<Rightarrow> TaskIngress \<Rightarrow> 'v TaskRpcBroker \<Rightarrow>
    (TaskIngressError, TriggeredTask list) result \<times> TaskIngress \<times> 'v TaskRpcBroker" where
  "cron_loop env json_null now minute k triggered g b =
     (if minute \<le> unat now div MINUTE_MS
      then
        if minute * MINUTE_MS \<ge> 2 ^ 64 then (Inl TE_Clock, g, b)
        else
          (case cron_minute env json_null now minute (drop k (rg_cron (ti_registry g))) k triggered g b of
             (Inl e, g, b) \<Rightarrow> (Inl e, g, b)
           | (Inr (True, k, triggered), g, b) \<Rightarrow>
               (Inr triggered, g\<lparr>ti_next_cron_position := Some \<lparr>cp_minute = minute, cp_registration = k\<rparr>\<rparr>, b)
           | (Inr (False, k, triggered), g, b) \<Rightarrow>
               cron_loop env json_null now (min (minute + 1) (2 ^ 64 - 1)) 0 triggered g b)
      else (Inr triggered, g\<lparr>ti_next_cron_position := Some \<lparr>cp_minute = minute, cp_registration = k\<rparr>\<rparr>, b))"
  by pat_completeness auto
termination
proof (relation "measure (\<lambda>(env, json_null, now, minute, k, triggered, g, b). Suc (unat now div MINUTE_MS) - minute)")
  fix now :: u64 and minute :: nat
  assume "minute \<le> unat now div MINUTE_MS"
  moreover have "unat now div MINUTE_MS < 2 ^ 64 - 1"
    using unsigned_less [of now, where ?'a = nat] by (simp add: div_less_iff_less_mult)
  ultimately show "((env, json_null, now, min (minute + 1) (2 ^ 64 - 1), 0, triggered', g', b'),
      env, json_null, now, minute, k, triggered, g, b)
    \<in> measure (\<lambda>(env, json_null, now, minute, k, triggered, g, b). Suc (unat now div MINUTE_MS) - minute)"
    for env :: "'v broker_env" and json_null :: 'v and triggered' g' b' k triggered g b
    by simp
qed simp

declare cron_loop.simps [simp del]

definition MAX_CRON_CATCH_UP_MINUTES :: nat where "MAX_CRON_CATCH_UP_MINUTES = 24 * 60"

text \<open>The position from which a poll starts, or nothing if the cursor is ahead of the clock.\<close>

definition poll_start :: "u64 \<Rightarrow> CronPosition option \<Rightarrow> CronPosition option" where
  "poll_start now cursor =
     (let current_minute = unat now div MINUTE_MS;
          oldest_minute = current_minute - (MAX_CRON_CATCH_UP_MINUTES - 1)
      in case cursor of
           Some position \<Rightarrow>
             if cp_minute position > current_minute then None
             else if cp_minute position \<ge> oldest_minute then Some position
             else Some \<lparr>cp_minute = oldest_minute, cp_registration = 0\<rparr>
         | None \<Rightarrow> Some \<lparr>cp_minute = current_minute, cp_registration = 0\<rparr>)"

definition enqueue_due_cron ::
  "'v broker_env \<Rightarrow> 'v \<Rightarrow> u64 \<Rightarrow> TaskIngress \<Rightarrow> 'v TaskRpcBroker \<Rightarrow>
    (TaskIngressError, TriggeredTask list) result \<times> TaskIngress \<times> 'v TaskRpcBroker" where
  "enqueue_due_cron env json_null now g b =
     (case poll_start now (ti_next_cron_position g) of
        None \<Rightarrow> (Inr [], g, b)
      | Some position \<Rightarrow> cron_loop env json_null now (cp_minute position) (cp_registration position) [] g b)"

end
