(* ===== verification/Ingress_Polls.thy ===== *)
theory Ingress_Polls
  imports Task_Ingress Broker_Replies
begin

text \<open>
  What the ingress promises (\<^verbatim>\<open>crates/tysel-runtime/src/task_ingress.rs\<close>): what one poll of the cron schedules triggers and
  where it stops, the invariant of the ingress and its broker under submissions, polls and requests of workers, that a
  poll succeeds for the tasks a module may declare, and that over a whole run every due task is triggered exactly once.
\<close>

subsection \<open>What a poll triggers\<close>

text \<open>
  The positions of the cursor in a row: with \<open>L\<close> registrations, registration \<open>k\<close> of minute \<open>m\<close> is number \<open>m * L + k\<close>, so that
  the end of a minute is the begin of the next. The due positions of a stretch, in order, and what is triggered there.
\<close>

definition position_index :: "CronRegistration list \<Rightarrow> CronPosition \<Rightarrow> nat" where
  "position_index regs p = cp_minute p * length regs + cp_registration p"

definition due_slots :: "CronRegistration list \<Rightarrow> nat \<Rightarrow> nat \<Rightarrow> nat list" where
  "due_slots regs a b = filter (\<lambda>i. cron_due (reg_schedule (regs ! (i mod length regs))) (i div length regs)) [a..<b]"

definition slot_task :: "CronRegistration list \<Rightarrow> nat \<Rightarrow> string \<times> nat" where
  "slot_task regs i = (reg_name (regs ! (i mod length regs)), i div length regs * MINUTE_MS)"

definition triggered_as :: "TriggeredTask \<Rightarrow> string \<times> nat" where
  "triggered_as t = (tg_handler t, unat (tg_scheduled_at_ms t))"

lemma due_slots_append: "a \<le> b \<Longrightarrow> b \<le> c \<Longrightarrow> due_slots regs a b @ due_slots regs b c = due_slots regs a c"
  using upt_add_eq_append [of a b "c - b"] by (simp add: due_slots_def flip: filter_append)

lemma minute_word:
  assumes "m * 60000 < 2 ^ 64"
  shows "unat (of_nat (m * 60000) :: u64) = m * 60000" and "matches_unix_ms e (of_nat (m * 60000)) = cron_due e m"
proof -
  show "unat (of_nat (m * 60000) :: u64) = m * 60000" using assms by (simp add: unsigned_of_nat take_bit_nat_eq_self del: of_nat_mult)
  then show "matches_unix_ms e (of_nat (m * 60000)) = cron_due e m" by (simp add: cron_follows_calendar del: of_nat_mult)
qed

lemma due_slot_step:
  assumes "k < length regs"
  shows "due_slots regs (m * length regs + k) (m * length regs + Suc k) =
    (if cron_due (reg_schedule (regs ! k)) m then [m * length regs + k] else [])"
    and "slot_task regs (m * length regs + k) = (reg_name (regs ! k), m * MINUTE_MS)"
proof -
  have "(m * length regs + k) div length regs = m" using assms by (intro div_nat_eqI) auto
  then show "due_slots regs (m * length regs + k) (m * length regs + Suc k) =
      (if cron_due (reg_schedule (regs ! k)) m then [m * length regs + k] else [])"
    and "slot_task regs (m * length regs + k) = (reg_name (regs ! k), m * MINUTE_MS)"
    using assms by (simp_all add: due_slots_def slot_task_def)
qed

lemma submit_frame:
  assumes "submit env null trg key input now g b = (r, g', b')"
  shows "ti_registry g' = ti_registry g" and "ti_next_cron_position g' = ti_next_cron_position g"
    and "ti_request_timeout_ms g' = ti_request_timeout_ms g"
  using assms
  by (auto simp: submit_def reserve_task_ids_def Let_def split: option.split_asm if_split_asm prod.split_asm sum.split_asm)

text \<open>A stretch of a poll: it triggers exactly what is due and stops only when the queue is full.\<close>

definition stretch ::
  "CronRegistration list \<Rightarrow> nat \<Rightarrow> nat \<Rightarrow> TriggeredTask list \<Rightarrow> TriggeredTask list \<Rightarrow> bool" where
  "stretch regs a z before after \<longleftrightarrow>
     a \<le> z \<and> map triggered_as after = map triggered_as before @ map (slot_task regs) (due_slots regs a z)"

lemma stretch_refl: "stretch regs a a t t"
  by (simp add: stretch_def due_slots_def)

lemma stretch_trans: "stretch regs a b t t' \<Longrightarrow> stretch regs b c t' t'' \<Longrightarrow> stretch regs a c t t''"
  using due_slots_append [of a b c regs] by (auto simp: stretch_def simp flip: map_append)

lemma cron_minute_spec:
  assumes "cron_minute env null now m rs k triggered g b = (Inr (full, k', triggered'), g', b')"
    and "rs = drop k regs" and "k \<le> length regs" and "m * 60000 < 2 ^ 64"
  shows "k' \<le> length regs \<and> stretch regs (m * length regs + k) (m * length regs + k') triggered triggered' \<and>
    (if full then k' < length regs \<and> cron_due (reg_schedule (regs ! k')) m \<and> broker_remaining_capacity b' = 0
     else k' = length regs) \<and>
    ti_registry g' = ti_registry g \<and> ti_next_cron_position g' = ti_next_cron_position g"
  using assms(1-3)
proof (induction rs arbitrary: k triggered g b)
  case Nil
  then show ?case by (auto simp: stretch_refl)
next
  case (Cons r rs)
  have k: "k < length regs" "r = regs ! k" "rs = drop (Suc k) regs"
    using Cons.prems(2) by (metis drop_all list.distinct(1) not_le_imp_less, metis list.sel(1) hd_drop_conv_nth drop_all list.distinct(1) not_le_imp_less, metis drop_Suc tl_drop list.sel(3))
  note slot = due_slot_step [OF k(1), of m]
  note word = minute_word [OF assms(4)]
  show ?case
  proof (cases "cron_due (reg_schedule r) m")
    case False
    then have "cron_minute env null now m rs (Suc k) triggered g b = (Inr (full, k', triggered'), g', b')"
      using Cons.prems(1) word(2) by (simp add: Let_def del: of_nat_mult)
    note ih = Cons.IH [OF this k(3) Suc_leI [OF k(1)]]
    have st: "stretch regs (m * length regs + k) (m * length regs + Suc k) triggered triggered"
      using slot(1) k(2) False by (simp add: stretch_def)
    show ?thesis using ih stretch_trans [OF st conjunct1 [OF conjunct2 [OF ih]]] by simp
  next
    case due: True
    show ?thesis
    proof (cases "broker_remaining_capacity b = 0")
      case True
      then show ?thesis using Cons.prems(1) due k word(2) by (auto simp: Let_def stretch_refl simp del: of_nat_mult)
    next
      case False
      let ?sub = "submit env null (TT_Cron (reg_name r) (c_source (reg_schedule r)))
          (Some (''cron:'' @ reg_name r @ '':'' @ nat_to_string m)) null now g b"
      obtain i g1 b1 where sub: "?sub = (Inr i, g1, b1)"
        and rec: "cron_minute env null now m rs (Suc k)
          (triggered @ [\<lparr>tg_id = i, tg_handler = reg_name r, tg_scheduled_at_ms = of_nat (m * 60000)\<rparr>]) g1 b1 =
          (Inr (full, k', triggered'), g', b')"
        using Cons.prems(1) due False word(2)
        by (auto simp: Let_def simp del: of_nat_mult split: prod.split_asm sum.split_asm)
      have st: "stretch regs (m * length regs + k) (m * length regs + Suc k) triggered
          (triggered @ [\<lparr>tg_id = i, tg_handler = reg_name r, tg_scheduled_at_ms = of_nat (m * 60000)\<rparr>])"
        using slot k(2) due word(1) by (simp add: stretch_def triggered_as_def del: of_nat_mult)
      note ih = Cons.IH [OF rec k(3) Suc_leI [OF k(1)]]
      show ?thesis using ih stretch_trans [OF st conjunct1 [OF conjunct2 [OF ih]]] submit_frame [OF sub] by simp
    qed
  qed
qed

text \<open>Where a poll stops: past the current minute, or at a due registration for which the queue has no room.\<close>

definition poll_end :: "u64 \<Rightarrow> CronPosition \<Rightarrow> bool" where
  "poll_end now p \<longleftrightarrow> cp_minute p = Suc (unat now div 60000)"

definition poll_stop :: "CronRegistration list \<Rightarrow> u64 \<Rightarrow> CronPosition \<Rightarrow> 'v TaskRpcBroker \<Rightarrow> bool" where
  "poll_stop regs now p b \<longleftrightarrow> poll_end now p \<or>
     cp_minute p \<le> unat now div 60000 \<and> broker_remaining_capacity b = 0 \<and> cp_registration p < length regs \<and>
     cron_due (reg_schedule (regs ! cp_registration p)) (cp_minute p)"

lemma cron_loop_spec:
  assumes "cron_loop env null now m k triggered g b = (Inr triggered', g', b')"
    and "regs = rg_cron (ti_registry g)" and "k \<le> length regs" and "m \<le> Suc (unat now div 60000)"
  shows "\<exists>p. ti_next_cron_position g' = Some p \<and> cp_registration p \<le> length regs \<and>
    stretch regs (m * length regs + k) (position_index regs p) triggered triggered' \<and>
    poll_stop regs now p b' \<and> (m \<le> unat now div 60000 \<or> k = 0 \<longrightarrow> poll_end now p \<longrightarrow> cp_registration p = 0) \<and>
    ti_registry g' = ti_registry g"
  using assms
proof (induction "Suc (unat now div 60000) - m" arbitrary: m k triggered g b)
  case 0
  then have m: "m = Suc (unat now div 60000)" by simp
  have "triggered' = triggered" "g' = g\<lparr>ti_next_cron_position := Some \<lparr>cp_minute = m, cp_registration = k\<rparr>\<rparr>"
    using "0.prems"(1) m by (subst (asm) cron_loop.simps, simp)+
  then show ?case using "0.prems"(2,3) m by (simp add: position_index_def stretch_refl poll_stop_def poll_end_def)
next
  case (Suc n)
  have m: "m \<le> unat now div 60000" using Suc.hyps(2) by simp
  have "m * 60000 \<le> unat now" using m by (simp add: less_eq_div_iff_mult_less_eq)
  moreover have "unat now < 2 ^ 64" using unsigned_less [of now, where ?'a = nat] by simp
  ultimately have clock: "m * 60000 < 2 ^ 64" by linarith
  then have next_minute: "min (m + 1) (2 ^ 64 - 1) = Suc m" by simp
  obtain full k1 t1 g1 b1 where inner: "cron_minute env null now m (drop k regs) k triggered g b = (Inr (full, k1, t1), g1, b1)"
    using Suc.prems(1,2) m clock
    by (auto simp: cron_loop.simps [of env null now m] split: prod.split_asm sum.split_asm)
  note spec = cron_minute_spec [OF inner refl Suc.prems(3) clock]
  have loop: "(if full then (Inr t1, g1\<lparr>ti_next_cron_position := Some \<lparr>cp_minute = m, cp_registration = k1\<rparr>\<rparr>, b1)
      else cron_loop env null now (Suc m) 0 t1 g1 b1) = (Inr triggered', g', b')"
    using Suc.prems(1,2) m clock inner next_minute
    by (auto simp: cron_loop.simps [of env null now m] split: bool.split_asm)
  show ?case
  proof (cases full)
    case True
    then show ?thesis using loop spec m by (auto simp: position_index_def poll_stop_def poll_end_def)
  next
    case False
    then have k1: "k1 = length regs" and loop': "cron_loop env null now (Suc m) 0 t1 g1 b1 = (Inr triggered', g', b')"
      and same: "regs = rg_cron (ti_registry g1)" "ti_registry g1 = ti_registry g"
      using spec loop Suc.prems(2) by auto
    have start: "Suc m * length regs + 0 = m * length regs + k1" using k1 by simp
    have "n = Suc (unat now div 60000) - Suc m" using Suc.hyps(2) by simp
    from Suc.hyps(1) [OF this loop' same(1) le0 Suc_le_mono [THEN iffD2, OF m], unfolded start] obtain p where
      p: "ti_next_cron_position g' = Some p" "cp_registration p \<le> length regs"
      "stretch regs (m * length regs + k1) (position_index regs p) t1 triggered'"
      "poll_stop regs now p b'" "poll_end now p \<longrightarrow> cp_registration p = 0" "ti_registry g' = ti_registry g1"
      by blast
    have "stretch regs (m * length regs + k) (position_index regs p) triggered triggered'"
      using stretch_trans [OF conjunct1 [OF conjunct2 [OF spec]] p(3)] .
    then show ?thesis using p same(2) by auto
  qed
qed

subsection \<open>Worker requests admit no task\<close>

definition task_ids :: "'v Scheduler \<Rightarrow> TaskId set" where
  "task_ids s = dom (map_of (s_tasks s))"

lemma task_ids_update: "map_of (s_tasks s) i = Some t \<Longrightarrow> task_ids (s\<lparr>s_tasks := AList.update i u (s_tasks s)\<rparr>) = task_ids s"
  by (auto simp: task_ids_def update_conv')

lemma sched_transition_ids: "sched_transition i n s = (r, s') \<Longrightarrow> task_ids s' = task_ids s"
  by (cases rule: sched_transition_cases [where s = s and i = i and n = n])
    (auto simp: task_ids_def update_conv' split: if_split_asm)

lemma peek_runnable_ids: "peek_runnable now s = (r, s') \<Longrightarrow> task_ids s' = task_ids s"
proof (induction now s arbitrary: r s' rule: peek_runnable.induct)
  case (1 now s)
  show ?case
  proof (cases "\<exists>i rest t r1 s1. s_queue s = i # rest \<and> map_of (s_tasks s) i = Some t \<and> deadline_reached t now \<and>
      sched_transition i TimedOut (s\<lparr>s_queue := rest\<rparr>) = (r1, s1)")
    case False
    then show ?thesis using "1.prems" by (subst (asm) peek_runnable.simps) (auto split: list.split_asm option.split_asm if_split_asm)
  next
    case True
    then obtain i rest t r1 s1 where q: "s_queue s = i # rest" "map_of (s_tasks s) i = Some t" "deadline_reached t now"
      and s1: "sched_transition i TimedOut (s\<lparr>s_queue := rest\<rparr>) = (r1, s1)" by blast
    have "task_ids s1 = task_ids s" using sched_transition_ids [OF s1] by (simp add: task_ids_def)
    moreover have "task_ids s' = task_ids s1"
      using "1.prems" "1.IH" [OF q(1,2) _ s1 [symmetric]] q s1
      by (subst (asm) peek_runnable.simps) (auto split: sum.split_asm)
    ultimately show ?thesis by simp
  qed
qed

lemma claim_ids: "claim now s = (r, s') \<Longrightarrow> task_ids s' = task_ids s"
proof -
  assume c: "claim now s = (r, s')"
  obtain r1 s1 where p: "peek_runnable now s = (r1, s1)" by (meson surj_pair)
  have "task_ids s' = task_ids s1"
    using c p by (auto simp: claim_def Let_def task_ids_def update_conv'
        split: sum.split_asm option.split_asm list.split_asm if_split_asm)
  then show ?thesis using peek_runnable_ids [OF p] by simp
qed

lemma claim_with_lease_ids:
  assumes "claim_with_lease now owner ms s = (r, s')"
  shows "task_ids s' = task_ids s"
proof -
  obtain r1 s1 where c: "claim now s = (r1, s1)" by (meson surj_pair)
  have "s' = s \<or> task_ids s' = task_ids s1"
    using assms c by (auto simp: claim_with_lease_def Let_def task_ids_def [of "s\<lparr>s_generations := _, s_claims := _\<rparr>" for s]
        dest!: sched_transition_ids simp flip: task_ids_def split: sum.split_asm option.split_asm prod.split_asm)
  then show ?thesis using claim_ids [OF c] by auto
qed

lemma requeue_claims_loop_ids: "requeue_claims_loop now ids acc s = (r, s') \<Longrightarrow> task_ids s' = task_ids s"
proof (induction ids arbitrary: acc s)
  case (Cons i ids)
  then show ?case
    by (auto split: option.split_asm if_split_asm prod.split_asm sum.split_asm dest!: sched_transition_ids dest: Cons.IH)
qed simp

lemma sched_ids:
  "renew_claim c now ms s = (r1, s') \<Longrightarrow> task_ids s' = task_ids s"
  "finish_claim c now n s = (r2, s') \<Longrightarrow> task_ids s' = task_ids s"
  "release_claim c now s = (r2, s') \<Longrightarrow> task_ids s' = task_ids s"
  "cancel i s = (r2, s') \<Longrightarrow> task_ids s' = task_ids s"
  "requeue_expired now limit s = (r3, s') \<Longrightarrow> task_ids s' = task_ids s"
  "requeue_owner_claims w now limit s = (r3, s') \<Longrightarrow> task_ids s' = task_ids s"
proof -
  show "renew_claim c now ms s = (r1, s') \<Longrightarrow> task_ids s' = task_ids s"
    by (auto simp: renew_claim_def Let_def task_ids_def split: sum.split_asm option.split_asm)
  show "finish_claim c now n s = (r2, s') \<Longrightarrow> task_ids s' = task_ids s"
    by (auto simp: finish_claim_def dest: sched_transition_ids split: sum.split_asm if_split_asm)
  show "release_claim c now s = (r2, s') \<Longrightarrow> task_ids s' = task_ids s"
    by (auto simp: release_claim_def Let_def dest!: sched_transition_ids
        split: sum.split_asm if_split_asm option.split_asm prod.split_asm)
  show "cancel i s = (r2, s') \<Longrightarrow> task_ids s' = task_ids s"
    by (auto simp: cancel_def dest: sched_transition_ids split: if_split_asm option.split_asm)
  show "requeue_expired now limit s = (r3, s') \<Longrightarrow> task_ids s' = task_ids s"
    by (auto simp: requeue_expired_def requeue_claims_def dest: requeue_claims_loop_ids)
  show "requeue_owner_claims w now limit s = (r3, s') \<Longrightarrow> task_ids s' = task_ids s"
    by (auto simp: requeue_owner_claims_def requeue_claims_def dest: requeue_claims_loop_ids split: sum.split_asm)
qed

lemma claim_loop_ids: "broker_claim_loop env rid w ms now n leases s = (m, s') \<Longrightarrow> task_ids s' = task_ids s"
proof (induction n arbitrary: leases s)
  case (Suc n)
  obtain r1 s1 where peek: "peek_runnable now s = (r1, s1)" by (meson surj_pair)
  obtain r2 s2 where lease: "claim_with_lease now w ms s1 = (r2, s2)" by (meson surj_pair)
  have ids: "task_ids s1 = task_ids s" "task_ids s2 = task_ids s"
    using peek_runnable_ids [OF peek] claim_with_lease_ids [OF lease] by simp_all
  show ?case
  proof (cases "s' = s1 \<or> s' = s2")
    case False
    then obtain c where "(\<exists>leases'. broker_claim_loop env rid w ms now n leases' s2 = (m, s')) \<or> s' = snd (release_claim c now s2)"
      using Suc.prems peek lease by (auto simp: Let_def split: sum.splits option.splits if_splits)
    then show ?thesis using Suc.IH ids(2) sched_ids(3) [of c now s2] by (metis prod.collapse)
  qed (use ids in auto)
qed simp

abbreviation broker_ids :: "'v TaskRpcBroker \<Rightarrow> TaskId set" where
  "broker_ids b \<equiv> task_ids (br_scheduler b)"

lemma apply_outcome_ids: "apply_outcome out c now s = (r, s') \<Longrightarrow> task_ids s' = task_ids s"
  by (cases out) (auto dest: sched_ids split: if_split_asm)

lemma broker_handle_ids:
  assumes "broker_handle env now e b = (reply, b')"
  shows "broker_ids b' = broker_ids b"
proof -
  have claim: "broker_claim env rid w ms limit now b = (m, b') \<Longrightarrow> broker_ids b' = broker_ids b" for rid w ms limit m
    by (auto simp: broker_claim_def dest!: sched_ids(5) claim_loop_ids split: prod.split_asm sum.split_asm)
  have renew: "broker_renew env rid l ms now b = (m, b') \<Longrightarrow> broker_ids b' = broker_ids b" for rid l ms m
  proof (cases "claim_from_token l b")
    case (Inr c)
    assume m: "broker_renew env rid l ms now b = (m, b')"
    obtain r s where c: "renew_claim c now ms (br_scheduler b) = (r, s)" by (meson surj_pair)
    have "br_scheduler b' = s" using m c Inr by (clarsimp simp: broker_renew_def)
    then show ?thesis using sched_ids(1) [OF c] by simp
  qed (simp add: broker_renew_def)
  have release: "broker_release rid l now b = (m, b') \<Longrightarrow> broker_ids b' = broker_ids b" for rid l m
    by (cases "claim_from_token l b") (auto simp: broker_release_def dest: sched_ids(3) split: prod.split_asm)
  have cancel: "broker_cancel rid i b = (m, b') \<Longrightarrow> broker_ids b' = broker_ids b" for rid i m
  proof (cases "WireTaskId_parse i")
    case (Inr j)
    assume m: "broker_cancel rid i b = (m, b')"
    obtain r s where c: "cancel j (br_scheduler b) = (r, s)" by (meson surj_pair)
    have "br_scheduler b' = s"
      using m c Inr by (cases r; cases "projl r") (auto simp: broker_cancel_def)
    then show ?thesis using sched_ids(4) [OF c] by simp
  qed (simp add: broker_cancel_def)
  have commit: "broker_commit rid l out now b = (m, b') \<Longrightarrow> broker_ids b' = broker_ids b" for rid l out m
  proof (cases "claim_from_token l b")
    case (Inr c)
    assume m: "broker_commit rid l out now b = (m, b')"
    obtain r s where a: "apply_outcome out c now (br_scheduler b) = (r, s)" by (meson surj_pair)
    have "br_scheduler b' = s" using m a Inr by (cases r) (auto simp: broker_commit_def)
    then show ?thesis using apply_outcome_ids [OF a] by simp
  qed (simp add: broker_commit_def)
  show ?thesis
  proof (cases "Envelope_validate (be_rpc env) e")
    case (Inr u)
    then show ?thesis
      using assms by (cases "en_message e")
        (auto simp: broker_handle_def split: prod.split_asm dest: claim renew release cancel commit)
  qed (use assms in \<open>simp add: broker_handle_def Let_def\<close>)
qed

subsection \<open>The ingress and its broker as one system\<close>

text \<open>Queue messages, tool calls and polls in any order, interleaved with requests of workers and the recovery of their
leases; the ingress is the only one that submits tasks.\<close>

inductive ingress_step ::
  "'v broker_env \<Rightarrow> 'v \<Rightarrow> TaskIngress \<times> 'v TaskRpcBroker \<Rightarrow> TaskIngress \<times> 'v TaskRpcBroker \<Rightarrow> bool" for env null where
  queue: "enqueue_queue env null q mid input now g b = (r, g', b') \<Longrightarrow> ingress_step env null (g, b) (g', b')"
| mcp: "enqueue_mcp env null tool input now g b = (r, g', b') \<Longrightarrow> ingress_step env null (g, b) (g', b')"
| cron: "enqueue_due_cron env null now g b = (r', g', b') \<Longrightarrow> ingress_step env null (g, b) (g', b')"
| request: "broker_handle env now e b = (reply, b') \<Longrightarrow> ingress_step env null (g, b) (g, b')"
| expire: "broker_requeue_expired now limit b = (r'', b') \<Longrightarrow> ingress_step env null (g, b) (g, b')"
| disconnect: "disconnect_worker w now b = (r'', b') \<Longrightarrow> ingress_step env null (g, b) (g, b')"

inductive ingress_reachable :: "'v broker_env \<Rightarrow> 'v \<Rightarrow> TaskIngress \<times> 'v TaskRpcBroker \<Rightarrow> bool" for env null where
  new: "TaskIngress_new registry app first timeout = Inr g \<Longrightarrow> broker_new capacity = Inr b \<Longrightarrow>
    ingress_reachable env null (g, b)"
| step: "ingress_reachable env null s \<Longrightarrow> ingress_step env null s s' \<Longrightarrow> ingress_reachable env null s'"

definition ids_fresh :: "TaskIngress \<Rightarrow> 'v TaskRpcBroker \<Rightarrow> bool" where
  "ids_fresh g b \<longleftrightarrow> (\<forall>i \<in> broker_ids b. unat i < unat (ti_next_id g))"

definition cursor_ok :: "TaskIngress \<Rightarrow> bool" where
  "cursor_ok g \<longleftrightarrow> (\<forall>p. ti_next_cron_position g = Some p \<longrightarrow> cp_registration p \<le> length (rg_cron (ti_registry g)))"

definition ingress_inv :: "'v broker_env \<Rightarrow> TaskIngress \<Rightarrow> 'v TaskRpcBroker \<Rightarrow> bool" where
  "ingress_inv env g b \<longleftrightarrow> broker_reachable env b \<and> ids_fresh g b"

lemma broker_enqueue_ids:
  "broker_enqueue env t b = (r, b') \<Longrightarrow> broker_ids b' \<subseteq> insert (task_ident t) (broker_ids b)"
  by (auto simp: broker_enqueue_def enqueue_def task_ids_def update_conv' Let_def
      split: sum.split_asm prod.split_asm if_split_asm)

lemma unat_task_id: "unat (ucast (n :: u64) :: TaskId) = unat n"
proof -
  have "unat n < 2 ^ 128" using unsigned_less [of n, where ?'a = nat] by simp
  then show ?thesis by (simp add: unsigned_ucast_eq take_bit_nat_eq_self)
qed

lemma reserve_one:
  "reserve_task_ids 1 g = (Inr n, g') \<Longrightarrow> n = ti_next_id g \<and> g' = g\<lparr>ti_next_id := n + 1\<rparr> \<and> unat (n + 1) = unat n + 1"
proof -
  assume r: "reserve_task_ids 1 g = (Inr n, g')"
  then obtain m where m: "checked_add (ti_next_id g) 1 = Some m" and "n = ti_next_id g" "g' = g\<lparr>ti_next_id := m\<rparr>"
    by (auto simp: reserve_task_ids_def split: option.split_asm if_split_asm)
  then show ?thesis using checked_add_unat [OF m] m by (simp add: checked_add_Some_iff)
qed

lemma submit_inv:
  assumes "submit env null trg key input now g b = (r, g', b')" and "ingress_inv env g b"
  shows "ingress_inv env g' b' \<and> unat (ti_next_id g) \<le> unat (ti_next_id g')"
proof (cases "reserve_task_ids 1 g")
  case (Pair r1 g1)
  show ?thesis
  proof (cases r1)
    case (Inl e)
    then have "g' = g1" "b' = b" using assms(1) Pair by (simp_all add: submit_def)
    moreover have "g1 = g" using Pair Inl by (auto simp: reserve_task_ids_def split: option.split_asm if_split_asm)
    ultimately show ?thesis using assms(2) by simp
  next
    case (Inr n)
    note res = reserve_one [OF Pair [unfolded Inr]]
    have fresh1: "ids_fresh g1 b" "ucast n \<notin> broker_ids b"
      using assms(2) res unat_task_id [of n] by (auto simp: ingress_inv_def ids_fresh_def)
    show ?thesis
    proof (cases "checked_add now (ti_request_timeout_ms g1)")
      case None
      then show ?thesis using assms Pair Inr res fresh1 by (auto simp: submit_def ingress_inv_def)
    next
      case (Some deadline)
      let ?t = "ingress_task null g1 n trg key input deadline"
      obtain r2 b2 where e: "broker_enqueue env ?t b = (r2, b2)" by (meson surj_pair)
      have "g' = g1" "b' = b2" using assms(1) Pair Inr Some e by (cases r2; simp add: submit_def)+
      moreover have "broker_reachable env b2"
        using assms(2) broker_reachable.step [OF _ broker_step.enqueue [OF e]] by (simp add: ingress_inv_def)
      moreover have "broker_ids b2 \<subseteq> insert (ucast n) (broker_ids b)"
        using broker_enqueue_ids [OF e] by (simp add: ingress_task_def with_input_def Task_new_def)
      ultimately show ?thesis
        using fresh1 res unat_task_id [of n] by (auto simp: ingress_inv_def ids_fresh_def)
    qed
  qed
qed

lemma cron_minute_inv:
  "cron_minute env null now m rs k triggered g b = (r, g', b') \<Longrightarrow> ingress_inv env g b \<Longrightarrow>
    ingress_inv env g' b' \<and> ti_registry g' = ti_registry g \<and> ti_next_cron_position g' = ti_next_cron_position g"
proof (induction rs arbitrary: k triggered g b)
  case (Cons x rs)
  let ?sub = "submit env null (TT_Cron (reg_name x) (c_source (reg_schedule x)))
      (Some (''cron:'' @ reg_name x @ '':'' @ nat_to_string m)) null now g b"
  obtain r1 g1 b1 where sub: "?sub = (r1, g1, b1)" by (meson prod_cases3)
  note inv1 = submit_inv [OF sub Cons.prems(2)] and frame = submit_frame [OF sub]
  show ?case
    using Cons.prems sub inv1 frame
    by (auto simp: Let_def simp del: of_nat_mult split: if_split_asm sum.split_asm dest!: Cons.IH)
qed simp

lemma cron_loop_inv:
  "cron_loop env null now m k triggered g b = (r, g', b') \<Longrightarrow> ingress_inv env g b \<Longrightarrow>
    ingress_inv env g' b' \<and> ti_registry g' = ti_registry g \<and>
    (\<forall>e. r = Inl e \<longrightarrow> ti_next_cron_position g' = ti_next_cron_position g)"
proof (induction "Suc (unat now div 60000) - m" arbitrary: m k triggered g b rule: less_induct)
  case less
  obtain r1 g1 b1 where inner: "cron_minute env null now m (drop k (rg_cron (ti_registry g))) k triggered g b = (r1, g1, b1)"
    by (meson prod_cases3)
  note inv1 = cron_minute_inv [OF inner less.prems(2)]
  have setc: "ingress_inv env (h\<lparr>ti_next_cron_position := c\<rparr>) b' = ingress_inv env h b'" for h c b'
    by (simp add: ingress_inv_def ids_fresh_def)
  show ?case
  proof (cases "m \<le> unat now div 60000 \<and> m * 60000 < 2 ^ 64 \<and> (\<exists>k' t'. r1 = Inr (False, k', t'))")
    case False
    then show ?thesis
      using less.prems inv1 inner
      by (subst (asm) cron_loop.simps) (auto simp: setc split: if_split_asm sum.split_asm bool.split_asm)
  next
    case True
    then obtain k' t' where r1: "r1 = Inr (False, k', t')" and m: "m \<le> unat now div 60000" "m * 60000 < 2 ^ 64" by blast
    then have next_minute: "min (m + 1) (2 ^ 64 - 1) = Suc m" by simp
    have "cron_loop env null now (Suc m) 0 t' g1 b1 = (r, g', b')"
      using less.prems(1) inner r1 m next_minute by (subst (asm) cron_loop.simps) simp
    then show ?thesis using less.hyps [of "Suc m" 0 t' g1 b1] m inv1 by auto
  qed
qed

lemma poll_start_ok:
  assumes "poll_start now (ti_next_cron_position g) = Some p" and "cursor_ok g"
  shows "cp_registration p \<le> length (rg_cron (ti_registry g))" and "cp_minute p \<le> unat now div 60000"
  using assms by (auto simp: poll_start_def cursor_ok_def Let_def split: option.split_asm if_split_asm)

lemma enqueue_due_cron_inv:
  assumes "enqueue_due_cron env null now g b = (r, g', b')" and "ingress_inv env g b" and "cursor_ok g"
  shows "ingress_inv env g' b' \<and> cursor_ok g' \<and> ti_registry g' = ti_registry g"
proof (cases "poll_start now (ti_next_cron_position g)")
  case (Some p)
  then have loop: "cron_loop env null now (cp_minute p) (cp_registration p) [] g b = (r, g', b')"
    using assms(1) by (simp add: enqueue_due_cron_def)
  note inv = cron_loop_inv [OF loop assms(2)]
  show ?thesis
  proof (cases r)
    case (Inl e)
    then show ?thesis using inv assms(3) by (auto simp: cursor_ok_def)
  next
    case (Inr t)
    from cron_loop_spec [OF loop [unfolded Inr] refl poll_start_ok(1) [OF Some assms(3)]]
    show ?thesis using inv poll_start_ok(2) [OF Some assms(3)] by (auto simp: cursor_ok_def)
  qed
qed (use assms in \<open>simp add: enqueue_due_cron_def\<close>)

lemma submit_ok_cursor: "submit env null trg key input now g b = (r, g', b') \<Longrightarrow> cursor_ok g \<Longrightarrow> cursor_ok g'"
  using submit_frame [of env null trg key input now g b r g' b'] by (simp add: cursor_ok_def)

lemma ingress_step_inv:
  assumes "ingress_step env null s s'" and "ingress_inv env (fst s) (snd s)" and "cursor_ok (fst s)"
  shows "ingress_inv env (fst s') (snd s') \<and> cursor_ok (fst s') \<and> ti_registry (fst s') = ti_registry (fst s)"
  using assms
proof cases
  case (queue q mid input now g b r g' b')
  then show ?thesis
    using assms(2,3) by (auto simp: enqueue_queue_def dest: submit_inv submit_ok_cursor submit_frame split: option.split_asm)
next
  case (mcp tool input now g b r g' b')
  then show ?thesis
    using assms(2,3) by (auto simp: enqueue_mcp_def dest: submit_inv submit_ok_cursor submit_frame split: if_split_asm)
next
  case (cron now g b r' g' b')
  then show ?thesis using enqueue_due_cron_inv [OF cron(3)] assms(2,3) by simp
next
  case (request now e b reply b' g)
  then show ?thesis
    using assms(2,3) broker_handle_ids [OF request(3)] broker_reachable.step [OF _ broker_step.handle [OF request(3)]]
    by (auto simp: ingress_inv_def ids_fresh_def)
next
  case (expire now limit b r'' b' g)
  have "broker_ids b' = broker_ids b"
    using expire(3) by (auto simp: broker_requeue_expired_def dest: sched_ids(5) split: prod.split_asm)
  then show ?thesis
    using expire assms(2,3) broker_reachable.step [OF _ broker_step.expire [OF expire(3)]] by (auto simp: ingress_inv_def ids_fresh_def)
next
  case (disconnect w now b r'' b' g)
  have "broker_ids b' = broker_ids b"
    using disconnect(3) by (auto simp: disconnect_worker_def dest: sched_ids(6) split: prod.split_asm)
  then show ?thesis
    using disconnect assms(2,3) broker_reachable.step [OF _ broker_step.disconnect [OF disconnect(3)]]
    by (auto simp: ingress_inv_def ids_fresh_def)
qed

lemma ingress_reachable_inv: "ingress_reachable env null s \<Longrightarrow> ingress_inv env (fst s) (snd s) \<and> cursor_ok (fst s)"
proof (induction rule: ingress_reachable.induct)
  case (new registry app first timeout g capacity b)
  have "broker_ids b = {}" using new(2) by (auto simp: broker_new_def Scheduler_new_def task_ids_def split: if_split_asm)
  then show ?case
    using new broker_reachable.new [OF new(2)]
    by (auto simp: ingress_inv_def ids_fresh_def cursor_ok_def TaskIngress_new_def split: if_split_asm)
next
  case (step s s')
  then show ?case using ingress_step_inv [OF step(2)] by simp
qed

subsection \<open>A poll succeeds\<close>

definition reg_ok :: "CronRegistration \<Rightarrow> bool" where
  "reg_ok r \<longleftrightarrow> reg_name r \<noteq> [] \<and> length (reg_name r) \<le> 128 \<and>
     c_source (reg_schedule r) \<noteq> [] \<and> length (c_source (reg_schedule r)) \<le> 128"

lemma CronExpression_parse_source: "CronExpression_parse s = Inr e \<Longrightarrow> c_source e = s \<and> length s \<le> 128"
  by (auto simp: CronExpression_parse_def result_simps split: if_split_asm list.split_asm)

lemma register_ok:
  "validate_definitions ds = Inr () \<Longrightarrow> register ds r = Inr r' \<Longrightarrow> \<forall>x \<in> set (rg_cron r). reg_ok x \<Longrightarrow>
    \<forall>x \<in> set (rg_cron r'). reg_ok x"
proof (induction ds arbitrary: r)
  case (Cons d ds)
  have name: "md_name d \<noteq> []" "length (md_name d) \<le> 128" and rest: "validate_definitions ds = Inr ()"
    using Cons.prems(1)
    by (auto simp: validate_definition_def module_validate_identifier_def MAX_TASK_NAME_BYTES_def result_simps split: if_split_asm)
  show ?case
  proof (cases "md_kind d")
    case (MK_Cron expression)
    then have "expression \<noteq> []"
      using Cons.prems(1) by (auto simp: validate_definition_def validate_field_def result_simps split: if_split_asm)
    moreover obtain e where e: "CronExpression_parse expression = Inr e"
      and reg: "register ds (r\<lparr>rg_cron := rg_cron r @ [\<lparr>reg_name = md_name d, reg_schedule = e\<rparr>]\<rparr>) = Inr r'"
      using Cons.prems(2) MK_Cron by (auto simp: result_simps)
    ultimately have "reg_ok \<lparr>reg_name = md_name d, reg_schedule = e\<rparr>"
      using name CronExpression_parse_source [OF e] by (simp add: reg_ok_def)
    then have "\<forall>x \<in> set (rg_cron (r\<lparr>rg_cron := rg_cron r @ [\<lparr>reg_name = md_name d, reg_schedule = e\<rparr>]\<rparr>)). reg_ok x"
      using Cons.prems(3) by simp
    then show ?thesis by (rule Cons.IH [OF rest reg])
  next
    case (MK_Queue q)
    then have "register ds (r\<lparr>rg_queues := AList.update q (md_name d) (rg_queues r)\<rparr>) = Inr r'"
      using Cons.prems(2) by (auto split: option.split_asm)
    then show ?thesis by (rule Cons.IH [OF rest]) (use Cons.prems(3) in simp)
  next
    case (MK_Mcp desc input)
    then obtain tools where "register ds (r\<lparr>rg_mcp_tools := tools\<rparr>) = Inr r'"
      using Cons.prems(2) by (auto simp: result_simps)
    then show ?thesis by (rule Cons.IH [OF rest]) (use Cons.prems(3) in simp)
  qed
qed simp

lemma declared_registrations_ok:
  assumes "decode_definitions parse json = Inr ds" and "from_definitions ds = Inr registry"
  shows "\<forall>r \<in> set (rg_cron registry). reg_ok r"
proof -
  have "validate_definitions ds = Inr ()"
    using assms(1) by (auto simp: decode_definitions_def result_simps split: if_split_asm)
  then show ?thesis
    using assms(2) register_ok [of ds "\<lparr>rg_cron = [], rg_queues = [], rg_mcp_tools = []\<rparr>"]
    by (auto simp: from_definitions_def result_simps)
qed

text \<open>What a poll needs of the JSON encoder: the null value is small, and so is a reply with one lease of a task without
input, whose texts are all bounded.\<close>

definition small_frames :: "'v rpc_env \<Rightarrow> 'v \<Rightarrow> bool" where
  "small_frames env null \<longleftrightarrow>
     (\<exists>bs. rpc_value_to_vec env null = Some bs \<and> length bs \<le> MAX_TASK_INPUT_BYTES) \<and>
     (\<forall>rid lease. lease_ok env lease \<and> td_input (tl_task lease) = null \<longrightarrow>
        (\<exists>bs. jc_to_vec (rpc_codec env) (Envelope_new (RM_Claimed rid [lease])) = Some bs \<and>
          length bs \<le> MAX_TASK_RPC_FRAME))"

lemma worst_worker_ok: "worker_ok (replicate MAX_WORKER_ID_BYTES (CHR ''w''))"
proof -
  have "is_worker_byte (CHR ''w'')" by code_simp
  then show ?thesis by (simp add: worker_ok_def MAX_WORKER_ID_BYTES_def)
qed

lemma cron_task_deliverable:
  assumes "reg_ok r" and "small_frames env null"
  shows "deliverable env (ingress_task null g n (TT_Cron (reg_name r) (c_source (reg_schedule r))) key null deadline) = Inr ()"
proof -
  let ?t = "ingress_task null g n (TT_Cron (reg_name r) (c_source (reg_schedule r))) key null deadline"
  let ?t1 = "?t\<lparr>t_state := Running, t_attempt := 1\<rparr>"
  let ?w = "replicate MAX_WORKER_ID_BYTES (CHR ''w'')"
  have start: "Task_transition ?t Queued = Inr (?t\<lparr>t_state := Queued\<rparr>)" "begin_attempt (?t\<lparr>t_state := Queued\<rparr>) = Inr ?t1"
    by (simp_all add: Task_transition_def begin_attempt_def saturating_add_def ingress_task_def with_input_def Task_new_def)
  define d where "d = \<lparr>td_trigger = WT_Cron (reg_name r) (c_source (reg_schedule r)), td_input = null, td_attempt = (1 :: u32),
      td_deadline_ms = Some deadline\<rparr>"
  have d: "descriptor_ok env d"
    using assms by (auto simp: d_def descriptor_ok_def reg_ok_def small_frames_def rpc_limits)
  then have from_task: "TaskDescriptor_from_task env ?t1 = Inr d"
    using TaskDescriptor_validate_iff [of env d]
    by (simp add: TaskDescriptor_from_task_def ingress_task_def with_input_def Task_new_def d_def Let_def)
  define lease where "lease = \<lparr>tl_token = \<lparr>lt_task_id = WireTaskId_new (task_ident ?t1), lt_generation = - 1, lt_lease_owner = ?w\<rparr>,
      tl_task = d, tl_lease_until_ms = - 1\<rparr>"
  have preview: "preview_wire_lease env ?t1 ?w = Inr lease"
    using from_task by (simp add: preview_wire_lease_def lease_def)
  have lease: "lease_ok env lease"
    using wire_leases_ok(1) [OF preview worst_worker_ok] .
  have valid: "Envelope_validate env (Envelope_new (RM_Claimed (- 1) [lease])) = Inr ()"
    using lease RpcMessage_validate_iff [of env "RM_Claimed (- 1) [lease]"]
    by (simp add: Envelope_validate_def Envelope_new_def del: RpcMessage_validate.simps)
  have "td_input (tl_task lease) = null" by (simp add: lease_def d_def)
  then obtain bs where bs: "jc_to_vec (rpc_codec env) (Envelope_new (RM_Claimed (- 1) [lease])) = Some bs" "length bs \<le> MAX_TASK_RPC_FRAME"
    using assms(2) lease unfolding small_frames_def by blast
  then have "encode_message env (Envelope_new (RM_Claimed (- 1) [lease])) = Inr bs"
    using valid by (simp add: encode_message_def ok_or_def)
  then show ?thesis using start from_task preview by (simp add: deliverable_def)
qed

definition poll_ready :: "'v broker_env \<Rightarrow> 'v \<Rightarrow> u64 \<Rightarrow> TaskIngress \<Rightarrow> 'v TaskRpcBroker \<Rightarrow> bool" where
  "poll_ready env null now g b \<longleftrightarrow> ingress_inv env g b \<and> small_frames (be_rpc env) null \<and>
     unat now + unat (ti_request_timeout_ms g) < 2 ^ 64 \<and> unat (ti_next_id g) + broker_remaining_capacity b < 2 ^ 64"

lemma reserve_succeeds:
  assumes "unat (ti_next_id g) + 1 < 2 ^ 64"
  shows "reserve_task_ids 1 g = (Inr (ti_next_id g), g\<lparr>ti_next_id := ti_next_id g + 1\<rparr>)"
    and "unat (ti_next_id g + 1) = unat (ti_next_id g) + 1"
proof -
  have c: "checked_add (ti_next_id g) 1 = Some (ti_next_id g + 1)" using assms by (simp add: checked_add_def)
  then show "unat (ti_next_id g + 1) = unat (ti_next_id g) + 1" using checked_add_unat [OF c] by simp
  then show "reserve_task_ids 1 g = (Inr (ti_next_id g), g\<lparr>ti_next_id := ti_next_id g + 1\<rparr>)"
    using c by (simp add: reserve_task_ids_def word_less_nat_alt)
qed

lemma broker_enqueue_succeeds:
  assumes "deliverable (be_rpc env) t = Inr ()" and "t_state t = Created" and "task_ident t \<notin> broker_ids b"
    and "broker_remaining_capacity b > 0"
  shows "\<exists>b'. broker_enqueue env t b = (Inr (), b') \<and> broker_remaining_capacity b' + 1 = broker_remaining_capacity b"
  using assms
  by (auto simp: broker_enqueue_def enqueue_def task_ids_def broker_remaining_capacity_def remaining_capacity_def
      Task_transition_def Let_def domIff)

lemma submit_cron_succeeds:
  assumes ready: "poll_ready env null now g b" and "reg_ok r" and cap: "broker_remaining_capacity b \<noteq> 0"
    and "trg = TT_Cron (reg_name r) (c_source (reg_schedule r))"
  shows "\<exists>i g' b'. submit env null trg key null now g b = (Inr i, g', b') \<and> poll_ready env null now g' b'"
proof -
  let ?n = "ti_next_id g"
  let ?g = "g\<lparr>ti_next_id := ?n + 1\<rparr>"
  have inv: "ingress_inv env g b" and frames: "small_frames (be_rpc env) null"
    and next_id: "unat ?n + 1 < 2 ^ 64" using ready cap by (auto simp: poll_ready_def)
  note res = reserve_succeeds [OF next_id]
  obtain deadline where dl: "checked_add now (ti_request_timeout_ms ?g) = Some deadline"
    using ready by (auto simp: poll_ready_def checked_add_def)
  let ?t = "ingress_task null ?g ?n trg key null deadline"
  have "ucast ?n \<notin> broker_ids b"
    using inv unat_task_id [of ?n] by (auto simp: ingress_inv_def ids_fresh_def)
  then obtain b' where b': "broker_enqueue env ?t b = (Inr (), b')" "broker_remaining_capacity b' + 1 = broker_remaining_capacity b"
    using broker_enqueue_succeeds [of env ?t b] cron_task_deliverable [OF assms(2) frames] cap assms(4)
    by (auto simp: ingress_task_def with_input_def Task_new_def)
  have sub: "submit env null trg key null now g b = (Inr (ucast ?n), ?g, b')"
    using res(1) dl b'(1) by (simp add: submit_def)
  have "poll_ready env null now ?g b'"
    using submit_inv [OF sub inv] ready b'(2) res(2) by (auto simp: poll_ready_def)
  with sub show ?thesis by blast
qed

lemma cron_minute_succeeds:
  "poll_ready env null now g b \<Longrightarrow> \<forall>r \<in> set rs. reg_ok r \<Longrightarrow>
    \<exists>res g' b'. cron_minute env null now m rs k triggered g b = (Inr res, g', b') \<and> poll_ready env null now g' b'"
proof (induction rs arbitrary: k triggered g b)
  case (Cons r rs)
  show ?case
  proof (cases "matches_unix_ms (reg_schedule r) (of_nat (m * MINUTE_MS)) \<and> broker_remaining_capacity b \<noteq> 0")
    case False
    then show ?thesis using Cons by (auto simp: Let_def simp del: of_nat_mult)
  next
    case True
    obtain i g1 b1 where sub: "submit env null (TT_Cron (reg_name r) (c_source (reg_schedule r)))
        (Some (''cron:'' @ reg_name r @ '':'' @ nat_to_string m)) null now g b = (Inr i, g1, b1)" "poll_ready env null now g1 b1"
      using submit_cron_succeeds [OF Cons.prems(1), of r] Cons.prems(2) True by (metis list.set_intros(1))
    show ?thesis
      using Cons.IH [OF sub(2), of "Suc k"] Cons.prems(2) sub(1) True by (auto simp: Let_def simp del: of_nat_mult)
  qed
qed auto

lemma cron_loop_succeeds:
  "poll_ready env null now g b \<Longrightarrow> \<forall>r \<in> set (rg_cron (ti_registry g)). reg_ok r \<Longrightarrow>
    \<exists>t g' b'. cron_loop env null now m k triggered g b = (Inr t, g', b')"
proof (induction "Suc (unat now div 60000) - m" arbitrary: m k triggered g b rule: less_induct)
  case less
  show ?case
  proof (cases "m \<le> unat now div 60000")
    case False
    then show ?thesis by (subst cron_loop.simps) simp
  next
    case True
    have "m * 60000 \<le> unat now" using True by (simp add: less_eq_div_iff_mult_less_eq)
    then have clock: "m * 60000 < 2 ^ 64" using unsigned_less [of now, where ?'a = nat] by simp
    then have next_minute: "min (m + 1) (2 ^ 64 - 1) = Suc m" by simp
    have "\<forall>r \<in> set (drop k (rg_cron (ti_registry g))). reg_ok r" using less.prems(2) in_set_dropD by fast
    then obtain full k1 t1 g1 b1 where inner:
      "cron_minute env null now m (drop k (rg_cron (ti_registry g))) k triggered g b = (Inr (full, k1, t1), g1, b1)"
      and ready1: "poll_ready env null now g1 b1"
      using cron_minute_succeeds [OF less.prems(1), of "drop k (rg_cron (ti_registry g))" m k triggered] by auto
    have same: "ti_registry g1 = ti_registry g"
      using cron_minute_inv [OF inner] less.prems(1) by (simp add: poll_ready_def)
    show ?thesis
    proof (cases full)
      case True
      then show ?thesis using \<open>m \<le> unat now div 60000\<close> clock inner by (subst cron_loop.simps) simp
    next
      case False
      have "\<exists>t g' b'. cron_loop env null now (Suc m) 0 t1 g1 b1 = (Inr t, g', b')"
        using less.hyps [OF _ ready1, of "Suc m" 0 t1] less.prems(2) same True by simp
      then show ?thesis using True clock inner False next_minute by (subst cron_loop.simps) simp
    qed
  qed
qed

lemma poll_succeeds:
  assumes "poll_ready env null now g b" and "\<forall>r \<in> set (rg_cron (ti_registry g)). reg_ok r"
  shows "\<exists>t g' b'. enqueue_due_cron env null now g b = (Inr t, g', b')"
  using cron_loop_succeeds [OF assms] by (auto simp: enqueue_due_cron_def split: option.split)

lemma poll_exact:
  assumes poll: "enqueue_due_cron env null now g b = (Inr t, g', b')" and "cursor_ok g"
    and "poll_start now (ti_next_cron_position g) = Some p" and "regs = rg_cron (ti_registry g)"
  shows "\<exists>q. ti_next_cron_position g' = Some q \<and> cp_registration q \<le> length regs \<and>
    stretch regs (position_index regs p) (position_index regs q) [] t \<and> poll_stop regs now q b' \<and> ti_registry g' = ti_registry g"
proof -
  have loop: "cron_loop env null now (cp_minute p) (cp_registration p) [] g b = (Inr t, g', b')"
    using poll assms(3) by (simp add: enqueue_due_cron_def)
  note start = poll_start_ok [OF assms(3,2)]
  from cron_loop_spec [OF loop refl start(1)] start(2) assms(4) show ?thesis
    by (auto simp: position_index_def)
qed

subsection \<open>Properties\<close>

text \<open>C12. A poll does what is due. Take a task module whose declared tasks were accepted, in any reachable state of the
ingress and its broker, at a time where neither clock nor task numbers run out. Then a poll succeeds; what it triggers
is, in order, exactly what the calendar makes due between the position where it starts - its cursor, at most a day
back - and the one it leaves; and it stops early only at a due registration for which the queue is full.\<close>

theorem cron_poll_complete:
  assumes "decode_definitions parse json = Inr ds" and "from_definitions ds = Inr registry"
    and "ingress_reachable env null (g, b)" and "ti_registry g = registry" and "small_frames (be_rpc env) null"
    and "unat now + unat (ti_request_timeout_ms g) < 2 ^ 64"
    and "unat (ti_next_id g) + broker_remaining_capacity b < 2 ^ 64"
  shows "\<exists>triggered g' b'. enqueue_due_cron env null now g b = (Inr triggered, g', b') \<and>
    (case poll_start now (ti_next_cron_position g) of
       None \<Rightarrow> triggered = [] \<and> g' = g \<and> b' = b
     | Some p \<Rightarrow> \<exists>q. ti_next_cron_position g' = Some q \<and>
         map triggered_as triggered =
           map (slot_task (rg_cron registry))
             (due_slots (rg_cron registry) (position_index (rg_cron registry) p) (position_index (rg_cron registry) q)) \<and>
         poll_stop (rg_cron registry) now q b')"
proof -
  have inv: "ingress_inv env g b" "cursor_ok g" using ingress_reachable_inv [OF assms(3)] by simp_all
  show ?thesis
  proof (cases "poll_start now (ti_next_cron_position g)")
    case None
    then show ?thesis by (simp add: enqueue_due_cron_def)
  next
    case (Some p)
    have "poll_ready env null now g b" using inv(1) assms(5-7) by (simp add: poll_ready_def)
    then obtain t g' b' where poll: "enqueue_due_cron env null now g b = (Inr t, g', b')"
      using poll_succeeds declared_registrations_ok [OF assms(1,2)] assms(4) by metis
    from poll_exact [OF poll inv(2) Some, of "rg_cron registry"] assms(4) show ?thesis
      using poll Some by (auto simp: stretch_def)
  qed
qed

text \<open>C13. Task numbers are never reused. In every reachable state of the ingress and its broker, all tasks of the broker
have numbers below the next one to be given out; so no submission - of a message, a tool call or a due schedule - is
ever refused as a duplicate, and none touches a task that exists.\<close>

theorem task_ids_never_reused:
  assumes "ingress_reachable env null (g, b)" and "submit env null trg key input now g b = (r, g', b')"
  shows "(\<forall>i \<in> broker_ids b. unat i < unat (ti_next_id g)) \<and> r \<noteq> Inl (TE_Broker (BE_Scheduler (SE_Duplicate i))) \<and>
    (\<forall>i. r = Inr i \<longrightarrow> i \<notin> broker_ids b \<and> i \<in> broker_ids b') \<and>
    (\<forall>i \<in> broker_ids b. broker_task b' i = broker_task b i)"
proof -
  have inv: "ingress_inv env g b" using ingress_reachable_inv [OF assms(1)] by simp
  then have fresh: "\<forall>i \<in> broker_ids b. unat i < unat (ti_next_id g)" by (simp add: ingress_inv_def ids_fresh_def)
  then have new_id: "ucast (ti_next_id g) \<notin> broker_ids b" using unat_task_id [of "ti_next_id g"] by auto
  show ?thesis
  proof (cases "\<exists>n g1 deadline. reserve_task_ids 1 g = (Inr n, g1) \<and> checked_add now (ti_request_timeout_ms g1) = Some deadline")
    case False
    then have "b' = b" "r \<in> {Inl TE_TaskIdExhausted, Inl TE_Clock}"
      using assms(2) by (auto simp: submit_def reserve_task_ids_def split: prod.split_asm sum.split_asm option.split_asm if_split_asm)
    then show ?thesis using fresh by auto
  next
    case True
    then obtain n g1 deadline where res: "reserve_task_ids 1 g = (Inr n, g1)"
      and dl: "checked_add now (ti_request_timeout_ms g1) = Some deadline" by blast
    let ?t = "ingress_task null g1 n trg key input deadline"
    obtain r2 b2 where e: "broker_enqueue env ?t b = (r2, b2)" by (meson surj_pair)
    have r: "b' = b2" "r = (case r2 of Inl e \<Rightarrow> Inl (TE_Broker e) | Inr _ \<Rightarrow> Inr (ucast n))"
      using assms(2) res dl e by (cases r2; simp add: submit_def)+
    have i: "task_ident ?t = ucast n" "ucast n \<notin> broker_ids b"
      using new_id reserve_one [OF res] by (simp_all add: ingress_task_def with_input_def Task_new_def)
    have "r2 \<noteq> Inl (BE_Scheduler (SE_Duplicate j))" "\<forall>u. r2 = Inr u \<longrightarrow> ucast n \<in> broker_ids b2"
      "\<forall>j \<in> broker_ids b. broker_task b2 j = broker_task b j" for j
      using e i by (auto simp: broker_enqueue_def enqueue_def deliverable_def task_ids_def update_conv' broker_task_def sched_get_def
          Let_def result_simps domIff split: sum.split_asm prod.split_asm if_split_asm)
    then show ?thesis using r i(2) fresh by (auto split: sum.split_asm)
  qed
qed

text \<open>Runs of the ingress with the list of what its polls have triggered: successful polls, each less than a day behind its
cursor, interleaved with submissions of messages and tool calls and with anything the broker does.\<close>

definition timely :: "u64 \<Rightarrow> TaskIngress \<Rightarrow> bool" where
  "timely now g \<longleftrightarrow> (\<forall>p. ti_next_cron_position g = Some p \<longrightarrow> unat now div 60000 < cp_minute p + MAX_CRON_CATCH_UP_MINUTES)"

inductive cron_run ::
  "'v broker_env \<Rightarrow> 'v \<Rightarrow> TaskIngress \<times> 'v TaskRpcBroker \<Rightarrow> TriggeredTask list \<Rightarrow> TaskIngress \<times> 'v TaskRpcBroker \<Rightarrow> bool"
  for env null s where
  start: "cron_run env null s [] s"
| poll: "cron_run env null s log (g, b) \<Longrightarrow> timely now g \<Longrightarrow> enqueue_due_cron env null now g b = (Inr t, g', b') \<Longrightarrow>
    cron_run env null s (log @ t) (g', b')"
| queue: "cron_run env null s log (g, b) \<Longrightarrow> enqueue_queue env null q mid input now g b = (r, g', b') \<Longrightarrow>
    cron_run env null s log (g', b')"
| mcp: "cron_run env null s log (g, b) \<Longrightarrow> enqueue_mcp env null tool input now g b = (r, g', b') \<Longrightarrow>
    cron_run env null s log (g', b')"
| broker: "cron_run env null s log (g, b) \<Longrightarrow> broker_step env b b' \<Longrightarrow> cron_run env null s log (g, b')"

definition log_exact :: "CronRegistration list \<Rightarrow> TriggeredTask list \<Rightarrow> CronPosition option \<Rightarrow> bool" where
  "log_exact regs log cursor \<longleftrightarrow>
     (case cursor of None \<Rightarrow> log = [] | Some p \<Rightarrow> \<exists>m. stretch regs (m * length regs) (position_index regs p) [] log)"

lemma enqueue_frame:
  "enqueue_queue env null q mid input now g b = (r, g', b') \<Longrightarrow>
    ti_registry g' = ti_registry g \<and> ti_next_cron_position g' = ti_next_cron_position g"
  "enqueue_mcp env null tool input now g b = (r, g', b') \<Longrightarrow>
    ti_registry g' = ti_registry g \<and> ti_next_cron_position g' = ti_next_cron_position g"
  by (auto simp: enqueue_queue_def enqueue_mcp_def dest: submit_frame split: option.split_asm if_split_asm)

lemma stretch_log: "stretch regs a z [] t \<Longrightarrow> stretch regs a z log (log @ t)"
  by (simp add: stretch_def)

lemma poll_log_exact:
  assumes poll: "enqueue_due_cron env null now g b = (Inr t, g', b')" and ok: "cursor_ok g" and "timely now g"
    and log: "log_exact (rg_cron (ti_registry g)) log (ti_next_cron_position g)"
  shows "ti_registry g' = ti_registry g \<and> cursor_ok g' \<and>
    log_exact (rg_cron (ti_registry g)) (log @ t) (ti_next_cron_position g')"
proof (cases "poll_start now (ti_next_cron_position g)")
  case None
  then show ?thesis using poll ok log by (simp add: enqueue_due_cron_def)
next
  case (Some p)
  let ?regs = "rg_cron (ti_registry g)"
  obtain q where q: "ti_next_cron_position g' = Some q" "cp_registration q \<le> length ?regs"
    "stretch ?regs (position_index ?regs p) (position_index ?regs q) [] t" "ti_registry g' = ti_registry g"
    using poll_exact [OF poll ok Some refl] by blast
  have "\<exists>m. stretch ?regs (m * length ?regs) (position_index ?regs p) [] log"
  proof (cases "ti_next_cron_position g")
    case None
    then have "log = []" "p = \<lparr>cp_minute = unat now div 60000, cp_registration = 0\<rparr>"
      using log Some by (simp_all add: log_exact_def poll_start_def Let_def)
    then show ?thesis by (auto simp: position_index_def intro: stretch_refl)
  next
    case c: (Some c)
    then have "p = c"
      using Some assms(3) by (auto simp: poll_start_def timely_def MAX_CRON_CATCH_UP_MINUTES_def Let_def split: if_split_asm)
    then show ?thesis using log c by (simp add: log_exact_def)
  qed
  then obtain m where "stretch ?regs (m * length ?regs) (position_index ?regs p) [] log" by blast
  from stretch_trans [OF this stretch_log [OF q(3)]] show ?thesis
    using q by (auto simp: log_exact_def cursor_ok_def)
qed


subsection \<open>A module with one task\<close>

definition demo_definitions :: "ModuleTaskDefinition list" where
  "demo_definitions = [\<lparr>md_name = ''tick'', md_kind = MK_Cron ''* * * * *''\<rparr>]"

lemma demo_decode: "decode_definitions (\<lambda>_. Inr demo_definitions) ''[]'' = Inr demo_definitions"
  by (simp add: decode_definitions_def demo_definitions_def validate_definition_def module_validate_identifier_def validate_field_def
      MAX_TASK_METADATA_BYTES_def MAX_MODULE_TASKS_def MAX_TASK_NAME_BYTES_def)

definition demo_registry :: TaskRegistry where
  "demo_registry = (case from_definitions demo_definitions of Inr r \<Rightarrow> r | Inl _ \<Rightarrow> \<lparr>rg_cron = [], rg_queues = [], rg_mcp_tools = []\<rparr>)"

lemma demo_registered: "from_definitions demo_definitions = Inr demo_registry" "length (rg_cron demo_registry) = 1"
proof -
  have "case CronExpression_parse ''* * * * *'' of Inl _ \<Rightarrow> False | Inr _ \<Rightarrow> True" by code_simp
  then obtain e where "CronExpression_parse ''* * * * *'' = Inr e" by (auto split: sum.split_asm)
  then show "from_definitions demo_definitions = Inr demo_registry" "length (rg_cron demo_registry) = 1"
    by (simp_all add: demo_registry_def from_definitions_def demo_definitions_def)
qed

definition demo_ingress :: TaskIngress where
  "demo_ingress = \<lparr>ti_registry = demo_registry, ti_application_id = ''app'', ti_next_id = 10, ti_next_cron_position = None,
     ti_request_timeout_ms = 5000\<rparr>"

definition demo_empty :: "unit TaskRpcBroker" where
  "demo_empty = demo_broker (demo_sched [] [] [] []) []"

lemma demo_started:
  "TaskIngress_new demo_registry ''app'' 10 5000 = Inr demo_ingress" "broker_new 2 = Inr demo_empty"
  "ingress_reachable demo_benv () (demo_ingress, demo_empty)"
proof -
  show new: "TaskIngress_new demo_registry ''app'' 10 5000 = Inr demo_ingress" "broker_new 2 = Inr demo_empty"
    by (simp_all add: TaskIngress_new_def demo_ingress_def broker_new_def Scheduler_new_def demo_empty_def demo_broker_def demo_sched_def)
  show "ingress_reachable demo_benv () (demo_ingress, demo_empty)" by (rule ingress_reachable.new [OF new])
qed

lemma demo_small: "small_frames (be_rpc demo_benv) ()"
  by (simp add: small_frames_def rpc_limits)

lemma demo_capacity: "broker_remaining_capacity demo_empty = 2"
  by (simp add: broker_remaining_capacity_def remaining_capacity_def demo_empty_def demo_broker_def demo_sched_def)

theorem cron_poll_complete_witness:
  "\<exists>triggered g b q. enqueue_due_cron demo_benv () 60000 demo_ingress demo_empty = (Inr triggered, g, b) \<and>
    ti_next_cron_position g = Some q \<and>
    map triggered_as triggered =
      map (slot_task (rg_cron demo_registry)) (due_slots (rg_cron demo_registry) 1 (position_index (rg_cron demo_registry) q))"
proof -
  have "poll_start 60000 (ti_next_cron_position demo_ingress) = Some \<lparr>cp_minute = 1, cp_registration = 0\<rparr>"
    by (simp add: poll_start_def demo_ingress_def Let_def)
  then show ?thesis
    using cron_poll_complete [OF demo_decode demo_registered(1) demo_started(3) _ demo_small, of 60000] demo_registered(2)
    by (auto simp: demo_capacity) (auto simp: demo_ingress_def position_index_def)
qed

theorem task_ids_never_reused_witness:
  "\<exists>r g b. submit demo_benv () (TT_Mcp ''lookup'') None () 5 demo_ingress demo_empty = (r, g, b) \<and>
    r \<noteq> Inl (TE_Broker (BE_Scheduler (SE_Duplicate 10)))"
  using task_ids_never_reused [OF demo_started(3)] by (metis prod_cases3)


end
