(* ===== verification/Source_Map.thy ===== *)
theory Source_Map
  imports Tysel_Text
begin

unbundle bit_operations_syntax

text \<open>
  Source maps (\<^verbatim>\<open>crates/tysel-package/src/sourcemap.rs\<close>): the VLQ encoding, the incremental writer, the
  parser of mappings, the lookup by binary search, and the rewriting of stack traces. The file around the
  mappings is JSON, whose encoding is a parameter. Signed 64-bit sums are checked: where a build with
  overflow checks stops, the model returns \<open>PE_Panic\<close>.
\<close>

subsection \<open>Data\<close>

datatype PackageError =
    PE_Io
  | PE_Invalid string
  | PE_MissingPayload
  | PE_Version u32
  | PE_Json
  | PE_Panic

record Mapping =
  mp_generated_line :: u32
  mp_generated_column :: u32
  mp_source_index :: u32
  mp_original_line :: u32
  mp_original_column :: u32

record SourceMapFile =
  smf_version :: u32
  smf_file :: "string option"
  smf_sources :: "string list"
  smf_sources_content :: "string option list"
  smf_mappings :: string

record SourceMap =
  sm_file :: "string option"
  sm_sources :: "string list"
  sm_sources_content :: "string option list"
  sm_mappings :: "Mapping list"

record OriginalPosition =
  op_source :: string
  op_line :: u32
  op_column :: u32
  op_content :: "string option"

record OriginalLocation =
  ol_source :: string
  ol_line :: u32
  ol_column :: u32

subsection \<open>Base 64 VLQ\<close>

definition b64 :: "char \<Rightarrow> nat option" where
  "b64 digit =
     (if is_ascii_uppercase digit then Some (byte_val digit - 65)
      else if is_ascii_lowercase digit then Some (byte_val digit - 97 + 26)
      else if is_ascii_digit digit then Some (byte_val digit - 48 + 52)
      else if digit = CHR ''+'' then Some 62
      else if digit = CHR ''/'' then Some 63
      else None)"

definition b64_char :: "nat \<Rightarrow> char" where
  "b64_char digit =
     ''ABCDEFGHIJKLMNOPQRSTUVWXYZabcdefghijklmnopqrstuvwxyz0123456789+/'' ! (digit mod 64)"

text \<open>The loop of \<open>encode_vlq\<close> on a non-negative number, and its start; the callers pass differences of
  32-bit values, for which the 64-bit arithmetic is exact.\<close>

fun encode_digits :: "nat \<Rightarrow> string" where
  "encode_digits vlq =
     (if vlq div 32 = 0 then [b64_char (vlq mod 32)]
      else b64_char (vlq mod 32 + 32) # encode_digits (vlq div 32))"

declare encode_digits.simps [simp del]

definition encode_vlq :: "int \<Rightarrow> string" where
  "encode_vlq value = encode_digits (nat (if value < 0 then 2 * (- value) + 1 else 2 * value))"

text \<open>The loop of \<open>decode_vlq\<close>. Shifting an \<open>i64\<close> by 64 or more is an overflow; a smaller shift drops the
  bits that do not fit.\<close>

fun decode_loop :: "nat \<Rightarrow> u64 \<Rightarrow> string \<Rightarrow> (PackageError, u64 \<times> string) result" where
  "decode_loop shift res [] = Inl (PE_Invalid ''truncated vlq'')"
| "decode_loop shift res (digit # bytes) =
     rbind (ok_or (b64 digit) (PE_Invalid ''invalid vlq digit'')) (\<lambda>v.
     if 64 \<le> shift then Inl PE_Panic
     else
       let res' = res OR push_bit shift (of_nat (v mod 32)) in
       if v < 32 then Inr (res', bytes) else decode_loop (shift + 5) res' bytes)"

definition decode_vlq :: "string \<Rightarrow> (PackageError, int \<times> string) result" where
  "decode_vlq bytes =
     rbind (decode_loop 0 0 bytes) (\<lambda>(res, bytes).
       Inr (if odd (sint res) then - (sint res div 2) else sint res div 2, bytes))"

lemma decode_loop_shorter: "decode_loop shift res bytes = Inr (r, rest) \<Longrightarrow> length rest < length bytes"
  by (induction shift res bytes rule: decode_loop.induct)
    (auto simp: result_simps Let_def split: if_split_asm, force)

lemma decode_vlq_shorter: "decode_vlq bytes = Inr (v, rest) \<Longrightarrow> length rest < length bytes"
  by (auto simp: decode_vlq_def result_simps dest: decode_loop_shorter)

subsection \<open>Parsing\<close>

definition i64_add :: "int \<Rightarrow> int \<Rightarrow> (PackageError, int) result" where
  "i64_add a b = (if - (2 ^ 63) \<le> a + b \<and> a + b < 2 ^ 63 then Inr (a + b) else Inl PE_Panic)"

record map_state =
  ms_generated_column :: int
  ms_source_index :: int
  ms_original_line :: int
  ms_original_column :: int

definition clamp_u32 :: "int \<Rightarrow> u32" where
  "clamp_u32 i = word_of_int (max i 0)"

definition state_mapping :: "nat \<Rightarrow> map_state \<Rightarrow> Mapping" where
  "state_mapping generated_line st =
     \<lparr>mp_generated_line = of_nat generated_line,
      mp_generated_column = clamp_u32 (ms_generated_column st),
      mp_source_index = clamp_u32 (ms_source_index st),
      mp_original_line = clamp_u32 (ms_original_line st),
      mp_original_column = clamp_u32 (ms_original_column st)\<rparr>"

text \<open>One segment: four numbers, and the comma after them if there is one.\<close>

fun skip_comma :: "string \<Rightarrow> string" where
  "skip_comma [] = []"
| "skip_comma (b # bytes) = (if b = CHR '','' then bytes else b # bytes)"

lemma skip_comma_length: "length (skip_comma bytes) \<le> length bytes"
  by (cases bytes) auto

definition parse_segment :: "map_state \<Rightarrow> string \<Rightarrow> (PackageError, map_state \<times> string) result" where
  "parse_segment st bytes =
     rbind (decode_vlq bytes) (\<lambda>(d1, bytes). rbind (i64_add (ms_generated_column st) d1) (\<lambda>generated_column.
     rbind (decode_vlq bytes) (\<lambda>(d2, bytes). rbind (i64_add (ms_source_index st) d2) (\<lambda>source_index.
     rbind (decode_vlq bytes) (\<lambda>(d3, bytes). rbind (i64_add (ms_original_line st) d3) (\<lambda>original_line.
     rbind (decode_vlq bytes) (\<lambda>(d4, bytes). rbind (i64_add (ms_original_column st) d4) (\<lambda>original_column.
       Inr (\<lparr>ms_generated_column = generated_column, ms_source_index = source_index,
             ms_original_line = original_line, ms_original_column = original_column\<rparr>,
            skip_comma bytes)))))))))"

lemma parse_segment_shorter: "parse_segment st bytes = Inr (st', rest) \<Longrightarrow> length rest < length bytes"
  using skip_comma_length
  by (fastforce simp: parse_segment_def result_simps dest!: decode_vlq_shorter intro: le_less_trans)

function parse_line ::
  "nat \<Rightarrow> map_state \<Rightarrow> string \<Rightarrow> (PackageError, Mapping list \<times> map_state) result" where
  "parse_line generated_line st bytes =
     (if bytes = [] then Inr ([], st)
      else
      rbind (parse_segment st bytes) (\<lambda>(st', rest).
      rbind (parse_line generated_line st' rest) (\<lambda>(out, st'').
        Inr (state_mapping generated_line st' # out, st''))))"
  by pat_completeness auto
termination
  by (relation "measure (length \<circ> snd \<circ> snd)") (auto dest: parse_segment_shorter)

declare parse_line.simps [simp del]

fun parse_lines :: "nat \<Rightarrow> map_state \<Rightarrow> string list \<Rightarrow> (PackageError, Mapping list) result" where
  "parse_lines generated_line st [] = Inr []"
| "parse_lines generated_line st (line # ls) =
     rbind (parse_line generated_line (st\<lparr>ms_generated_column := 0\<rparr>) line) (\<lambda>(out, st').
     rbind (parse_lines (Suc generated_line) st' ls) (\<lambda>out'. Inr (out @ out')))"

definition map_state_init :: map_state where
  "map_state_init = \<lparr>ms_generated_column = 0, ms_source_index = 0, ms_original_line = 0, ms_original_column = 0\<rparr>"

definition parse_mappings :: "string \<Rightarrow> (PackageError, Mapping list) result" where
  "parse_mappings mappings = parse_lines 0 map_state_init (split_on (CHR '';'') mappings)"

definition SourceMap_parse :: "SourceMapFile json_codec \<Rightarrow> string \<Rightarrow> (PackageError, SourceMap) result" where
  "SourceMap_parse codec json =
     rbind (ok_or (jc_from_slice codec json) PE_Json) (\<lambda>file.
     if smf_version file \<noteq> 3 then Inl (PE_Invalid ''unsupported source map version'')
     else
     rbind (parse_mappings (smf_mappings file)) (\<lambda>mappings.
       Inr \<lparr>sm_file = smf_file file, sm_sources = smf_sources file,
            sm_sources_content = smf_sources_content file, sm_mappings = mappings\<rparr>))"

subsection \<open>Writing\<close>

record SourceMapWriter =
  sw_mappings :: string
  sw_need_comma :: bool
  sw_gen_col :: int
  sw_source :: int
  sw_orig_line :: int
  sw_orig_col :: int

definition SourceMapWriter_new :: SourceMapWriter where
  "SourceMapWriter_new = \<lparr>sw_mappings = [], sw_need_comma = False, sw_gen_col = 0, sw_source = 0,
     sw_orig_line = 0, sw_orig_col = 0\<rparr>"

definition end_line :: "SourceMapWriter \<Rightarrow> SourceMapWriter" where
  "end_line w = w\<lparr>sw_mappings := sw_mappings w @ '';'', sw_gen_col := 0, sw_need_comma := False\<rparr>"

definition writer_add :: "SourceMapWriter \<Rightarrow> u32 \<Rightarrow> u32 \<Rightarrow> u32 \<Rightarrow> u32 \<Rightarrow> SourceMapWriter" where
  "writer_add w generated_column source_index original_line original_column =
     \<lparr>sw_mappings = sw_mappings w @ (if sw_need_comma w then '','' else [])
        @ encode_vlq (uint generated_column - sw_gen_col w) @ encode_vlq (uint source_index - sw_source w)
        @ encode_vlq (uint original_line - sw_orig_line w) @ encode_vlq (uint original_column - sw_orig_col w),
      sw_need_comma = True, sw_gen_col = uint generated_column, sw_source = uint source_index,
      sw_orig_line = uint original_line, sw_orig_col = uint original_column\<rparr>"

definition into_json ::
  "SourceMapFile json_codec \<Rightarrow> SourceMapWriter \<Rightarrow> string \<Rightarrow> string list \<Rightarrow> string list \<Rightarrow> (PackageError, string) result" where
  "into_json codec w file sources sources_content =
     ok_or (jc_to_vec codec \<lparr>smf_version = 3, smf_file = Some file, smf_sources = sources,
       smf_sources_content = map Some sources_content, smf_mappings = sw_mappings w\<rparr>) PE_Json"

subsection \<open>Lookup\<close>

text \<open>\<open>partition_point\<close> of the standard library, by binary search: the size of the range left and its
  start. It inspects the middle element and keeps the right half exactly when the predicate holds there.\<close>

function partition_point_loop :: "('a \<Rightarrow> bool) \<Rightarrow> 'a list \<Rightarrow> nat \<Rightarrow> nat \<Rightarrow> nat" where
  "partition_point_loop P xs base n =
     (if n = 0 then base
      else
        let mid = base + n div 2 in
        if P (xs ! mid) then partition_point_loop P xs (Suc mid) (n - n div 2 - 1)
        else partition_point_loop P xs base (n div 2))"
  by pat_completeness auto
termination
  by (relation "measure (\<lambda>(_, _, _, n). n)") auto

declare partition_point_loop.simps [simp del]

definition partition_point :: "('a \<Rightarrow> bool) \<Rightarrow> 'a list \<Rightarrow> nat" where
  "partition_point P xs = partition_point_loop P xs 0 (length xs)"

definition lookup_mapping :: "SourceMap \<Rightarrow> u32 \<Rightarrow> u32 \<Rightarrow> Mapping option" where
  "lookup_mapping sm generated_line generated_column =
     (let line_start = partition_point (\<lambda>m. mp_generated_line m < generated_line) (sm_mappings sm);
          line_end = partition_point (\<lambda>m. mp_generated_line m \<le> generated_line) (sm_mappings sm) in
      if line_start \<le> line_end \<and> line_end \<le> length (sm_mappings sm)
      then
        let line = drop line_start (take line_end (sm_mappings sm));
            column_end = partition_point (\<lambda>m. mp_generated_column m \<le> generated_column) line in
        if 1 \<le> column_end \<and> column_end - 1 < length line then Some (line ! (column_end - 1)) else None
      else None)"

definition vec_at :: "'a list \<Rightarrow> nat \<Rightarrow> 'a option" where
  "vec_at xs i = (if i < length xs then Some (xs ! i) else None)"

definition saturating_pred :: "u32 \<Rightarrow> u32" where
  "saturating_pred w = (if w = 0 then 0 else w - 1)"

text \<open>\<open>+ 1\<close> on a 32-bit number.\<close>

definition u32_succ :: "u32 \<Rightarrow> (PackageError, u32) result" where
  "u32_succ w = ok_or (checked_add w 1) PE_Panic"

definition original_position ::
  "SourceMap \<Rightarrow> u32 \<Rightarrow> u32 \<Rightarrow> (PackageError, OriginalPosition option) result" where
  "original_position sm line column =
     (case lookup_mapping sm (saturating_pred line) (saturating_pred column) of
        None \<Rightarrow> Inr None
      | Some m \<Rightarrow>
          (case vec_at (sm_sources sm) (unat (mp_source_index m)) of
             None \<Rightarrow> Inr None
           | Some source \<Rightarrow>
               rbind (u32_succ (mp_original_line m)) (\<lambda>l. rbind (u32_succ (mp_original_column m)) (\<lambda>c.
                 Inr (Some \<lparr>op_source = source, op_line = l, op_column = c,
                   op_content = (case vec_at (sm_sources_content sm) (unat (mp_source_index m)) of
                     None \<Rightarrow> None | Some content \<Rightarrow> content)\<rparr>)))))"

text \<open>Stack traces. A frame names the bundle as \<open>app.js:line:column\<close>.\<close>

definition parse_stack_number :: "string \<Rightarrow> (u32 \<times> string) option" where
  "parse_stack_number s =
     (let digits = takeWhile is_ascii_digit s in
      if digits = [] then None
      else map_option (\<lambda>n. (of_nat n, dropWhile is_ascii_digit s)) (parse_decimal 32 digits))"

definition symbolicate_line :: "SourceMap \<Rightarrow> string \<Rightarrow> (PackageError, string) result" where
  "symbolicate_line sm line =
     (case str_find ''app.js:'' line of None \<Rightarrow> Inr line
      | Some marker \<Rightarrow> (case parse_stack_number (drop (marker + 7) line) of None \<Rightarrow> Inr line
      | Some (generated_line, rest) \<Rightarrow> (case strip_prefix '':'' rest of None \<Rightarrow> Inr line
      | Some rest \<Rightarrow> (case parse_stack_number rest of None \<Rightarrow> Inr line
      | Some (generated_column, _) \<Rightarrow>
          (case lookup_mapping sm (saturating_pred generated_line) (saturating_pred generated_column) of
             None \<Rightarrow> Inr line
      | Some mapping \<Rightarrow> (case vec_at (sm_sources sm) (unat (mp_source_index mapping)) of None \<Rightarrow> Inr line
      | Some source \<Rightarrow>
          rbind (u32_succ (mp_original_line mapping)) (\<lambda>l. rbind (u32_succ (mp_original_column mapping)) (\<lambda>c.
            let original = source @ '':'' @ nat_to_string (unat l) @ '':'' @ nat_to_string (unat c);
                token_len = 7 + length (nat_to_string (unat generated_line)) + 1
                  + length (nat_to_string (unat generated_column)) in
            Inr (take marker line @ original @ drop (marker + token_len) line)))))))))"

definition symbolicate_stack :: "SourceMap \<Rightarrow> string \<Rightarrow> (PackageError, string) result" where
  "symbolicate_stack sm stack =
     rbind (collect_results (symbolicate_line sm) (str_lines stack)) (\<lambda>ls. Inr (join_with newline ls))"

definition line_location :: "SourceMap \<Rightarrow> string \<Rightarrow> (PackageError, OriginalLocation option) result" where
  "line_location sm line =
     (case str_find ''app.js:'' line of None \<Rightarrow> Inr None
      | Some marker \<Rightarrow> (case parse_stack_number (drop (marker + 7) line) of None \<Rightarrow> Inr None
      | Some (generated_line, rest) \<Rightarrow> (case strip_prefix '':'' rest of None \<Rightarrow> Inr None
      | Some rest \<Rightarrow> (case parse_stack_number rest of None \<Rightarrow> Inr None
      | Some (generated_column, _) \<Rightarrow>
          (case lookup_mapping sm (saturating_pred generated_line) (saturating_pred generated_column) of
             None \<Rightarrow> Inr None
      | Some mapping \<Rightarrow> (case vec_at (sm_sources sm) (unat (mp_source_index mapping)) of None \<Rightarrow> Inr None
      | Some source \<Rightarrow>
          rbind (u32_succ (mp_original_line mapping)) (\<lambda>l. rbind (u32_succ (mp_original_column mapping)) (\<lambda>c.
            Inr (Some \<lparr>ol_source = source, ol_line = l, ol_column = c\<rparr>)))))))))"

fun find_location :: "SourceMap \<Rightarrow> string list \<Rightarrow> (PackageError, OriginalLocation option) result" where
  "find_location sm [] = Inr None"
| "find_location sm (line # ls) =
     rbind (line_location sm line) (\<lambda>found.
       case found of None \<Rightarrow> find_location sm ls | Some location \<Rightarrow> Inr (Some location))"

definition first_original_position :: "SourceMap \<Rightarrow> string \<Rightarrow> (PackageError, OriginalLocation option) result" where
  "first_original_position sm stack = find_location sm (str_lines stack)"

text \<open>The map of a bundle that is its only source: each line starts with its own line.\<close>

definition identity_source_map ::
  "SourceMapFile json_codec \<Rightarrow> string \<Rightarrow> string \<Rightarrow> (PackageError, string) result" where
  "identity_source_map codec source_path source =
     (let line_count = max (length (str_lines source)) 1;
          mappings = concat (map (\<lambda>index. if index = 0 then ''AAAA'' else '';AACA'') [0..<line_count]) in
      ok_or (jc_to_vec codec \<lparr>smf_version = 3, smf_file = Some ''app.js'', smf_sources = [source_path],
        smf_sources_content = [Some source], smf_mappings = mappings\<rparr>) PE_Json)"

subsection \<open>VLQ round trip\<close>

lemma b64_b64_char: "d < 64 \<Longrightarrow> b64 (b64_char d) = Some d"
proof -
  let ?alphabet = "''ABCDEFGHIJKLMNOPQRSTUVWXYZabcdefghijklmnopqrstuvwxyz0123456789+/''"
  assume d: "d < 64"
  have "map b64 ?alphabet = map Some [0..<64]" by code_simp
  then have "map b64 ?alphabet ! d = map Some [0..<64] ! d" by (rule arg_cong)
  moreover have "length ?alphabet = 64" by simp
  ultimately show ?thesis using d by (simp only: b64_char_def mod_less nth_map length_upt nth_upt add_0 minus_nat.diff_0)
qed

lemma or_push_bit_add:
  assumes "r < 2 ^ shift"
  shows "(of_nat r :: u64) OR push_bit shift (of_nat v) = of_nat (r + v * 2 ^ shift)"
proof -
  have "\<not> bit (of_nat r :: u64) k \<or> \<not> bit (push_bit shift (of_nat v) :: u64) k" for k
  proof (cases "k < shift")
    case False
    then have "2 ^ shift \<le> (2 :: nat) ^ k" by simp
    then have "r div 2 ^ k = 0" using assms by (intro div_less) linarith
    then have "\<not> bit r k" by (simp add: bit_iff_odd)
    then show ?thesis by (simp add: bit_of_nat_iff)
  qed (simp add: bit_push_bit_iff)
  then have "(of_nat r :: u64) + push_bit shift (of_nat v) = of_nat r OR push_bit shift (of_nat v)"
    by (rule disjunctive_add)
  then show ?thesis by (simp add: push_bit_eq_mult)
qed

lemma decode_loop_encode_digits:
  assumes "n * 2 ^ shift < 2 ^ 64" "shift < 64" "r < 2 ^ shift"
  shows "decode_loop shift (of_nat r) (encode_digits n @ rest) = Inr (of_nat (r + n * 2 ^ shift), rest)"
  using assms
proof (induction n arbitrary: shift r rule: encode_digits.induct)
  case (1 n)
  show ?case
  proof (cases "n div 32 = 0")
    case True
    then have "n < 32" by simp
    then show ?thesis using 1 True
      by (simp add: encode_digits.simps [of n] b64_b64_char or_push_bit_add Let_def)
  next
    case False
    have n: "n = n mod 32 + 32 * (n div 32)" by simp
    have "n div 32 * 2 ^ (shift + 5) = 32 * (n div 32) * 2 ^ shift" by (simp add: power_add)
    also have "\<dots> \<le> n * 2 ^ shift" by (rule mult_le_mono1) (rule times_div_less_eq_dividend)
    finally have bound: "n div 32 * 2 ^ (shift + 5) < 2 ^ 64" using "1.prems"(1) by linarith
    have "2 ^ (shift + 5) \<le> n div 32 * 2 ^ (shift + 5)" using False by simp
    then have "(2 :: nat) ^ (shift + 5) < 2 ^ 64" using bound by linarith
    then have shift: "shift + 5 < 64" by (rule power_less_imp_less_exp [rotated]) simp
    have r: "r + n mod 32 * 2 ^ shift < 2 ^ (shift + 5)"
    proof -
      have "n mod 32 \<le> 31" using mod_less_divisor [of 32 n] by linarith
      then have "n mod 32 * 2 ^ shift \<le> 31 * 2 ^ shift" by (rule mult_le_mono1)
      moreover have "(2 :: nat) ^ (shift + 5) = 32 * 2 ^ shift" by (simp add: power_add)
      ultimately show ?thesis using "1.prems"(3) by linarith
    qed
    have total: "r + n mod 32 * 2 ^ shift + n div 32 * 2 ^ (shift + 5) = r + n * 2 ^ shift"
    proof -
      have "a * p + b * (p * 32) = (a + 32 * b) * p" for a b p :: nat by (simp add: algebra_simps)
      from this [of "n mod 32" "2 ^ shift" "n div 32"] n show ?thesis by (simp add: power_add)
    qed
    from "1.IH" [OF False bound shift r] show ?thesis using False "1.prems"(2,3)
      by (simp add: encode_digits.simps [of n] b64_b64_char or_push_bit_add Let_def total)
  qed
qed

lemma decode_vlq_encode_vlq:
  assumes "\<bar>value\<bar> < 2 ^ 62"
  shows "decode_vlq (encode_vlq value @ rest) = Inr (value, rest)"
proof -
  define n where "n = nat (if value < 0 then 2 * (- value) + 1 else 2 * value)"
  have n: "n < 2 ^ 63" using assms by (auto simp: n_def nat_less_iff)
  then have "sint (of_nat n :: u64) = int n"
    by (simp add: sint_uint unsigned_of_nat take_bit_nat_eq_self signed_take_bit_int_eq_self)
  moreover have "decode_loop 0 (of_nat 0) (encode_digits n @ rest) = Inr (of_nat (0 + n * 2 ^ 0), rest)"
    by (rule decode_loop_encode_digits) (use n in simp_all)
  moreover have "(if odd (int n) then - (int n div 2) else int n div 2) = value"
    by (auto simp: n_def)
  ultimately show ?thesis
    by (auto simp: decode_vlq_def encode_vlq_def n_def [symmetric] split: if_split_asm)
qed

subsection \<open>What is written is read back\<close>

datatype writer_op = Add u32 u32 u32 u32 | EndLine

fun writer_step :: "writer_op \<Rightarrow> SourceMapWriter \<Rightarrow> SourceMapWriter" where
  "writer_step (Add c s l k) w = writer_add w c s l k"
| "writer_step EndLine w = end_line w"

definition run_writer :: "writer_op list \<Rightarrow> SourceMapWriter" where
  "run_writer ops = fold writer_step ops SourceMapWriter_new"

text \<open>The mappings that a sequence of writer operations stands for.\<close>

fun recorded :: "nat \<Rightarrow> writer_op list \<Rightarrow> Mapping list" where
  "recorded line [] = []"
| "recorded line (Add c s l k # ops) =
     \<lparr>mp_generated_line = of_nat line, mp_generated_column = c, mp_source_index = s,
      mp_original_line = l, mp_original_column = k\<rparr> # recorded line ops"
| "recorded line (EndLine # ops) = recorded (Suc line) ops"

text \<open>The text of the operations, line by line.\<close>

definition segment :: "SourceMapWriter \<Rightarrow> u32 \<Rightarrow> u32 \<Rightarrow> u32 \<Rightarrow> u32 \<Rightarrow> string" where
  "segment w c s l k = encode_vlq (uint c - sw_gen_col w) @ encode_vlq (uint s - sw_source w)
     @ encode_vlq (uint l - sw_orig_line w) @ encode_vlq (uint k - sw_orig_col w)"

fun emit :: "SourceMapWriter \<Rightarrow> writer_op list \<Rightarrow> string list" where
  "emit w [] = [[]]"
| "emit w (Add c s l k # ops) =
     (let ls = emit (writer_add w c s l k) ops in
      ((if sw_need_comma w then '','' else []) @ segment w c s l k @ hd ls) # tl ls)"
| "emit w (EndLine # ops) = [] # emit (end_line w) ops"

lemma emit_not_Nil [simp]: "emit w ops \<noteq> []"
  by (induction w ops rule: emit.induct) (simp_all add: Let_def)

lemma run_writer_text: "sw_mappings (fold writer_step ops w) = sw_mappings w @ join_with (CHR '';'') (emit w ops)"
proof (induction w ops rule: emit.induct)
  case (2 w c s l k ops)
  show ?case
    using 2 join_with_prepend [of "emit (writer_add w c s l k) ops" "CHR '';''"
        "(if sw_need_comma w then '','' else []) @ segment w c s l k"]
    by (simp add: Let_def writer_add_def segment_def)
qed (simp_all add: end_line_def join_with_Cons)

lemma b64_char_not: "b64_char d \<noteq> CHR '';''" "b64_char d \<noteq> CHR '',''"
proof -
  have "b64_char (d mod 64) = b64_char d" unfolding b64_char_def by (simp only: mod_mod_trivial)
  then have "b64 (b64_char d) = Some (d mod 64)" using b64_b64_char [of "d mod 64"] by simp
  moreover have "b64 (CHR '';'') = None" "b64 (CHR '','') = None" by code_simp+
  ultimately show "b64_char d \<noteq> CHR '';''" "b64_char d \<noteq> CHR '',''" by (metis option.distinct(1))+
qed

lemma encode_digits_clean: "CHR '';'' \<notin> set (encode_digits n)"
proof (induction n rule: encode_digits.induct)
  case (1 n)
  then show ?case by (subst encode_digits.simps) (simp add: b64_char_not(1) [symmetric])
qed

lemma encode_digits_not_Nil [simp]: "encode_digits n \<noteq> []"
  by (subst encode_digits.simps) simp

lemma emit_clean: "l \<in> set (emit w ops) \<Longrightarrow> CHR '';'' \<notin> set l"
proof (induction w ops arbitrary: l rule: emit.induct)
  case (2 w c s l' k ops)
  have "CHR '';'' \<notin> set (segment w c s l' k)" by (simp add: segment_def encode_vlq_def encode_digits_clean)
  moreover have "CHR '';'' \<notin> set x" if "x \<in> set (emit (writer_add w c s l' k) ops)" for x using 2 that by simp
  moreover obtain a b where "emit (writer_add w c s l' k) ops = a # b"
    by (cases "emit (writer_add w c s l' k) ops") auto
  ultimately show ?case using "2.prems" by (auto simp: Let_def)
qed auto

text \<open>Parsing from the middle of a line, in the state that the writer is in.\<close>

definition parse_rest :: "nat \<Rightarrow> map_state \<Rightarrow> string list \<Rightarrow> (PackageError, Mapping list) result" where
  "parse_rest line st ls =
     rbind (parse_line line st (hd ls)) (\<lambda>(out, st').
     rbind (parse_lines (Suc line) st' (tl ls)) (\<lambda>out'. Inr (out @ out')))"

definition writer_state :: "SourceMapWriter \<Rightarrow> map_state" where
  "writer_state w = \<lparr>ms_generated_column = sw_gen_col w, ms_source_index = sw_source w,
     ms_original_line = sw_orig_line w, ms_original_column = sw_orig_col w\<rparr>"

definition writer_ok :: "SourceMapWriter \<Rightarrow> bool" where
  "writer_ok w \<longleftrightarrow> {sw_gen_col w, sw_source w, sw_orig_line w, sw_orig_col w} \<subseteq> {0..<2 ^ 32}"

lemma uint_u32_bounds: "0 \<le> uint (c :: u32)" "uint (c :: u32) < 2 ^ 32"
  using uint_lt2p [of c] by simp_all

lemma writer_ok_add: "writer_ok (writer_add w c s l k)"
  using uint_u32_bounds by (simp add: writer_ok_def writer_add_def)

lemma writer_ok_end_line: "writer_ok w \<Longrightarrow> writer_ok (end_line w)"
  by (simp add: writer_ok_def end_line_def)

lemma delta_decodes:
  assumes "0 \<le> a" "a < 2 ^ 32"
  shows "decode_vlq (encode_vlq (uint (c :: u32) - a) @ rest) = Inr (uint c - a, rest)"
    "i64_add a (uint c - a) = Inr (uint c)"
proof -
  have "\<bar>x - a\<bar> < 2 ^ 62 \<and> - (2 ^ 63) \<le> x \<and> x < 2 ^ 63" if "0 \<le> x" "x < 2 ^ 32" for x :: int
    using that assms by simp
  from this [OF uint_u32_bounds] have "\<bar>uint c - a\<bar> < 2 ^ 62" "- (2 ^ 63) \<le> uint c" "uint c < 2 ^ 63" by blast+
  then show "decode_vlq (encode_vlq (uint c - a) @ rest) = Inr (uint c - a, rest)"
    "i64_add a (uint c - a) = Inr (uint c)"
    by (simp_all add: decode_vlq_encode_vlq i64_add_def)
qed

lemma parse_segment_written:
  assumes "writer_ok w"
  shows "parse_segment (writer_state w) (segment w c s l k @ rest) =
    Inr (writer_state (writer_add w c s l k), skip_comma rest)"
  using assms
  by (simp add: parse_segment_def segment_def writer_state_def writer_ok_def writer_add_def delta_decodes)

lemma segment_not_Nil [simp]: "segment w c s l k \<noteq> []"
  by (simp add: segment_def encode_vlq_def)

lemma state_mapping_written:
  "state_mapping line (writer_state (writer_add w c s l k)) =
     \<lparr>mp_generated_line = of_nat line, mp_generated_column = c, mp_source_index = s,
      mp_original_line = l, mp_original_column = k\<rparr>"
  using uint_u32_bounds by (simp add: state_mapping_def writer_state_def writer_add_def clamp_u32_def max_def)

lemma parse_rest_emit:
  "writer_ok w \<Longrightarrow>
     parse_rest line (writer_state w)
       ((if sw_need_comma w then skip_comma (hd (emit w ops)) else hd (emit w ops)) # tl (emit w ops))
     = Inr (recorded line ops)"
proof (induction w ops arbitrary: line rule: emit.induct)
  case (1 w)
  then show ?case by (simp add: parse_rest_def parse_line.simps)
next
  case (2 w c s l k ops)
  let ?w = "writer_add w c s l k"
  let ?ls = "emit ?w ops"
  have IH: "parse_rest line (writer_state ?w) (skip_comma (hd ?ls) # tl ?ls) = Inr (recorded line ops)"
    using "2.IH" [OF writer_ok_add, of line] by (simp add: writer_add_def)
  have strip: "(if sw_need_comma w then skip_comma (hd (emit w (Add c s l k # ops)))
      else hd (emit w (Add c s l k # ops))) = segment w c s l k @ hd ?ls"
    by (simp add: Let_def)
  have "parse_line line (writer_state w) (segment w c s l k @ hd ?ls) =
      rbind (parse_line line (writer_state ?w) (skip_comma (hd ?ls))) (\<lambda>(out, st).
        Inr (state_mapping line (writer_state ?w) # out, st))"
    by (subst parse_line.simps) (simp add: parse_segment_written [OF "2.prems"])
  then show ?case
    using IH unfolding strip
    by (simp add: parse_rest_def Let_def state_mapping_written)
      (auto simp: result_simps)
next
  case (3 w ops)
  have "parse_lines (Suc line) (writer_state w) (emit (end_line w) ops) =
      parse_rest (Suc line) (writer_state (end_line w)) (hd (emit (end_line w) ops) # tl (emit (end_line w) ops))"
    by (cases "emit (end_line w) ops") (simp_all add: parse_rest_def writer_state_def end_line_def)
  also have "\<dots> = Inr (recorded (Suc line) ops)"
    using "3.IH" [OF writer_ok_end_line [OF "3.prems"], of "Suc line"] by (simp add: end_line_def)
  finally show ?case by (simp add: parse_rest_def parse_line.simps [of _ _ "[]"])
qed

lemma parse_mappings_written: "parse_mappings (sw_mappings (run_writer ops)) = Inr (recorded 0 ops)"
proof -
  let ?w = SourceMapWriter_new
  have ok: "writer_ok ?w" by (simp add: writer_ok_def SourceMapWriter_new_def)
  have "split_on (CHR '';'') (sw_mappings (run_writer ops)) = emit ?w ops"
    using split_on_join [of "emit ?w ops" "CHR '';''"] emit_clean
    by (simp add: run_writer_def run_writer_text SourceMapWriter_new_def)
  then have "parse_mappings (sw_mappings (run_writer ops)) =
      parse_rest 0 (writer_state ?w) (hd (emit ?w ops) # tl (emit ?w ops))"
    by (cases "emit ?w ops")
      (simp_all add: parse_mappings_def parse_rest_def map_state_init_def writer_state_def SourceMapWriter_new_def)
  then show ?thesis using parse_rest_emit [OF ok, of 0 ops] by (simp add: SourceMapWriter_new_def)
qed
text \<open>
  C16. Source maps survive writing and reading. Whatever positions a build has recorded with
  \<open>SourceMapWriter\<close>, in any order and over any number of lines, the finished map parses to exactly these
  positions, with the same file, sources and contents.
\<close>

theorem source_map_round_trip:
  assumes "codec_faithful codec \<lparr>smf_version = 3, smf_file = Some target, smf_sources = sources,
      smf_sources_content = map Some contents, smf_mappings = sw_mappings (run_writer ops)\<rparr>"
    and "into_json codec (run_writer ops) target sources contents = Inr json"
  shows "SourceMap_parse codec json = Inr \<lparr>sm_file = Some target, sm_sources = sources,
    sm_sources_content = map Some contents, sm_mappings = recorded 0 ops\<rparr>"
  using assms
  by (auto simp: into_json_def SourceMap_parse_def codec_faithful_def result_simps parse_mappings_written)

definition demo_file_codec :: "SourceMapFile \<Rightarrow> SourceMapFile json_codec" where
  "demo_file_codec f = \<lparr>jc_to_vec = \<lambda>x. if x = f then Some ''{}'' else None, jc_from_slice = \<lambda>_. Some f\<rparr>"

theorem source_map_round_trip_witness:
  "let ops = [Add 0 0 0 0, Add 8 0 2 4, EndLine, EndLine, Add 3 1 0 7];
       codec = demo_file_codec \<lparr>smf_version = 3, smf_file = Some ''app.js'', smf_sources = [''a.ts'', ''b.ts''],
         smf_sources_content = map Some [''x'', ''y''], smf_mappings = sw_mappings (run_writer ops)\<rparr> in
   \<exists>sm. SourceMap_parse codec ''{}'' = Inr sm \<and> length (sm_mappings sm) = 3 \<and>
     map mp_generated_line (sm_mappings sm) = [0, 0, 2]"
  using source_map_round_trip [where ops = "[Add 0 0 0 0, Add 8 0 2 4, EndLine, EndLine, Add 3 1 0 7]" and
      target = "''app.js''" and sources = "[''a.ts'', ''b.ts'']" and contents = "[''x'', ''y'']" and json = "''{}''" and
      codec = "demo_file_codec \<lparr>smf_version = 3, smf_file = Some ''app.js'', smf_sources = [''a.ts'', ''b.ts''],
         smf_sources_content = map Some [''x'', ''y''],
         smf_mappings = sw_mappings (run_writer [Add 0 0 0 0, Add 8 0 2 4, EndLine, EndLine, Add 3 1 0 7])\<rparr>"]
  by (simp add: demo_file_codec_def into_json_def codec_faithful_def Let_def)

subsection \<open>Binary search finds the last mapping\<close>

definition partitioned :: "('a \<Rightarrow> bool) \<Rightarrow> 'a list \<Rightarrow> bool" where
  "partitioned P xs \<longleftrightarrow> (\<forall>j < length xs. \<forall>i \<le> j. P (xs ! j) \<longrightarrow> P (xs ! i))"

lemma partition_point_loop_bounds:
  assumes part: "partitioned P xs"
  shows "base + n \<le> length xs \<Longrightarrow> \<forall>i < base. P (xs ! i) \<Longrightarrow> \<forall>i < length xs. base + n \<le> i \<longrightarrow> \<not> P (xs ! i) \<Longrightarrow>
    partition_point_loop P xs base n \<le> length xs \<and> (\<forall>i < partition_point_loop P xs base n. P (xs ! i)) \<and>
    (\<forall>i < length xs. partition_point_loop P xs base n \<le> i \<longrightarrow> \<not> P (xs ! i))"
proof (induction n arbitrary: base rule: less_induct)
  case (less n)
  show ?case
  proof (cases "n = 0")
    case True
    then show ?thesis using less.prems by (simp add: partition_point_loop.simps)
  next
    case False
    let ?m = "base + n div 2"
    have mid: "?m < length xs" using less.prems(1) False by linarith
    show ?thesis
    proof (cases "P (xs ! ?m)")
      case True
      have "\<forall>i < Suc ?m. P (xs ! i)" using part mid True by (auto simp: partitioned_def less_Suc_eq_le)
      moreover have "Suc ?m + (n - n div 2 - 1) = base + n" using False by linarith
      ultimately have "partition_point_loop P xs (Suc ?m) (n - n div 2 - 1) \<le> length xs \<and>
          (\<forall>i < partition_point_loop P xs (Suc ?m) (n - n div 2 - 1). P (xs ! i)) \<and>
          (\<forall>i < length xs. partition_point_loop P xs (Suc ?m) (n - n div 2 - 1) \<le> i \<longrightarrow> \<not> P (xs ! i))"
        using less.prems False by (intro less.IH) (simp_all, linarith?)
      then show ?thesis using False True by (subst (1 2 3) partition_point_loop.simps) (simp add: Let_def)
    next
      case no: False
      have "\<not> P (xs ! i)" if "i < length xs" "?m \<le> i" for i
        using part that no by (auto simp: partitioned_def)
      then have "partition_point_loop P xs base (n div 2) \<le> length xs \<and>
          (\<forall>i < partition_point_loop P xs base (n div 2). P (xs ! i)) \<and>
          (\<forall>i < length xs. partition_point_loop P xs base (n div 2) \<le> i \<longrightarrow> \<not> P (xs ! i))"
        using less.prems False mid by (intro less.IH) simp_all
      then show ?thesis using False no by (subst (1 2 3) partition_point_loop.simps) (simp add: Let_def)
    qed
  qed
qed

lemma partition_point_filter:
  assumes "partitioned P xs"
  shows "partition_point P xs = length (filter P xs)" "take (partition_point P xs) xs = filter P xs"
proof -
  let ?k = "partition_point P xs"
  have k: "?k \<le> length xs" "\<forall>i < ?k. P (xs ! i)" "\<forall>i < length xs. ?k \<le> i \<longrightarrow> \<not> P (xs ! i)"
    using partition_point_loop_bounds [OF assms, of 0 "length xs"] by (auto simp: partition_point_def)
  have "filter P (take ?k xs) = take ?k xs" using k(1,2) by (auto simp: filter_id_conv in_set_conv_nth)
  moreover have "filter P (drop ?k xs) = []" using k(1,3) by (auto simp: filter_empty_conv in_set_conv_nth)
  ultimately show take: "take ?k xs = filter P xs"
    using filter_append [of P "take ?k xs" "drop ?k xs"] by simp
  show "?k = length (filter P xs)" using k(1) by (simp add: take [symmetric])
qed

definition mapping_order :: "Mapping \<Rightarrow> Mapping \<Rightarrow> bool" where
  "mapping_order a b \<longleftrightarrow> mp_generated_line a < mp_generated_line b \<or>
     mp_generated_line a = mp_generated_line b \<and> mp_generated_column a \<le> mp_generated_column b"

text \<open>The specification: of the mappings of the line that start at or before the column, the last one.\<close>

definition last_mapping_at :: "Mapping list \<Rightarrow> u32 \<Rightarrow> u32 \<Rightarrow> Mapping option" where
  "last_mapping_at ms line column =
     (let ms' = filter (\<lambda>m. mp_generated_line m = line \<and> mp_generated_column m \<le> column) ms in
      if ms' = [] then None else Some (last ms'))"

lemma sorted_partitioned:
  assumes "sorted_wrt R xs" and "\<And>a b. R a b \<Longrightarrow> P b \<Longrightarrow> P a"
  shows "partitioned P xs"
  using assms by (auto simp: partitioned_def sorted_wrt_iff_nth_less le_less)

lemma line_slice:
  assumes "sorted_wrt mapping_order ms"
  shows "filter (\<lambda>m. mp_generated_line m \<le> l) ms =
    filter (\<lambda>m. mp_generated_line m < l) ms @ filter (\<lambda>m. mp_generated_line m = l) ms"
  using assms
proof (induction ms)
  case (Cons m ms)
  have "filter (\<lambda>m. mp_generated_line m < l) ms = []" if "l \<le> mp_generated_line m"
    using Cons.prems that by (auto simp: mapping_order_def filter_empty_conv)
  then show ?case using Cons by auto
qed simp

lemma line_slice_drop:
  assumes "sorted_wrt mapping_order ms"
  shows "drop (length (filter (\<lambda>m. mp_generated_line m < l) ms)) (filter (\<lambda>m. mp_generated_line m \<le> l) ms) =
    filter (\<lambda>m. mp_generated_line m = l) ms"
  by (simp add: line_slice [OF assms])

lemma line_sorted_partitioned:
  assumes "sorted_wrt mapping_order ms"
  shows "partitioned (\<lambda>m. mp_generated_column m \<le> c) (filter (\<lambda>m. mp_generated_line m = l) ms)"
proof (rule sorted_partitioned)
  have "sorted_wrt mapping_order (filter (\<lambda>m. mp_generated_line m = l) ms)"
    using assms by (rule sorted_wrt_filter)
  then show "sorted_wrt (\<lambda>a b. mp_generated_column a \<le> mp_generated_column b) (filter (\<lambda>m. mp_generated_line m = l) ms)"
    by (rule sorted_wrt_mono_rel [rotated]) (auto simp: mapping_order_def)
qed auto

text \<open>
  C37. The lookup of a position is a search for the last mapping. On a map whose mappings stand in generated order
  the three binary searches of \<open>lookup_mapping\<close> return the mapping a linear scan would: of the mappings of this
  line that start at or before this column, the last one, and none exactly if there is none.
\<close>

theorem lookup_is_linear_search:
  assumes "sorted_wrt mapping_order (sm_mappings sm)"
  shows "lookup_mapping sm line column = last_mapping_at (sm_mappings sm) line column"
proof -
  let ?ms = "sm_mappings sm"
  let ?line = "filter (\<lambda>m. mp_generated_line m = line) ?ms"
  let ?cols = "filter (\<lambda>m. mp_generated_column m \<le> column) ?line"
  have below: "partitioned (\<lambda>m. mp_generated_line m < line) ?ms"
    and upto: "partitioned (\<lambda>m. mp_generated_line m \<le> line) ?ms"
    using assms by (auto intro!: sorted_partitioned simp: mapping_order_def)
  note start = partition_point_filter(1) [OF below]
    and bound = partition_point_filter [OF upto]
    and cols = partition_point_filter [OF line_sorted_partitioned [OF assms, of column line]]
  have line: "drop (partition_point (\<lambda>m. mp_generated_line m < line) ?ms)
      (take (partition_point (\<lambda>m. mp_generated_line m \<le> line) ?ms) ?ms) = ?line"
    by (simp only: start bound(2) line_slice_drop [OF assms])
  have le: "partition_point (\<lambda>m. mp_generated_line m < line) ?ms
      \<le> partition_point (\<lambda>m. mp_generated_line m \<le> line) ?ms"
    by (simp only: start bound(1) line_slice [OF assms] length_append)
  have len: "partition_point (\<lambda>m. mp_generated_line m \<le> line) ?ms \<le> length ?ms"
    by (simp only: bound(1) length_filter_le)
  have last: "?line ! (length ?cols - 1) = last ?cols" if "?cols \<noteq> []"
    using that arg_cong [OF cols(2), of "\<lambda>xs. xs ! (length ?cols - 1)"]
    by (simp add: last_conv_nth cols(1) del: filter_filter)
  have both: "filter (\<lambda>m. mp_generated_line m = line \<and> mp_generated_column m \<le> column) ?ms = ?cols"
    by (simp add: conj_commute)
  have short: "length ?cols - 1 < length ?line" if "?cols \<noteq> []"
    using that length_filter_le [of "\<lambda>m. mp_generated_column m \<le> column" ?line]
    by (cases "length ?cols") (simp_all del: filter_filter)
  show ?thesis
    unfolding lookup_mapping_def last_mapping_at_def Let_def line cols(1) both
    using le len last short by (cases "?cols = []") (auto simp del: filter_filter simp: Suc_le_eq)
qed

definition demo_mapping :: "u32 \<Rightarrow> u32 \<Rightarrow> u32 \<Rightarrow> Mapping" where
  "demo_mapping line column original = \<lparr>mp_generated_line = line, mp_generated_column = column,
     mp_source_index = 0, mp_original_line = original, mp_original_column = 0\<rparr>"

definition demo_source_map :: SourceMap where
  "demo_source_map = \<lparr>sm_file = None, sm_sources = [''a.ts''], sm_sources_content = [],
     sm_mappings = [demo_mapping 0 0 1, demo_mapping 0 8 2, demo_mapping 0 20 3, demo_mapping 2 0 4]\<rparr>"

theorem lookup_is_linear_search_witness:
  "lookup_mapping demo_source_map 0 12 = Some (demo_mapping 0 8 2) \<and> lookup_mapping demo_source_map 1 5 = None"
proof -
  have "sorted_wrt mapping_order (sm_mappings demo_source_map)"
    by (simp add: demo_source_map_def demo_mapping_def mapping_order_def)
  from lookup_is_linear_search [OF this] show ?thesis
    by (simp add: last_mapping_at_def demo_source_map_def demo_mapping_def Let_def)
qed

end
