(* ===== verification/Tap.thy ===== *)
theory Tap
  imports Source_Map Capability
begin

text \<open>
  The application package (\<^verbatim>\<open>crates/tysel-package/src/tap.rs\<close>): the payload with its manifest, bundle, source
  map and components, its place at the end of an executable, and the compatibility report. The JSON
  encodings, SHA-256 and the \<open>semver\<close> parser are third-party and are the fields of \<open>tap_env\<close>. \<open>usize\<close> is 64 bits
  wide, so that the conversions from \<open>u64\<close> succeed; lengths of byte vectors are natural numbers.
\<close>

subsection \<open>Data\<close>

definition TAP_VERSION :: u32 where "TAP_VERSION = 5"
definition MIN_SUPPORTED_TAP_VERSION :: u32 where "MIN_SUPPORTED_TAP_VERSION = 1"
definition TAP_COMPATIBILITY_REPORT_VERSION :: u32 where "TAP_COMPATIBILITY_REPORT_VERSION = 1"
definition COMPONENT_ABI_VERSION :: string where "COMPONENT_ABI_VERSION = ''0.4.0''"
definition MAX_TAP_PAYLOAD_BYTES :: nat where "MAX_TAP_PAYLOAD_BYTES = 512 * 1024 * 1024"
definition MAX_PACKAGED_COMPONENTS :: nat where "MAX_PACKAGED_COMPONENTS = 64"
definition MAX_AOT_ARTIFACTS_PER_COMPONENT :: nat where "MAX_AOT_ARTIFACTS_PER_COMPONENT = 16"
definition TAP_MAGIC :: string where "TAP_MAGIC = ''TYSELTAP''"
definition END_MAGIC :: string where "END_MAGIC = ''TYSELEND''"
definition MAX_COMPONENT_INDEX_BYTES :: nat where "MAX_COMPONENT_INDEX_BYTES = 1024 * 1024"
definition MAX_COMPATIBILITY_ISSUE_BYTES :: nat where "MAX_COMPATIBILITY_ISSUE_BYTES = 512"

record PackageManifest =
  pm_format_version :: u32
  pm_runtime_version :: string
  pm_application_id :: string
  pm_entrypoint :: string
  pm_execution_profile :: string
  pm_listen :: string
  pm_memory_limit_bytes :: u64
  pm_cpu_ms_per_turn :: u64
  pm_request_timeout_ms :: u64
  pm_bundle_hash :: string
  pm_max_request_bytes :: u64
  pm_max_response_bytes :: u64
  pm_websocket :: bool
  pm_workers :: u32
  pm_max_in_flight :: u32
  pm_http1 :: bool
  pm_http2 :: bool
  pm_sqlite_path :: string
  pm_secret_names :: "string list"
  pm_fetch_hosts :: "string list"
  pm_postgres :: "string list"
  pm_redis :: "string list"
  pm_fs_read :: "string list"
  pm_fs_write :: "string list"
  pm_json_logs :: bool

record PackagedAot =
  pa_target :: string
  pa_wasmtime_version :: string
  pa_engine_compatibility_hash :: u64
  pa_source_sha256 :: string
  pa_bytes :: string

record PackagedComponent =
  pc_name :: string
  pc_abi_version :: string
  pc_source :: string
  pc_aot :: "PackagedAot list"

record Tap =
  tap_manifest :: PackageManifest
  tap_bundle :: string
  tap_source_map :: string
  tap_components :: "PackagedComponent list"

datatype TapCompatibilityStatus = TC_Current | TC_Legacy | TC_UnsupportedOlder | TC_UnsupportedNewer | TC_Invalid

record TapCompatibilityReport =
  tr_report_version :: u32
  tr_compatible :: bool
  tr_status :: TapCompatibilityStatus
  tr_tap_version :: "u32 option"
  tr_minimum_supported_tap_version :: u32
  tr_maximum_supported_tap_version :: u32
  tr_runtime_version :: "string option"
  tr_execution_profile :: "string option"
  tr_component_abi_versions :: "string list"
  tr_issues :: "string list"

record BlobIndex =
  bi_offset :: u64
  bi_length :: u64
  bi_sha256 :: string

record AotIndexEntry =
  ai_target :: string
  ai_wasmtime_version :: string
  ai_engine_compatibility_hash :: u64
  ai_source_sha256 :: string
  ai_blob :: BlobIndex

record ComponentIndexEntry =
  ce_name :: string
  ce_abi_version :: string
  ce_source :: BlobIndex
  ce_aot :: "AotIndexEntry list"

type_synonym ComponentIndex = "ComponentIndexEntry list"

record tap_env =
  te_sha256 :: "string \<Rightarrow> string"
  te_semver :: semver_parser
  te_manifest :: "PackageManifest json_codec"
  te_index :: "ComponentIndex json_codec"
  te_json_text :: "string \<Rightarrow> string"

subsection \<open>Validation\<close>

definition bundle_hash :: "tap_env \<Rightarrow> string \<Rightarrow> string" where
  "bundle_hash env bundle = hex_encode (te_sha256 env bundle)"

definition validate_manifest_contract :: "tap_env \<Rightarrow> PackageManifest \<Rightarrow> u32 \<Rightarrow> (PackageError, unit) result" where
  "validate_manifest_contract env manifest envelope_version =
     (if pm_format_version manifest \<noteq> envelope_version
      then Inl (PE_Invalid (''manifest format version '' @ nat_to_string (unat (pm_format_version manifest)) @
             '' does not match tap envelope version '' @ nat_to_string (unat envelope_version)))
      else if te_semver env (pm_runtime_version manifest) = None
      then Inl (PE_Invalid ''runtime version is not valid semantic versioning'')
      else if pm_execution_profile manifest \<notin> {''service'', ''isolated'', ''component''}
      then Inl (PE_Invalid ''unsupported execution profile'')
      else Inr ())"

definition component_name_ok :: "string \<Rightarrow> bool" where
  "component_name_ok name \<longleftrightarrow> name \<noteq> [] \<and> length name \<le> 128 \<and>
     list_all (\<lambda>c. is_ascii_alphanumeric c \<or> c = CHR ''-'' \<or> c = CHR ''_'') name"

definition aot_metadata_ok :: "PackagedAot \<Rightarrow> bool" where
  "aot_metadata_ok aot \<longleftrightarrow> pa_target aot \<noteq> [] \<and> length (pa_target aot) \<le> 128 \<and>
     pa_wasmtime_version aot \<noteq> [] \<and> length (pa_wasmtime_version aot) \<le> 64"

fun validate_component_list :: "string set \<Rightarrow> PackagedComponent list \<Rightarrow> (PackageError, unit) result" where
  "validate_component_list names [] = Inr ()"
| "validate_component_list names (component # components) =
     (if \<not> component_name_ok (pc_name component)
      then Inl (PE_Invalid ''invalid packaged component name'')
      else if pc_name component \<in> names
      then Inl (PE_Invalid ''duplicate packaged component name'')
      else if pc_abi_version component \<noteq> COMPONENT_ABI_VERSION
      then Inl (PE_Invalid (''unsupported component ABI version '' @ pc_abi_version component @ ''; expected '' @
             COMPONENT_ABI_VERSION))
      else if MAX_AOT_ARTIFACTS_PER_COMPONENT < length (pc_aot component)
      then Inl (PE_Invalid ''too many AOT artifacts for packaged component'')
      else rbind (try_for_each (\<lambda>aot. if aot_metadata_ok aot then Inr ()
             else Inl (PE_Invalid ''invalid component AOT metadata'')) (pc_aot component)) (\<lambda>_.
           validate_component_list (insert (pc_name component) names) components))"

definition validate_components :: "PackagedComponent list \<Rightarrow> (PackageError, unit) result" where
  "validate_components components =
     (if MAX_PACKAGED_COMPONENTS < length components
      then Inl (PE_Invalid ''too many packaged components'')
      else validate_component_list {} components)"

subsection \<open>Components\<close>

text \<open>Appending to the data section returns the index entry; the section itself is the second part.\<close>

definition append_blob :: "tap_env \<Rightarrow> string \<Rightarrow> string \<Rightarrow> (PackageError, BlobIndex \<times> string) result" where
  "append_blob env data bytes =
     (if 2 ^ 64 \<le> length data then Inl (PE_Invalid ''component data offset overflow'')
      else if 2 ^ 64 \<le> length bytes then Inl (PE_Invalid ''component data length overflow'')
      else Inr (\<lparr>bi_offset = of_nat (length data), bi_length = of_nat (length bytes), bi_sha256 = bundle_hash env bytes\<rparr>,
                data @ bytes))"

fun encode_aot :: "tap_env \<Rightarrow> string \<Rightarrow> PackagedAot list \<Rightarrow> (PackageError, AotIndexEntry list \<times> string) result" where
  "encode_aot env data [] = Inr ([], data)"
| "encode_aot env data (artifact # rest) =
     rbind (append_blob env data (pa_bytes artifact)) (\<lambda>(blob, data).
     rbind (encode_aot env data rest) (\<lambda>(entries, data).
       Inr (\<lparr>ai_target = pa_target artifact, ai_wasmtime_version = pa_wasmtime_version artifact,
             ai_engine_compatibility_hash = pa_engine_compatibility_hash artifact,
             ai_source_sha256 = pa_source_sha256 artifact, ai_blob = blob\<rparr> # entries, data)))"

fun encode_entries ::
  "tap_env \<Rightarrow> string \<Rightarrow> PackagedComponent list \<Rightarrow> (PackageError, ComponentIndex \<times> string) result" where
  "encode_entries env data [] = Inr ([], data)"
| "encode_entries env data (component # components) =
     rbind (append_blob env data (pc_source component)) (\<lambda>(source, data).
     rbind (encode_aot env data (pc_aot component)) (\<lambda>(aot, data).
     rbind (encode_entries env data components) (\<lambda>(entries, data).
       Inr (\<lparr>ce_name = pc_name component, ce_abi_version = pc_abi_version component, ce_source = source,
             ce_aot = aot\<rparr> # entries, data))))"

definition encode_components :: "tap_env \<Rightarrow> PackagedComponent list \<Rightarrow> (PackageError, string \<times> string) result" where
  "encode_components env components =
     rbind (encode_entries env [] components) (\<lambda>(entries, data).
     rbind (ok_or (jc_to_vec (te_index env) entries) PE_Json) (\<lambda>index.
       if MAX_COMPONENT_INDEX_BYTES < length index
       then Inl (PE_Invalid ''component index exceeds size limit'') else Inr (index, data)))"

definition read_blob :: "tap_env \<Rightarrow> string \<Rightarrow> BlobIndex \<Rightarrow> (PackageError, string) result" where
  "read_blob env data blob =
     rbind (ok_or (checked_add (bi_offset blob) (bi_length blob)) (PE_Invalid ''component data range overflow'')) (\<lambda>end.
     if length data < unat end then Inl (PE_Invalid ''component data range is out of bounds'')
     else
       let bytes = take (unat (bi_length blob)) (drop (unat (bi_offset blob)) data) in
       if bundle_hash env bytes \<noteq> bi_sha256 blob
       then Inl (PE_Invalid ''component blob hash mismatch'') else Inr bytes)"

definition decode_artifact :: "tap_env \<Rightarrow> string \<Rightarrow> AotIndexEntry \<Rightarrow> (PackageError, PackagedAot) result" where
  "decode_artifact env data artifact =
     rbind (read_blob env data (ai_blob artifact)) (\<lambda>bytes.
       Inr \<lparr>pa_target = ai_target artifact, pa_wasmtime_version = ai_wasmtime_version artifact,
            pa_engine_compatibility_hash = ai_engine_compatibility_hash artifact,
            pa_source_sha256 = ai_source_sha256 artifact, pa_bytes = bytes\<rparr>)"

definition decode_entry :: "tap_env \<Rightarrow> string \<Rightarrow> ComponentIndexEntry \<Rightarrow> (PackageError, PackagedComponent) result" where
  "decode_entry env data entry =
     (if MAX_AOT_ARTIFACTS_PER_COMPONENT < length (ce_aot entry)
      then Inl (PE_Invalid ''too many AOT artifacts for packaged component'')
      else
      rbind (read_blob env data (ce_source entry)) (\<lambda>source.
      rbind (collect_results (decode_artifact env data) (ce_aot entry)) (\<lambda>aot.
        Inr \<lparr>pc_name = ce_name entry, pc_abi_version = ce_abi_version entry, pc_source = source, pc_aot = aot\<rparr>)))"

definition decode_components ::
  "tap_env \<Rightarrow> string \<Rightarrow> string \<Rightarrow> (PackageError, PackagedComponent list) result" where
  "decode_components env index data =
     rbind (ok_or (jc_from_slice (te_index env) index) PE_Json) (\<lambda>entries.
     if MAX_PACKAGED_COMPONENTS < length entries then Inl (PE_Invalid ''too many packaged components'')
     else
     rbind (collect_results (decode_entry env data) entries) (\<lambda>components.
     rbind (validate_components components) (\<lambda>_. Inr components)))"

subsection \<open>The payload\<close>

definition Tap_new :: "tap_env \<Rightarrow> PackageManifest \<Rightarrow> string \<Rightarrow> string \<Rightarrow> Tap" where
  "Tap_new env manifest bundle source_map =
     \<lparr>tap_manifest = manifest\<lparr>pm_format_version := TAP_VERSION, pm_bundle_hash := bundle_hash env bundle\<rparr>,
      tap_bundle = bundle, tap_source_map = source_map, tap_components = []\<rparr>"

definition with_components :: "PackagedComponent list \<Rightarrow> Tap \<Rightarrow> Tap" where
  "with_components components tap = tap\<lparr>tap_components := components\<rparr>"

definition u64_bytes :: "nat \<Rightarrow> string" where
  "u64_bytes n = le_bytes 8 n"

definition Tap_encode :: "tap_env \<Rightarrow> Tap \<Rightarrow> (PackageError, string) result" where
  "Tap_encode env tap =
     rbind (validate_manifest_contract env (tap_manifest tap) TAP_VERSION) (\<lambda>_.
     rbind (validate_components (tap_components tap)) (\<lambda>_.
     rbind (ok_or (jc_to_vec (te_manifest env) (tap_manifest tap)) PE_Json) (\<lambda>manifest.
     rbind (encode_components env (tap_components tap)) (\<lambda>(component_index, component_data).
     let expected_len = 52 + length manifest + length (tap_bundle tap) + length (tap_source_map tap)
           + length component_index + length component_data in
     if 2 ^ 64 \<le> expected_len then Inl (PE_Invalid ''tap payload length overflow'')
     else if MAX_TAP_PAYLOAD_BYTES < expected_len then Inl (PE_Invalid ''tap payload exceeds size limit'')
     else Inr (TAP_MAGIC @ le_bytes 4 (unat TAP_VERSION) @ u64_bytes (length manifest)
       @ u64_bytes (length (tap_bundle tap)) @ u64_bytes (length (tap_source_map tap))
       @ u64_bytes (length component_index) @ u64_bytes (length component_data)
       @ manifest @ tap_bundle tap @ tap_source_map tap @ component_index @ component_data)))))"

definition take_bytes :: "nat \<Rightarrow> string \<Rightarrow> (PackageError, string \<times> string) result" where
  "take_bytes n rest =
     (if length rest < n then Inl (PE_Invalid ''truncated tap payload'') else Inr (take n rest, drop n rest))"

definition read_version :: "string \<Rightarrow> (PackageError, u32 \<times> string) result" where
  "read_version rest = rbind (take_bytes 4 rest) (\<lambda>(bytes, rest). Inr (of_nat (le_value bytes), rest))"

definition read_usize :: "string \<Rightarrow> (PackageError, nat \<times> string) result" where
  "read_usize rest = rbind (take_bytes 8 rest) (\<lambda>(bytes, rest). Inr (le_value bytes, rest))"

definition component_lengths :: "u32 \<Rightarrow> string \<Rightarrow> (PackageError, nat \<times> nat \<times> string) result" where
  "component_lengths version rest =
     (if 2 \<le> version
      then rbind (read_usize rest) (\<lambda>(index_len, rest). rbind (read_usize rest) (\<lambda>(data_len, rest).
             Inr (index_len, data_len, rest)))
      else Inr (0, 0, rest))"

definition Tap_decode :: "tap_env \<Rightarrow> string \<Rightarrow> (PackageError, Tap) result" where
  "Tap_decode env bytes =
     (if MAX_TAP_PAYLOAD_BYTES < length bytes then Inl (PE_Invalid ''tap payload exceeds size limit'')
      else
      rbind (take_bytes 8 bytes) (\<lambda>(magic, rest).
      if magic \<noteq> TAP_MAGIC then Inl (PE_Invalid ''missing TYSELTAP magic'')
      else
      rbind (read_version rest) (\<lambda>(version, rest).
      if version < MIN_SUPPORTED_TAP_VERSION \<or> TAP_VERSION < version then Inl (PE_Version version)
      else
      rbind (read_usize rest) (\<lambda>(manifest_len, rest).
      rbind (read_usize rest) (\<lambda>(bundle_len, rest).
      rbind (read_usize rest) (\<lambda>(source_map_len, rest).
      rbind (component_lengths version rest) (\<lambda>(component_index_len, component_data_len, rest).
      if MAX_COMPONENT_INDEX_BYTES < component_index_len
      then Inl (PE_Invalid ''component index exceeds size limit'')
      else
      rbind (take_bytes manifest_len rest) (\<lambda>(manifest_bytes, rest).
      rbind (take_bytes bundle_len rest) (\<lambda>(bundle, rest).
      rbind (take_bytes source_map_len rest) (\<lambda>(source_map, rest).
      rbind (take_bytes component_index_len rest) (\<lambda>(component_index, rest).
      rbind (take_bytes component_data_len rest) (\<lambda>(component_data, rest).
      if rest \<noteq> [] then Inl (PE_Invalid ''trailing bytes inside tap payload'')
      else
      rbind (ok_or (jc_from_slice (te_manifest env) manifest_bytes) PE_Json) (\<lambda>manifest.
      rbind (validate_manifest_contract env manifest version) (\<lambda>_.
      if pm_bundle_hash manifest \<noteq> bundle_hash env bundle then Inl (PE_Invalid ''bundle hash mismatch'')
      else
      rbind (if 2 \<le> version then decode_components env component_index component_data else Inr []) (\<lambda>components.
        Inr \<lparr>tap_manifest = manifest, tap_bundle = bundle, tap_source_map = source_map,
             tap_components = components\<rparr>)))))))))))))))"

definition embed_into :: "tap_env \<Rightarrow> Tap \<Rightarrow> string \<Rightarrow> (PackageError, string) result" where
  "embed_into env tap stub =
     rbind (Tap_encode env tap) (\<lambda>payload. Inr (stub @ payload @ u64_bytes (length payload) @ END_MAGIC))"

definition Tap_extract :: "tap_env \<Rightarrow> string \<Rightarrow> (PackageError, Tap) result" where
  "Tap_extract env bytes =
     (if length bytes < 16 then Inl PE_MissingPayload
      else
        let footer = length bytes - 16 in
        if drop (footer + 8) bytes \<noteq> END_MAGIC then Inl PE_MissingPayload
        else
          let payload_len = le_value (take 8 (drop footer bytes)) in
          if MAX_TAP_PAYLOAD_BYTES < payload_len then Inl (PE_Invalid ''tap payload exceeds size limit'')
          else if footer < payload_len then Inl (PE_Invalid ''payload length exceeds file'')
          else Tap_decode env (take payload_len (drop (footer - payload_len) bytes)))"

text \<open>Reading a file that does not change meanwhile: \<open>None\<close> is a file that cannot be opened.\<close>

definition file_read_exact :: "string \<Rightarrow> nat \<Rightarrow> nat \<Rightarrow> (PackageError, string) result" where
  "file_read_exact file position n =
     (if length file < position + n then Inl PE_Io else Inr (take n (drop position file)))"

definition from_path :: "tap_env \<Rightarrow> string option \<Rightarrow> (PackageError, Tap) result" where
  "from_path env opened =
     rbind (ok_or opened PE_Io) (\<lambda>file.
     let file_len = length file in
     if file_len < 16 then Inl PE_MissingPayload
     else
     rbind (file_read_exact file (file_len - 16) 16) (\<lambda>footer.
     if drop 8 footer \<noteq> END_MAGIC then Inl PE_MissingPayload
     else
       let payload_len = le_value (take 8 footer);
           prefix_len = file_len - 16 in
       if MAX_TAP_PAYLOAD_BYTES < payload_len then Inl (PE_Invalid ''tap payload exceeds size limit'')
       else if prefix_len < payload_len then Inl (PE_Invalid ''payload length exceeds file'')
       else
       rbind (file_read_exact file (prefix_len - payload_len) payload_len) (\<lambda>payload.
         Tap_decode env payload)))"

definition parsed_source_map :: "SourceMapFile json_codec \<Rightarrow> Tap \<Rightarrow> (PackageError, SourceMap) result" where
  "parsed_source_map codec tap =
     (if tap_source_map tap = [] then Inl (PE_Invalid ''source map is empty'')
      else SourceMap_parse codec (tap_source_map tap))"

subsection \<open>Compatibility\<close>

text \<open>\<open>is_char_boundary\<close> on UTF-8 bytes: not in front of a continuation byte.\<close>

definition is_char_boundary :: "string \<Rightarrow> nat \<Rightarrow> bool" where
  "is_char_boundary s i \<longleftrightarrow>
     i = 0 \<or> i = length s \<or> i < length s \<and> \<not> (128 \<le> byte_val (s ! i) \<and> byte_val (s ! i) < 192)"

fun boundary_below :: "string \<Rightarrow> nat \<Rightarrow> nat" where
  "boundary_below s 0 = 0"
| "boundary_below s (Suc i) = (if is_char_boundary s (Suc i) then Suc i else boundary_below s i)"

definition bounded_compatibility_issue :: "string \<Rightarrow> string" where
  "bounded_compatibility_issue issue =
     (if MAX_COMPATIBILITY_ISSUE_BYTES < length issue
      then take (boundary_below issue MAX_COMPATIBILITY_ISSUE_BYTES) issue else issue)"

fun PackageError_to_string :: "string \<Rightarrow> PackageError \<Rightarrow> string" where
  "PackageError_to_string cause PE_Io = ''io: '' @ cause"
| "PackageError_to_string cause (PE_Invalid reason) = ''invalid tap: '' @ reason"
| "PackageError_to_string cause PE_MissingPayload = ''executable has no tap payload''"
| "PackageError_to_string cause (PE_Version version) = ''unsupported tap version '' @ nat_to_string (unat version)"
| "PackageError_to_string cause PE_Json = ''json: '' @ cause"
| "PackageError_to_string cause PE_Panic = []"

definition tap_report ::
  "u32 option \<Rightarrow> TapCompatibilityStatus \<Rightarrow> Tap option \<Rightarrow> string list \<Rightarrow> TapCompatibilityReport" where
  "tap_report version status tap issues =
     \<lparr>tr_report_version = TAP_COMPATIBILITY_REPORT_VERSION,
      tr_compatible = (status = TC_Current \<or> status = TC_Legacy),
      tr_status = status,
      tr_tap_version = version,
      tr_minimum_supported_tap_version = MIN_SUPPORTED_TAP_VERSION,
      tr_maximum_supported_tap_version = TAP_VERSION,
      tr_runtime_version = map_option (pm_runtime_version \<circ> tap_manifest) tap,
      tr_execution_profile = map_option (pm_execution_profile \<circ> tap_manifest) tap,
      tr_component_abi_versions =
        (case tap of None \<Rightarrow> [] | Some t \<Rightarrow> btree_of (map pc_abi_version (tap_components t))),
      tr_issues = map bounded_compatibility_issue issues\<rparr>"

definition tap_version :: "string \<Rightarrow> (PackageError, u32) result" where
  "tap_version bytes =
     rbind (take_bytes 8 bytes) (\<lambda>(magic, rest).
     if magic \<noteq> TAP_MAGIC then Inl (PE_Invalid ''missing TYSELTAP magic'')
     else rbind (read_version rest) (\<lambda>(version, rest). Inr version))"

definition compatibility_report :: "tap_env \<Rightarrow> string \<Rightarrow> TapCompatibilityReport" where
  "compatibility_report env bytes =
     (let issue = PackageError_to_string (te_json_text env bytes) in
      case tap_version bytes of
        Inl error \<Rightarrow> tap_report None TC_Invalid None [issue error]
      | Inr version \<Rightarrow>
          if version < MIN_SUPPORTED_TAP_VERSION
          then tap_report (Some version) TC_UnsupportedOlder None
            [''tap version '' @ nat_to_string (unat version) @ '' predates minimum supported version '' @
             nat_to_string (unat MIN_SUPPORTED_TAP_VERSION)]
          else if TAP_VERSION < version
          then tap_report (Some version) TC_UnsupportedNewer None
            [''tap version '' @ nat_to_string (unat version) @ '' exceeds maximum supported version '' @
             nat_to_string (unat TAP_VERSION)]
          else (case Tap_decode env bytes of
            Inr tap \<Rightarrow> tap_report (Some version) (if version = TAP_VERSION then TC_Current else TC_Legacy) (Some tap) []
          | Inl error \<Rightarrow> tap_report (Some version) TC_Invalid None [issue error]))"


subsection \<open>Blobs read back\<close>

lemma read_blob_append:
  assumes "length data + length bytes < 2 ^ 64"
  shows "read_blob env (data @ bytes @ ext)
    \<lparr>bi_offset = of_nat (length data), bi_length = of_nat (length bytes), bi_sha256 = bundle_hash env bytes\<rparr> = Inr bytes"
proof -
  let ?a = "of_nat (length data) :: u64" and ?b = "of_nat (length bytes) :: u64"
  have u: "unat ?a = length data" "unat ?b = length bytes"
    using assms by (simp_all add: unat_of_nat)
  then have "checked_add ?a ?b = Some (?a + ?b)" using assms by (simp add: checked_add_def)
  moreover have "unat (?a + ?b) = length data + length bytes"
    using checked_add_unat [of ?a ?b] calculation u by simp
  ultimately show ?thesis by (simp add: read_blob_def ok_or_def u)
qed

lemma append_blob_Inr:
  "append_blob env data bytes = Inr (blob, data') \<longleftrightarrow>
     length data < 2 ^ 64 \<and> length bytes < 2 ^ 64 \<and> data' = data @ bytes \<and>
     blob = \<lparr>bi_offset = of_nat (length data), bi_length = of_nat (length bytes), bi_sha256 = bundle_hash env bytes\<rparr>"
  by (auto simp: append_blob_def)

lemma encode_aot_grows: "encode_aot env data xs = Inr (entries, data') \<Longrightarrow> \<exists>ext. data' = data @ ext"
  by (induction xs arbitrary: data entries) (force simp: result_simps append_blob_Inr)+

lemma encode_entries_grows: "encode_entries env data cs = Inr (entries, data') \<Longrightarrow> \<exists>ext. data' = data @ ext"
  by (induction cs arbitrary: data entries) (force simp: result_simps append_blob_Inr dest: encode_aot_grows)+

lemma encode_aot_decode:
  "encode_aot env data xs = Inr (entries, data') \<Longrightarrow> length (data' @ ext) < 2 ^ 64 \<Longrightarrow>
    collect_results (decode_artifact env (data' @ ext)) entries = Inr xs \<and> length entries = length xs"
proof (induction xs arbitrary: data entries)
  case (Cons a xs)
  from Cons.prems(1) obtain es where es: "encode_aot env (data @ pa_bytes a) xs = Inr (es, data')"
    and entries: "entries = \<lparr>ai_target = pa_target a, ai_wasmtime_version = pa_wasmtime_version a,
        ai_engine_compatibility_hash = pa_engine_compatibility_hash a, ai_source_sha256 = pa_source_sha256 a,
        ai_blob = \<lparr>bi_offset = of_nat (length data), bi_length = of_nat (length (pa_bytes a)),
          bi_sha256 = bundle_hash env (pa_bytes a)\<rparr>\<rparr> # es"
    by (auto simp: result_simps append_blob_Inr)
  obtain ext' where ext': "data' = data @ pa_bytes a @ ext'" using encode_aot_grows [OF es] by auto
  have "length data + length (pa_bytes a) < 2 ^ 64" using Cons.prems(2) ext' by simp
  from read_blob_append [OF this, of env "ext' @ ext"] show ?case
    using Cons.IH [OF es Cons.prems(2)] by (simp add: entries decode_artifact_def ext')
qed simp

lemma encode_entries_decode:
  "encode_entries env data cs = Inr (entries, data') \<Longrightarrow> length (data' @ ext) < 2 ^ 64 \<Longrightarrow>
    (\<And>c. c \<in> set cs \<Longrightarrow> length (pc_aot c) \<le> MAX_AOT_ARTIFACTS_PER_COMPONENT) \<Longrightarrow>
    collect_results (decode_entry env (data' @ ext)) entries = Inr cs \<and> length entries = length cs"
proof (induction cs arbitrary: data entries)
  case (Cons c cs)
  from Cons.prems(1) obtain as d es where as: "encode_aot env (data @ pc_source c) (pc_aot c) = Inr (as, d)"
    and es: "encode_entries env d cs = Inr (es, data')"
    and entries: "entries = \<lparr>ce_name = pc_name c, ce_abi_version = pc_abi_version c,
        ce_source = \<lparr>bi_offset = of_nat (length data), bi_length = of_nat (length (pc_source c)),
          bi_sha256 = bundle_hash env (pc_source c)\<rparr>, ce_aot = as\<rparr> # es"
    by (auto simp: result_simps append_blob_Inr)
  obtain e1 where e1: "d = data @ pc_source c @ e1" using encode_aot_grows [OF as] by auto
  obtain e2 where e2: "data' = d @ e2" using encode_entries_grows [OF es] by auto
  have "length data + length (pc_source c) < 2 ^ 64" using Cons.prems(2) e1 e2 by simp
  note src = read_blob_append [OF this, of env "e1 @ e2 @ ext"]
  have aot: "collect_results (decode_artifact env (data' @ ext)) as = Inr (pc_aot c) \<and> length as = length (pc_aot c)"
    using encode_aot_decode [OF as, of "e2 @ ext"] Cons.prems(2) by (simp add: e2)
  have "collect_results (decode_entry env (data' @ ext)) es = Inr cs \<and> length es = length cs"
    using Cons.prems by (intro Cons.IH [OF es]) auto
  moreover have "length as \<le> MAX_AOT_ARTIFACTS_PER_COMPONENT" using aot Cons.prems(3) by simp
  then have "decode_entry env (data' @ ext) \<lparr>ce_name = pc_name c, ce_abi_version = pc_abi_version c,
        ce_source = \<lparr>bi_offset = of_nat (length data), bi_length = of_nat (length (pc_source c)),
          bi_sha256 = bundle_hash env (pc_source c)\<rparr>, ce_aot = as\<rparr> = Inr c"
    using src aot by (simp add: decode_entry_def e1 e2)
  ultimately show ?case by (simp add: entries)
qed simp

subsection \<open>What validation accepts\<close>

definition component_ok :: "PackagedComponent \<Rightarrow> bool" where
  "component_ok c \<longleftrightarrow> component_name_ok (pc_name c) \<and> pc_abi_version c = COMPONENT_ABI_VERSION \<and>
     length (pc_aot c) \<le> MAX_AOT_ARTIFACTS_PER_COMPONENT \<and> list_all aot_metadata_ok (pc_aot c)"

lemma validate_component_list_iff:
  "validate_component_list names cs = Inr () \<longleftrightarrow>
     list_all component_ok cs \<and> distinct (map pc_name cs) \<and> set (map pc_name cs) \<inter> names = {}"
  by (induction cs arbitrary: names)
    (auto simp: result_simps component_ok_def try_for_each_Inr_iff list_all_iff not_le[symmetric])

lemma validate_components_iff:
  "validate_components cs = Inr () \<longleftrightarrow>
     length cs \<le> MAX_PACKAGED_COMPONENTS \<and> list_all component_ok cs \<and> distinct (map pc_name cs)"
  by (auto simp: validate_components_def validate_component_list_iff)

lemma validate_manifest_contract_iff:
  "validate_manifest_contract env m v = Inr () \<longleftrightarrow>
     pm_format_version m = v \<and> te_semver env (pm_runtime_version m) \<noteq> None \<and>
     pm_execution_profile m \<in> {''service'', ''isolated'', ''component''}"
  by (simp add: validate_manifest_contract_def)

subsection \<open>The payload reads back\<close>

lemma take_bytes_append: "n = length xs \<Longrightarrow> take_bytes n (xs @ ys) = Inr (xs, ys)"
  by (simp add: take_bytes_def)

lemma take_bytes_all: "n = length xs \<Longrightarrow> take_bytes n xs = Inr (xs, [])"
  by (simp add: take_bytes_def)

lemma read_usize_append: "n < 2 ^ 64 \<Longrightarrow> read_usize (u64_bytes n @ rest) = Inr (n, rest)"
  by (simp add: read_usize_def u64_bytes_def take_bytes_append le_value_le_bytes)

lemma read_version_append: "read_version (le_bytes 4 (unat v) @ rest) = Inr (v, rest)"
  using unat_less_2p [of v] by (simp add: read_version_def take_bytes_append le_value_le_bytes)

lemma decode_encode_components:
  assumes "codec_faithful (te_index env) entries" "encode_entries env [] cs = Inr (entries, data)"
    "jc_to_vec (te_index env) entries = Some index" "validate_components cs = Inr ()" "length data < 2 ^ 64"
  shows "decode_components env index data = Inr cs"
proof -
  have "collect_results (decode_entry env (data @ [])) entries = Inr cs \<and> length entries = length cs"
    using assms(4,5) by (intro encode_entries_decode [OF assms(2)])
      (auto simp: validate_components_iff list_all_iff component_ok_def)
  moreover have "length cs \<le> MAX_PACKAGED_COMPONENTS" using assms(4) by (simp add: validate_components_iff)
  ultimately show ?thesis using assms(1,3,4)
    by (auto simp: decode_components_def codec_faithful_def ok_or_def)
qed

lemma Tap_encode_parts:
  assumes "Tap_encode env tap = Inr payload"
  obtains manifest entries index data where
    "validate_manifest_contract env (tap_manifest tap) TAP_VERSION = Inr ()"
    "validate_components (tap_components tap) = Inr ()"
    "jc_to_vec (te_manifest env) (tap_manifest tap) = Some manifest"
    "encode_entries env [] (tap_components tap) = Inr (entries, data)"
    "jc_to_vec (te_index env) entries = Some index" "length index \<le> MAX_COMPONENT_INDEX_BYTES"
    "52 + length manifest + length (tap_bundle tap) + length (tap_source_map tap) + length index + length data
      \<le> MAX_TAP_PAYLOAD_BYTES"
    "payload = TAP_MAGIC @ le_bytes 4 (unat TAP_VERSION) @ u64_bytes (length manifest)
       @ u64_bytes (length (tap_bundle tap)) @ u64_bytes (length (tap_source_map tap))
       @ u64_bytes (length index) @ u64_bytes (length data)
       @ manifest @ tap_bundle tap @ tap_source_map tap @ index @ data"
proof -
  from assms obtain manifest index data where
    v: "validate_manifest_contract env (tap_manifest tap) TAP_VERSION = Inr ()"
      "validate_components (tap_components tap) = Inr ()"
      "jc_to_vec (te_manifest env) (tap_manifest tap) = Some manifest"
    and enc: "encode_components env (tap_components tap) = Inr (index, data)"
    and rest: "52 + length manifest + length (tap_bundle tap) + length (tap_source_map tap) + length index + length data
      \<le> MAX_TAP_PAYLOAD_BYTES"
      "payload = TAP_MAGIC @ le_bytes 4 (unat TAP_VERSION) @ u64_bytes (length manifest)
       @ u64_bytes (length (tap_bundle tap)) @ u64_bytes (length (tap_source_map tap))
       @ u64_bytes (length index) @ u64_bytes (length data)
       @ manifest @ tap_bundle tap @ tap_source_map tap @ index @ data"
    by (auto simp: Tap_encode_def result_simps Let_def split: if_split_asm)
  from enc obtain entries where "encode_entries env [] (tap_components tap) = Inr (entries, data)"
    "jc_to_vec (te_index env) entries = Some index" "length index \<le> MAX_COMPONENT_INDEX_BYTES"
    by (auto simp: encode_components_def result_simps split: if_split_asm)
  with v rest show thesis by (intro that)
qed

lemma payload_length: "length (TAP_MAGIC @ le_bytes 4 v @ u64_bytes a @ u64_bytes b @ u64_bytes c @ u64_bytes d @
    u64_bytes e @ m @ bundle @ sm @ index @ data) =
  52 + length m + length bundle + length sm + length index + length data"
  by (simp add: TAP_MAGIC_def u64_bytes_def)

lemma version_supported: "\<not> TAP_VERSION < MIN_SUPPORTED_TAP_VERSION" "2 \<le> TAP_VERSION"
  by (simp_all add: TAP_VERSION_def MIN_SUPPORTED_TAP_VERSION_def)

lemma length_less_2p: "n \<le> MAX_TAP_PAYLOAD_BYTES \<Longrightarrow> n < 2 ^ 64"
  by (simp add: MAX_TAP_PAYLOAD_BYTES_def)

lemma Tap_decode_encode:
  assumes enc: "Tap_encode env tap = Inr payload"
    and manifest_codec: "codec_faithful (te_manifest env) (tap_manifest tap)"
    and index_codec: "\<And>entries data. encode_entries env [] (tap_components tap) = Inr (entries, data) \<Longrightarrow>
      codec_faithful (te_index env) entries"
    and hash: "pm_bundle_hash (tap_manifest tap) = bundle_hash env (tap_bundle tap)"
  shows "Tap_decode env payload = Inr tap" "length payload \<le> MAX_TAP_PAYLOAD_BYTES"
proof -
  from enc obtain manifest entries index data where
    valid: "validate_manifest_contract env (tap_manifest tap) TAP_VERSION = Inr ()"
      "validate_components (tap_components tap) = Inr ()"
    and manifest: "jc_to_vec (te_manifest env) (tap_manifest tap) = Some manifest"
    and entries: "encode_entries env [] (tap_components tap) = Inr (entries, data)"
    and index: "jc_to_vec (te_index env) entries = Some index" "length index \<le> MAX_COMPONENT_INDEX_BYTES"
    and fits: "52 + length manifest + length (tap_bundle tap) + length (tap_source_map tap) + length index + length data
      \<le> MAX_TAP_PAYLOAD_BYTES"
    and payload: "payload = TAP_MAGIC @ le_bytes 4 (unat TAP_VERSION) @ u64_bytes (length manifest)
       @ u64_bytes (length (tap_bundle tap)) @ u64_bytes (length (tap_source_map tap))
       @ u64_bytes (length index) @ u64_bytes (length data)
       @ manifest @ tap_bundle tap @ tap_source_map tap @ index @ data"
    by (rule Tap_encode_parts)
  show short: "length payload \<le> MAX_TAP_PAYLOAD_BYTES" using fits unfolding payload payload_length .
  have lens: "length manifest < 2 ^ 64" "length (tap_bundle tap) < 2 ^ 64" "length (tap_source_map tap) < 2 ^ 64"
    "length index < 2 ^ 64" "length data < 2 ^ 64"
    using fits by (simp_all only: MAX_TAP_PAYLOAD_BYTES_def) simp_all
  have comps: "decode_components env index data = Inr (tap_components tap)"
    using decode_encode_components [OF index_codec [OF entries] entries index(1) valid(2) lens(5)] .
  have json: "jc_from_slice (te_manifest env) manifest = Some (tap_manifest tap)"
    using manifest_codec manifest by (simp add: codec_faithful_def)
  have magic: "take_bytes 8 (TAP_MAGIC @ rest) = Inr (TAP_MAGIC, rest)" for rest
    by (rule take_bytes_append) (simp add: TAP_MAGIC_def)
  show "Tap_decode env payload = Inr tap"
    using short unfolding Tap_decode_def payload
    by (simp add: magic read_version_append version_supported read_usize_append [OF lens(1)]
        read_usize_append [OF lens(2)] read_usize_append [OF lens(3)] read_usize_append [OF lens(4)]
        read_usize_append [OF lens(5)] component_lengths_def leD [OF index(2)] take_bytes_append take_bytes_all
        ok_or_def json valid hash comps)
qed

lemma footer_split:
  assumes "length n = 8"
  shows "length (pre @ n @ END_MAGIC) - 16 = length pre" "16 \<le> length (pre @ n @ END_MAGIC)"
    "drop (length pre + 8) (pre @ n @ END_MAGIC) = END_MAGIC" "take 8 (drop (length pre) (pre @ n @ END_MAGIC)) = n"
  using assms by (simp_all add: END_MAGIC_def)

lemma from_path_extract: "from_path env (Some bytes) = Tap_extract env bytes"
proof (cases "length bytes < 16")
  case False
  let ?f = "length bytes - 16"
  have foot: "file_read_exact bytes ?f 16 = Inr (drop ?f bytes)" using False by (simp add: file_read_exact_def)
  have tail: "drop 8 (drop ?f bytes) = drop (?f + 8) bytes" by (simp add: add.commute)
  show ?thesis
    using False by (simp add: from_path_def Tap_extract_def ok_or_def foot tail Let_def del: drop_drop)
      (auto simp: file_read_exact_def)
qed (simp add: from_path_def Tap_extract_def ok_or_def)

lemma extract_embedded:
  assumes "length payload \<le> MAX_TAP_PAYLOAD_BYTES"
  shows "Tap_extract env (stub @ payload @ u64_bytes (length payload) @ END_MAGIC) = Tap_decode env payload"
proof -
  have len8: "length (u64_bytes (length payload)) = 8" by (simp add: u64_bytes_def)
  note foot = footer_split [OF len8, of "stub @ payload", simplified append_assoc]
  have "le_value (u64_bytes (length payload)) = length payload"
    using length_less_2p [OF assms] by (simp add: u64_bytes_def le_value_le_bytes)
  moreover have "length (stub @ payload) - length payload = length stub" by simp
  ultimately show ?thesis using assms foot(2) unfolding Tap_extract_def Let_def foot(1,3,4) by simp
qed


definition demo_manifest :: PackageManifest where
  "demo_manifest = \<lparr>pm_format_version = 0, pm_runtime_version = ''1.0.0'', pm_application_id = ''app'', pm_entrypoint = ''main.js'',
     pm_execution_profile = ''service'', pm_listen = [], pm_memory_limit_bytes = 1, pm_cpu_ms_per_turn = 1,
     pm_request_timeout_ms = 1, pm_bundle_hash = [], pm_max_request_bytes = 1, pm_max_response_bytes = 1,
     pm_websocket = False, pm_workers = 1, pm_max_in_flight = 1, pm_http1 = True, pm_http2 = False, pm_sqlite_path = [],
     pm_secret_names = [], pm_fetch_hosts = [], pm_postgres = [], pm_redis = [], pm_fs_read = [], pm_fs_write = [],
     pm_json_logs = True\<rparr>"

definition demo_components :: "PackagedComponent list" where
  "demo_components = [\<lparr>pc_name = ''c'', pc_abi_version = ''0.4.0'', pc_source = ''wasm'',
     pc_aot = [\<lparr>pa_target = ''t'', pa_wasmtime_version = ''1'', pa_engine_compatibility_hash = 7, pa_source_sha256 = [],
       pa_bytes = ''aot''\<rparr>]\<rparr>]"

text \<open>A checksum in place of SHA-256 and codecs that know this one package.\<close>

definition demo_tap_env :: tap_env where
  "demo_tap_env =
    (let sha = (\<lambda>s. [char_of (length s)]);
         hash = (\<lambda>s. hex_encode (sha s));
         index = [\<lparr>ce_name = ''c'', ce_abi_version = ''0.4.0'',
           ce_source = \<lparr>bi_offset = 0, bi_length = 4, bi_sha256 = hash ''wasm''\<rparr>,
           ce_aot = [\<lparr>ai_target = ''t'', ai_wasmtime_version = ''1'', ai_engine_compatibility_hash = 7,
             ai_source_sha256 = [], ai_blob = \<lparr>bi_offset = 4, bi_length = 3, bi_sha256 = hash ''aot''\<rparr>\<rparr>]\<rparr>];
         manifest = demo_manifest\<lparr>pm_format_version := 5, pm_bundle_hash := hash ''code''\<rparr> in
     \<lparr>te_sha256 = sha,
      te_semver = \<lambda>_. Some \<lparr>sv_major = 1, sv_minor = 0, sv_patch = 0, sv_pre = [], sv_build = []\<rparr>,
      te_manifest = \<lparr>jc_to_vec = \<lambda>_. Some ''{}'', jc_from_slice = \<lambda>_. Some manifest\<rparr>,
      te_index = \<lparr>jc_to_vec = \<lambda>_. Some ''[]'', jc_from_slice = \<lambda>_. Some index\<rparr>,
      te_json_text = \<lambda>_. []\<rparr>)"

definition demo_tap :: Tap where
  "demo_tap = with_components demo_components (Tap_new demo_tap_env demo_manifest ''code'' ''map'')"

lemmas demo_tap_defs = demo_tap_def demo_tap_env_def demo_manifest_def demo_components_def with_components_def
  Tap_new_def Let_def bundle_hash_def TAP_VERSION_def

lemma demo_entries:
  "encode_entries demo_tap_env [] demo_components = Inr (the (jc_from_slice (te_index demo_tap_env) []), ''wasmaot'')"
  by (simp add: demo_tap_defs append_blob_def)

lemma demo_tap_valid:
  "validate_manifest_contract demo_tap_env (tap_manifest demo_tap) TAP_VERSION = Inr ()"
  "validate_components (tap_components demo_tap) = Inr ()"
  by (simp_all add: validate_manifest_contract_iff validate_components_iff component_ok_def component_name_ok_def
      aot_metadata_ok_def demo_tap_defs COMPONENT_ABI_VERSION_def MAX_PACKAGED_COMPONENTS_def
      MAX_AOT_ARTIFACTS_PER_COMPONENT_def ascii_defs)

lemma demo_tap_embedded: "\<exists>exe. embed_into demo_tap_env demo_tap ''stub'' = Inr exe"
proof -
  have "encode_components demo_tap_env (tap_components demo_tap) = Inr (''[]'', ''wasmaot'')"
    using demo_entries by (simp add: encode_components_def demo_tap_def with_components_def ok_or_def
        demo_tap_env_def Let_def MAX_COMPONENT_INDEX_BYTES_def)
  moreover have "jc_to_vec (te_manifest demo_tap_env) m = Some ''{}''" for m
    by (simp add: demo_tap_env_def Let_def)
  ultimately show ?thesis
    by (simp add: embed_into_def Tap_encode_def demo_tap_valid ok_or_def Let_def MAX_TAP_PAYLOAD_BYTES_def)
      (simp add: demo_tap_def with_components_def Tap_new_def)
qed


subsection \<open>What a payload that is accepted guarantees\<close>

lemma read_blob_hash: "read_blob env data blob = Inr bytes \<Longrightarrow> bundle_hash env bytes = bi_sha256 blob"
  by (auto simp: read_blob_def result_simps Let_def split: if_split_asm)

definition tap_ok :: "tap_env \<Rightarrow> u32 \<Rightarrow> Tap \<Rightarrow> bool" where
  "tap_ok env version tap \<longleftrightarrow>
     MIN_SUPPORTED_TAP_VERSION \<le> version \<and> version \<le> TAP_VERSION \<and>
     pm_format_version (tap_manifest tap) = version \<and>
     te_semver env (pm_runtime_version (tap_manifest tap)) \<noteq> None \<and>
     pm_execution_profile (tap_manifest tap) \<in> {''service'', ''isolated'', ''component''} \<and>
     pm_bundle_hash (tap_manifest tap) = bundle_hash env (tap_bundle tap) \<and>
     length (tap_components tap) \<le> MAX_PACKAGED_COMPONENTS \<and> list_all component_ok (tap_components tap) \<and>
     distinct (map pc_name (tap_components tap)) \<and> (version = 1 \<longrightarrow> tap_components tap = [])"

lemma decode_components_ok:
  "decode_components env index data = Inr cs \<Longrightarrow>
    length cs \<le> MAX_PACKAGED_COMPONENTS \<and> list_all component_ok cs \<and> distinct (map pc_name cs)"
  by (auto simp: decode_components_def result_simps validate_components_iff split: if_split_asm)

lemma Tap_decode_ok:
  assumes "Tap_decode env bytes = Inr tap"
  shows "\<exists>version. tap_version bytes = Inr version \<and> tap_ok env version tap"
proof -
  from assms obtain magic rest where magic: "take_bytes 8 bytes = Inr (magic, rest)" "magic = TAP_MAGIC"
    by (auto simp: Tap_decode_def result_simps split: if_split_asm)
  with assms obtain version rest' where version: "read_version rest = Inr (version, rest')"
      "MIN_SUPPORTED_TAP_VERSION \<le> version" "version \<le> TAP_VERSION"
    by (auto simp: Tap_decode_def result_simps not_less split: if_split_asm)
  have m: "validate_manifest_contract env (tap_manifest tap) version = Inr ()"
      "pm_bundle_hash (tap_manifest tap) = bundle_hash env (tap_bundle tap)"
    and c: "(\<exists>index data. decode_components env index data = Inr (tap_components tap)) \<or> tap_components tap = []"
      "2 \<le> version \<or> tap_components tap = []"
    using assms magic version(1) unfolding Tap_decode_def by (auto simp: result_simps split: if_split_asm) blast
  have "length (tap_components tap) \<le> MAX_PACKAGED_COMPONENTS \<and> list_all component_ok (tap_components tap) \<and>
      distinct (map pc_name (tap_components tap))"
    using c(1) decode_components_ok by auto
  moreover have "version = 1 \<longrightarrow> tap_components tap = []" using c(2) by (auto simp: word_le_nat_alt)
  ultimately have "tap_ok env version tap" using m version(2,3)
    by (auto simp: tap_ok_def validate_manifest_contract_iff)
  moreover have "tap_version bytes = Inr version" using magic version(1) by (simp add: tap_version_def)
  ultimately show ?thesis by blast
qed



subsection \<open>The compatibility report\<close>

lemma boundary_below_le: "boundary_below s n \<le> n"
  by (induction n) auto

lemma bounded_issue_length: "length (bounded_compatibility_issue s) \<le> MAX_COMPATIBILITY_ISSUE_BYTES"
  using boundary_below_le [of s MAX_COMPATIBILITY_ISSUE_BYTES]
  by (auto simp: bounded_compatibility_issue_def min_le_iff_disj)

lemma Tap_decode_version: "Tap_decode env bytes = Inr tap \<Longrightarrow> \<exists>v. tap_version bytes = Inr v \<and>
    \<not> v < MIN_SUPPORTED_TAP_VERSION \<and> \<not> TAP_VERSION < v \<and> tap_ok env v tap"
  using Tap_decode_ok by (fastforce simp: tap_ok_def)

text \<open>
  The compatibility report tells the truth. It calls a payload compatible exactly if it can be decoded, and then
  it has no issue and names the version, the runtime version, the profile and exactly the ABI versions of the package;
  otherwise it has exactly one issue, of at most 512 bytes, and names nothing of a package. The status tells the
  current version from older ones, and unsupported versions from invalid payloads.
\<close>

theorem compatibility_report_agrees:
  "let r = compatibility_report env bytes in
   (case Tap_decode env bytes of
      Inr tap \<Rightarrow> tr_compatible r \<and> tr_issues r = [] \<and>
        tr_tap_version r = Some (pm_format_version (tap_manifest tap)) \<and>
        tr_status r = (if pm_format_version (tap_manifest tap) = TAP_VERSION then TC_Current else TC_Legacy) \<and>
        tr_runtime_version r = Some (pm_runtime_version (tap_manifest tap)) \<and>
        tr_execution_profile r = Some (pm_execution_profile (tap_manifest tap)) \<and>
        set (tr_component_abi_versions r) = pc_abi_version ` set (tap_components tap)
    | Inl e \<Rightarrow> \<not> tr_compatible r \<and> (\<exists>issue. tr_issues r = [issue] \<and> length issue \<le> MAX_COMPATIBILITY_ISSUE_BYTES) \<and>
        tr_runtime_version r = None \<and> tr_execution_profile r = None \<and> tr_component_abi_versions r = [] \<and>
        tr_status r = (case tap_version bytes of Inl _ \<Rightarrow> TC_Invalid
          | Inr v \<Rightarrow> if v < MIN_SUPPORTED_TAP_VERSION then TC_UnsupportedOlder
                     else if TAP_VERSION < v then TC_UnsupportedNewer else TC_Invalid))"
proof (cases "Tap_decode env bytes")
  case (Inr tap)
  from Tap_decode_version [OF Inr] obtain v where v: "tap_version bytes = Inr v"
    "\<not> v < MIN_SUPPORTED_TAP_VERSION" "\<not> TAP_VERSION < v" "tap_ok env v tap" by blast
  have "pm_format_version (tap_manifest tap) = v" using v(4) by (simp add: tap_ok_def)
  then show ?thesis using v(1-3) Inr by (simp add: compatibility_report_def tap_report_def)
next
  case (Inl e)
  then show ?thesis
    by (auto simp: compatibility_report_def tap_report_def Let_def bounded_issue_length split: sum.split)
qed

end
