(* ===== verification/Durable_Types.thy ===== *)
theory Durable_Types
  imports Task_Model Lease_Fencing "HOL-Library.Product_Lexorder"
begin

text \<open>
  The data model of the durable store (\<open>src/crates/tysel-durable/src/lib.rs\<close>, \<open>execution.rs\<close>,
  \<open>lifecycle.rs\<close>): the public types, the error type, the limits, the SQLite tables as one record, and
  the conversions at the boundary between Rust integers and SQL integers.

  An SQL column of type INTEGER holds an \<open>i64\<close>, modelled by \<open>int\<close> with the range checks written
  out. A table with a primary key is an association list in insertion order; \<open>ORDER BY\<close> is a stable
  sort and \<open>LIMIT\<close> is \<open>take\<close>. The 16-byte \<open>task_id\<close> blob is the big-endian form of the
  identifier: the tables are keyed by the identifier itself, which loses nothing because the
  encoding is injective and order preserving (\<open>task_id_bytes_inject\<close>, \<open>task_id_bytes_less\<close>).

  \<open>serde_json\<close> and \<open>sha2\<close> are parameters, collected in the record \<open>durable_env\<close>.
\<close>

subsection \<open>Limits\<close>

definition MAX_WAKEUP_BATCH :: nat where "MAX_WAKEUP_BATCH = 10000"
definition MAX_EVENT_KEY_BYTES :: nat where "MAX_EVENT_KEY_BYTES = 256"
definition MAX_EVENT_PAYLOAD_BYTES :: nat where "MAX_EVENT_PAYLOAD_BYTES = 1048576"
definition MAX_HISTORY_EVENTS :: nat where "MAX_HISTORY_EVENTS = 10000"
definition MAX_HISTORY_BYTES :: nat where "MAX_HISTORY_BYTES = 16 * 1048576"
definition MAX_PENDING_SIGNALS :: nat where "MAX_PENDING_SIGNALS = 1000"
definition DURABLE_MAX_LEASE_OWNER_BYTES :: nat where "DURABLE_MAX_LEASE_OWNER_BYTES = 128"
definition DURABLE_LOG_VERSION :: u32 where "DURABLE_LOG_VERSION = 3"
definition MAX_DURABLE_PROGRAM_BYTES :: nat where "MAX_DURABLE_PROGRAM_BYTES = 1048576"
definition MAX_DURABLE_PROGRAM_TOTAL_BYTES :: nat where
  "MAX_DURABLE_PROGRAM_TOTAL_BYTES = 64 * 1048576"
definition MAX_DURABLE_PROGRAMS :: nat where "MAX_DURABLE_PROGRAMS = 10000"

lemmas durable_limits = MAX_WAKEUP_BATCH_def MAX_EVENT_KEY_BYTES_def MAX_EVENT_PAYLOAD_BYTES_def
  MAX_HISTORY_EVENTS_def MAX_HISTORY_BYTES_def MAX_PENDING_SIGNALS_def
  DURABLE_MAX_LEASE_OWNER_BYTES_def DURABLE_LOG_VERSION_def MAX_DURABLE_PROGRAM_BYTES_def
  MAX_DURABLE_PROGRAM_TOTAL_BYTES_def MAX_DURABLE_PROGRAMS_def

subsection \<open>Public types\<close>

datatype EventKind = EK_Step | EK_Effect | EK_Sleep | EK_Signal | EK_Retry | EK_Now | EK_Random

datatype DurableProgramKind = PK_Script | PK_Module

record 'v NewEvent =
  ne_kind :: EventKind
  ne_key :: string
  ne_payload :: 'v
  ne_recorded_at_ms :: u64

record 'v TaskEvent =
  te_task_id :: TaskId
  te_sequence :: u64
  te_kind :: EventKind
  te_key :: string
  te_payload :: 'v
  te_recorded_at_ms :: u64
  te_payload_json :: string

record 'v History =
  h_task_id :: TaskId
  h_events :: "'v TaskEvent list"

record Wakeup =
  wk_task_id :: TaskId
  wk_sequence :: u64
  wk_wake_at_ms :: u64

record WakeupClaim =
  wc_task_id :: TaskId
  wc_sequence :: u64
  wc_wake_at_ms :: u64
  wc_lease_owner :: string
  wc_lease_until_ms :: u64

record SignalWait =
  sw_task_id :: TaskId
  sw_sequence :: u64
  sw_signal_name :: string

record DurableProgram =
  dp_task_id :: TaskId
  dp_kind :: DurableProgramKind
  dp_source :: string
  dp_source_sha256 :: string
  dp_registered_at_ms :: u64

record 'v TaskCompletion =
  tk_task_id :: TaskId
  tk_next_sequence :: u64
  tk_value :: 'v
  tk_completed_at_ms :: u64

record ExecutionClaim =
  ec_task_id :: TaskId
  ec_owner :: string
  ec_generation :: u64
  ec_lease_until_ms :: u64
  ec_wakeup :: "WakeupClaim option"

text \<open>The variants of \<open>DurableError\<close> that the SQLite store can return. \<open>DE_Sqlite\<close> is a
  constraint violation reported by SQLite; the transport failures of the database and a poisoned
  lock are not modelled, and the Postgres variants belong to the other store.\<close>

datatype DurableError =
    DE_ExecutionLeaseLost
  | DE_AdmissionConflict
  | DE_InvalidIdempotencyKey
  | DE_TaskCompleted TaskId
  | DE_TaskSuspended TaskId
  | DE_Io
  | DE_Sqlite
  | DE_Json
  | DE_InvalidEventKind string
  | DE_InvalidTaskId
  | DE_IntegerRange string
  | DE_EventKeyTooLarge
  | DE_EventPayloadTooLarge
  | DE_HistoryConflict u64 u64
  | DE_HistoryEventLimit
  | DE_HistoryByteLimit
  | DE_InvalidLeaseOwner
  | DE_InvalidSignalName
  | DE_SignalWaitConflict
  | DE_WakeupClaimRequired
  | DE_SignalInboxLimit
  | DE_InvalidProgram
  | DE_ProgramLimit
  | DE_ProgramByteLimit
  | DE_ProgramConflict TaskId
  | DE_ProgramInUse TaskId
  | DE_InvalidProgramKind string
  | DE_InvalidProgramDigest
  | DE_InvalidLogVersion
  | DE_UnsupportedLogVersion u32 u32

fun EventKind_as_str :: "EventKind \<Rightarrow> string" where
  "EventKind_as_str EK_Step = ''step''"
| "EventKind_as_str EK_Effect = ''effect''"
| "EventKind_as_str EK_Sleep = ''sleep''"
| "EventKind_as_str EK_Signal = ''signal''"
| "EventKind_as_str EK_Retry = ''retry''"
| "EventKind_as_str EK_Now = ''now''"
| "EventKind_as_str EK_Random = ''random''"

definition EventKind_parse :: "string \<Rightarrow> (DurableError, EventKind) result" where
  "EventKind_parse raw =
     (if raw = ''step'' then Inr EK_Step
      else if raw = ''effect'' then Inr EK_Effect
      else if raw = ''sleep'' then Inr EK_Sleep
      else if raw = ''signal'' then Inr EK_Signal
      else if raw = ''retry'' then Inr EK_Retry
      else if raw = ''now'' then Inr EK_Now
      else if raw = ''random'' then Inr EK_Random
      else Inl (DE_InvalidEventKind raw))"

fun DurableProgramKind_as_str :: "DurableProgramKind \<Rightarrow> string" where
  "DurableProgramKind_as_str PK_Script = ''script''"
| "DurableProgramKind_as_str PK_Module = ''module''"

definition DurableProgramKind_parse :: "string \<Rightarrow> (DurableError, DurableProgramKind) result" where
  "DurableProgramKind_parse raw =
     (if raw = ''script'' then Inr PK_Script
      else if raw = ''module'' then Inr PK_Module
      else Inl (DE_InvalidProgramKind raw))"

lemma EventKind_parse_as_str [simp]: "EventKind_parse (EventKind_as_str k) = Inr k"
  by (cases k) (simp_all add: EventKind_parse_def)

lemma DurableProgramKind_parse_as_str [simp]:
  "DurableProgramKind_parse (DurableProgramKind_as_str k) = Inr k"
  by (cases k) (simp_all add: DurableProgramKind_parse_def)

subsection \<open>Parameters\<close>

record 'v durable_env =
  json_to_string :: "'v \<Rightarrow> string option"
  json_from_str :: "string \<Rightarrow> 'v option"
  sha256 :: "string \<Rightarrow> string"

text \<open>What the store relies on: a digest has 32 bytes, and text printed by \<open>serde_json\<close> parses
  back to the value it came from.\<close>

definition env_ok :: "'v durable_env \<Rightarrow> bool" where
  "env_ok env \<longleftrightarrow>
     (\<forall>s. length (sha256 env s) = 32) \<and>
     (\<forall>v s. json_to_string env v = Some s \<longrightarrow> json_from_str env s = Some v)"

lemma env_okD:
  assumes "env_ok env"
  shows "length (sha256 env s) = 32"
    and "json_to_string env v = Some s \<Longrightarrow> json_from_str env s = Some v"
  using assms by (auto simp: env_ok_def)

subsection \<open>Integers and identifiers at the SQL boundary\<close>

definition i64_max :: int where "i64_max = 2 ^ 63 - 1"

definition to_sql_integer :: "u64 \<Rightarrow> string \<Rightarrow> (DurableError, int) result" where
  "to_sql_integer v field = (if uint v \<le> i64_max then Inr (uint v) else Inl (DE_IntegerRange field))"

definition from_sql_integer :: "int \<Rightarrow> string \<Rightarrow> (DurableError, u64) result" where
  "from_sql_integer v field = (if 0 \<le> v then Inr (word_of_int v) else Inl (DE_IntegerRange field))"

definition i64_of_usize :: "nat \<Rightarrow> int option" where
  "i64_of_usize n = (if int n \<le> i64_max then Some (int n) else None)"

definition i64_checked_add :: "int \<Rightarrow> int \<Rightarrow> int option" where
  "i64_checked_add a b = (if - i64_max - 1 \<le> a + b \<and> a + b \<le> i64_max then Some (a + b) else None)"

definition usize_checked_add :: "nat \<Rightarrow> nat \<Rightarrow> nat option" where
  "usize_checked_add a b = (if a + b < 2 ^ 64 then Some (a + b) else None)"

definition task_id_bytes :: "TaskId \<Rightarrow> string" where
  "task_id_bytes t = be_bytes 16 (unat t)"

definition task_id_from_bytes :: "string \<Rightarrow> (DurableError, TaskId) result" where
  "task_id_from_bytes bytes =
     (if length bytes = 16 then Inr (of_nat (be_value bytes)) else Inl DE_InvalidTaskId)"

text \<open>A value that a column of type INTEGER with a non-negativity check can hold.\<close>

definition sql_nat :: "int \<Rightarrow> bool" where
  "sql_nat i \<longleftrightarrow> 0 \<le> i \<and> i \<le> i64_max"

lemma to_sql_integer_Inr_iff [result_simps]:
  "to_sql_integer v f = Inr i \<longleftrightarrow> uint v \<le> i64_max \<and> i = uint v"
  by (auto simp: to_sql_integer_def)

lemma from_sql_integer_Inr_iff [result_simps]:
  "from_sql_integer i f = Inr v \<longleftrightarrow> 0 \<le> i \<and> v = word_of_int i"
  by (auto simp: from_sql_integer_def)

lemma sql_nat_uint [simp, intro]: "uint (v :: u64) \<le> i64_max \<Longrightarrow> sql_nat (uint v)"
  by (simp add: sql_nat_def)

lemma uint_sql_nat [simp]: "sql_nat i \<Longrightarrow> uint (word_of_int i :: u64) = i"
  by (simp add: sql_nat_def i64_max_def uint_word_of_int)

lemma to_from_sql_integer:
  "to_sql_integer v f = Inr i \<Longrightarrow> from_sql_integer i g = Inr v"
  by (auto simp: result_simps)

lemma from_to_sql_integer:
  "sql_nat i \<Longrightarrow> from_sql_integer i f = Inr v \<Longrightarrow> to_sql_integer v g = Inr i"
  by (simp add: result_simps) (simp add: sql_nat_def)

lemma word_of_int_sql_inject:
  "sql_nat i \<Longrightarrow> sql_nat j \<Longrightarrow> (word_of_int i :: u64) = word_of_int j \<longleftrightarrow> i = j"
  using uint_sql_nat by metis

lemma sql_nat_small [simp]: "n \<le> MAX_HISTORY_EVENTS \<Longrightarrow> sql_nat (int n)"
  by (simp add: sql_nat_def i64_max_def durable_limits)

lemma task_id_round_trip: "task_id_from_bytes (task_id_bytes t) = Inr t"
proof -
  have "unat t < 256 ^ 16" using unat_less_2p [of t] by simp
  then show ?thesis
    by (simp add: task_id_from_bytes_def task_id_bytes_def be_value_be_bytes)
qed

lemma task_id_bytes_inject: "task_id_bytes a = task_id_bytes b \<longleftrightarrow> a = b"
  by (metis task_id_round_trip sum.inject(2))

lemma be_value_Cons: "be_value (c # s) = byte_val c * 256 ^ length s + be_value s"
proof -
  have snoc: "le_value (xs @ [c]) = le_value xs + byte_val c * 256 ^ length xs" for xs
    by (induction xs) (simp_all add: algebra_simps)
  show ?thesis by (simp add: be_value_def snoc)
qed

lemma be_value_less_256: "be_value s < 256 ^ length s"
  using le_value_less [of "rev s"] by (simp add: be_value_def)

lemma be_value_lexord:
  "length a = length b \<Longrightarrow>
     (a, b) \<in> lexord {(x, y). byte_val x < byte_val y} \<longleftrightarrow> be_value a < be_value b"
proof (induction a b rule: list_induct2)
  case Nil
  then show ?case by simp
next
  case (Cons x xs y ys)
  have lt: "u < v \<Longrightarrow> be_value (s :: string) < 256 ^ n \<Longrightarrow>
      u * 256 ^ n + be_value s < v * 256 ^ n + w" for u v n w :: nat and s
  proof -
    assume "u < v" and s: "be_value s < 256 ^ n"
    then have "(u + 1) * 256 ^ n \<le> v * 256 ^ n" by (intro mult_right_mono) auto
    with s show ?thesis by simp
  qed
  have bx: "be_value xs < 256 ^ length ys" and bys: "be_value ys < 256 ^ length ys"
    using be_value_less_256 [of xs] be_value_less_256 [of ys] Cons.hyps by simp_all
  consider "byte_val x < byte_val y" | "byte_val y < byte_val x" | "byte_val x = byte_val y"
    by linarith
  then show ?case
  proof cases
    case 1
    then show ?thesis using lt [OF 1 bx] Cons.hyps by (simp add: be_value_Cons)
  next
    case 2
    then have "x \<noteq> y" by auto
    then show ?thesis
      using lt [OF 2 bys, of "be_value xs"] 2 Cons.hyps by (simp add: be_value_Cons)
  next
    case 3
    then have "x = y" by (metis char_of_byte_val)
    then show ?thesis using Cons by (simp add: be_value_Cons)
  qed
qed

text \<open>Ordering by the blob, byte by byte, is ordering by the identifier.\<close>

lemma task_id_bytes_less:
  "(task_id_bytes a, task_id_bytes b) \<in> lexord {(x, y). byte_val x < byte_val y} \<longleftrightarrow> a < b"
proof -
  have "unat a < 256 ^ 16" and "unat b < 256 ^ 16"
    using unat_less_2p [of a] unat_less_2p [of b] by simp_all
  then show ?thesis
    by (simp add: task_id_bytes_def be_value_lexord be_value_be_bytes word_less_nat_alt)
qed

subsection \<open>Tables\<close>

record event_row =
  er_kind :: string
  er_key :: string
  er_payload :: string
  er_recorded_at_ms :: int

record wakeup_row =
  wr_sequence :: int
  wr_wake_at_ms :: int
  wr_lease_owner :: "string option"
  wr_lease_until_ms :: "int option"

record signal_row =
  sr_task_id :: TaskId
  sr_signal_name :: string
  sr_payload :: string
  sr_sent_at_ms :: int

record program_row =
  pr_program_kind :: string
  pr_source :: string
  pr_source_sha256 :: string
  pr_registered_at_ms :: int

record completion_row =
  cr_next_sequence :: int
  cr_result_json :: string
  cr_completed_at_ms :: int

datatype exec_state = ES_ready | ES_running | ES_suspended | ES_failed | ES_completed

record execution_row =
  xr_state :: exec_state
  xr_generation :: int
  xr_owner :: "string option"
  xr_lease_until_ms :: "int option"
  xr_admission_key :: "string option"
  xr_request_hash :: "string option"

record receipt_row =
  rr_signal_name :: string
  rr_payload :: string
  rr_signal_id :: int

record db =
  d_events :: "((TaskId \<times> int) \<times> event_row) list"
  d_wakeups :: "(TaskId \<times> wakeup_row) list"
  d_history_stats :: "(TaskId \<times> (int \<times> int)) list"
  d_signal_inbox :: "(int \<times> signal_row) list"
  d_inbox_seq :: int
  d_signal_waits :: "(TaskId \<times> (int \<times> string)) list"
  d_programs :: "(TaskId \<times> program_row) list"
  d_completions :: "(TaskId \<times> completion_row) list"
  d_program_stats :: "int \<times> int"
  d_executions :: "(TaskId \<times> execution_row) list"
  d_receipts :: "((TaskId \<times> string) \<times> receipt_row) list"

record SqliteStore =
  st_execution :: "ExecutionClaim option"

text \<open>An operation either commits, with its result and the new tables, or fails, and then its
  transaction is rolled back: the caller keeps the tables it had. The operations that read the
  system clock get the reading as an argument, in milliseconds since the epoch (negative before
  it); an operation that reads it several times gets the \<open>k\<close>-th reading from \<open>clk k\<close>.\<close>

type_synonym 'a db_op = "db \<Rightarrow> (DurableError, 'a \<times> db) result"
type_synonym clock = "nat \<Rightarrow> int"

definition empty_db :: db where
  "empty_db = \<lparr>d_events = [], d_wakeups = [], d_history_stats = [], d_signal_inbox = [],
     d_inbox_seq = 0, d_signal_waits = [], d_programs = [], d_completions = [],
     d_program_stats = (0, 0), d_executions = [], d_receipts = []\<rparr>"

text \<open>\<open>INSERT\<close> into a table with a primary key.\<close>

definition sql_insert :: "'k \<Rightarrow> 'r \<Rightarrow> ('k \<times> 'r) list \<Rightarrow> (DurableError, ('k \<times> 'r) list) result" where
  "sql_insert k r tbl = (if map_of tbl k = None then Inr (tbl @ [(k, r)]) else Inl DE_Sqlite)"

lemma sql_insert_Inr_iff [result_simps]:
  "sql_insert k r tbl = Inr tbl' \<longleftrightarrow> map_of tbl k = None \<and> tbl' = tbl @ [(k, r)]"
  by (auto simp: sql_insert_def)

text \<open>Tables are reasoned about through \<open>map_of\<close>, so its rewriting into list membership and
  concatenation is switched off.\<close>

lemma map_of_snoc [simp]:
  "map_of tbl k = None \<Longrightarrow> map_of (tbl @ [(k, r)]) k' = (if k' = k then Some r else map_of tbl k')"
  by (auto simp: map_add_def split: option.splits)

declare map_of_eq_Some_iff [simp del] map_of_append [simp del]

subsection \<open>Validation\<close>

definition validate_program_source :: "string \<Rightarrow> (DurableError, unit) result" where
  "validate_program_source source =
     (if source = [] \<or> length source > MAX_DURABLE_PROGRAM_BYTES then Inl DE_InvalidProgram
      else Inr ())"

definition durable_validate_lease_owner :: "string \<Rightarrow> (DurableError, unit) result" where
  "durable_validate_lease_owner owner =
     (if owner = [] \<or> length owner > DURABLE_MAX_LEASE_OWNER_BYTES then Inl DE_InvalidLeaseOwner
      else Inr ())"

definition validate_signal_name :: "string \<Rightarrow> (DurableError, unit) result" where
  "validate_signal_name name =
     (if name = [] \<or> length name > MAX_EVENT_KEY_BYTES then Inl DE_InvalidSignalName else Inr ())"

definition validate_key :: "string \<Rightarrow> (DurableError, unit) result" where
  "validate_key key =
     (if key = [] \<or> length key > 256 then Inl DE_InvalidIdempotencyKey else Inr ())"

definition validate_event :: "'v durable_env \<Rightarrow> 'v NewEvent \<Rightarrow> (DurableError, string \<times> int) result" where
  "validate_event env event =
     (if length (ne_key event) > MAX_EVENT_KEY_BYTES then Inl DE_EventKeyTooLarge
      else rbind (ok_or (json_to_string env (ne_payload event)) DE_Json) (\<lambda>payload.
        if length payload > MAX_EVENT_PAYLOAD_BYTES then Inl DE_EventPayloadTooLarge
        else rbind (to_sql_integer (ne_recorded_at_ms event) ''recorded_at_ms'') (\<lambda>t.
          Inr (payload, t))))"

definition raw_event ::
  "'v durable_env \<Rightarrow> EventKind \<Rightarrow> string \<Rightarrow> string \<Rightarrow> u64 \<Rightarrow> (DurableError, 'v NewEvent) result" where
  "raw_event env kind key payload_json recorded_at_ms =
     (if length key > MAX_EVENT_KEY_BYTES then Inl DE_EventKeyTooLarge
      else if length payload_json > MAX_EVENT_PAYLOAD_BYTES then Inl DE_EventPayloadTooLarge
      else rbind (ok_or (json_from_str env payload_json) DE_Json) (\<lambda>payload.
        Inr \<lparr>ne_kind = kind, ne_key = key, ne_payload = payload,
             ne_recorded_at_ms = recorded_at_ms\<rparr>))"

definition stored_event ::
  "TaskId \<Rightarrow> int \<Rightarrow> 'v NewEvent \<Rightarrow> string \<Rightarrow> (DurableError, 'v TaskEvent) result" where
  "stored_event task_id sequence event payload_json =
     rbind (from_sql_integer sequence ''sequence'') (\<lambda>s.
       Inr \<lparr>te_task_id = task_id, te_sequence = s, te_kind = ne_kind event, te_key = ne_key event,
            te_payload = ne_payload event, te_recorded_at_ms = ne_recorded_at_ms event,
            te_payload_json = payload_json\<rparr>)"

end
