(* ===== verification/Durable_Replay.thy ===== *)
theory Durable_Replay
  imports Durable_Types
begin

text \<open>
  Deterministic replay (\<open>History\<close>, \<open>ReplayCursor\<close> and \<open>ReplayError\<close> of
  \<open>src/crates/tysel-durable/src/lib.rs\<close>): a cursor over the recorded events that a re-executed
  program consumes boundary by boundary. A method that takes \<open>&mut self\<close> returns the cursor beside
  its result.
\<close>

record 'v ReplayCursor =
  rc_events :: "'v TaskEvent list"
  rc_position :: nat

datatype ReplayError =
    RE_Mismatch (re_sequence: u64) (re_expected_kind: EventKind) (re_expected_key: string)
      (re_actual_kind: EventKind) (re_actual_key: string)
  | RE_HistoryRemaining u64 EventKind string

definition History_replay :: "'v History \<Rightarrow> 'v ReplayCursor" where
  "History_replay h = \<lparr>rc_events = h_events h, rc_position = 0\<rparr>"

definition vec_get :: "'a list \<Rightarrow> nat \<Rightarrow> 'a option" where
  "vec_get xs i = (if i < length xs then Some (xs ! i) else None)"

definition consume_event ::
  "EventKind \<Rightarrow> string \<Rightarrow> 'v ReplayCursor \<Rightarrow>
     (ReplayError, 'v TaskEvent option) result \<times> 'v ReplayCursor" where
  "consume_event kind key c =
     (case vec_get (rc_events c) (rc_position c) of
        None \<Rightarrow> (Inr None, c)
      | Some event \<Rightarrow>
          if te_kind event \<noteq> kind \<or> te_key event \<noteq> key
          then (Inl (RE_Mismatch (te_sequence event) (te_kind event) (te_key event) kind key), c)
          else (Inr (Some event), c\<lparr>rc_position := rc_position c + 1\<rparr>))"

definition consume ::
  "EventKind \<Rightarrow> string \<Rightarrow> 'v ReplayCursor \<Rightarrow> (ReplayError, 'v option) result \<times> 'v ReplayCursor" where
  "consume kind key c =
     (case consume_event kind key c of
        (Inl e, c') \<Rightarrow> (Inl e, c')
      | (Inr event, c') \<Rightarrow> (Inr (map_option te_payload event), c'))"

fun iter_position :: "('a \<Rightarrow> bool) \<Rightarrow> 'a list \<Rightarrow> nat option" where
  "iter_position P [] = None"
| "iter_position P (x # xs) = (if P x then Some 0 else map_option Suc (iter_position P xs))"

definition consume_through ::
  "EventKind \<Rightarrow> string \<Rightarrow> 'v ReplayCursor \<Rightarrow> 'v TaskEvent option \<times> 'v ReplayCursor" where
  "consume_through kind key c =
     (case iter_position (\<lambda>event. te_kind event = kind \<and> te_key event = key)
             (drop (rc_position c) (rc_events c)) of
        None \<Rightarrow> (None, c)
      | Some offset \<Rightarrow>
          let c' = c\<lparr>rc_position := rc_position c + offset + 1\<rparr>
          in (vec_get (rc_events c') (rc_position c' - 1), c'))"

definition ensure_consumed :: "'v ReplayCursor \<Rightarrow> (ReplayError, unit) result" where
  "ensure_consumed c =
     (case vec_get (rc_events c) (rc_position c) of
        Some event \<Rightarrow> Inl (RE_HistoryRemaining (te_sequence event) (te_kind event) (te_key event))
      | None \<Rightarrow> Inr ())"

subsection \<open>Runs of a program\<close>

text \<open>A re-executed program asks for its boundaries in order and stops at the first error.\<close>

fun replay_run ::
  "(EventKind \<times> string) list \<Rightarrow> 'v ReplayCursor \<Rightarrow>
     (ReplayError, 'v TaskEvent option list) result \<times> 'v ReplayCursor" where
  "replay_run [] c = (Inr [], c)"
| "replay_run (b # bs) c =
     (case consume_event (fst b) (snd b) c of
        (Inl e, c') \<Rightarrow> (Inl e, c')
      | (Inr r, c') \<Rightarrow>
          (case replay_run bs c' of
             (Inl e, c'') \<Rightarrow> (Inl e, c'')
           | (Inr rs, c'') \<Rightarrow> (Inr (r # rs), c'')))"

abbreviation boundary :: "'v TaskEvent \<Rightarrow> EventKind \<times> string" where
  "boundary e \<equiv> (te_kind e, te_key e)"

lemma consume_event_beyond:
  "length (rc_events c) \<le> rc_position c \<Longrightarrow> consume_event k key c = (Inr None, c)"
  by (simp add: consume_event_def vec_get_def)

lemma replay_run_beyond:
  "length (rc_events c) \<le> rc_position c \<Longrightarrow> replay_run bs c = (Inr (replicate (length bs) None), c)"
  by (induction bs) (simp_all add: consume_event_beyond)

lemma consume_event_next:
  assumes "drop (rc_position c) (rc_events c) = e # es"
  shows "consume_event (fst b) (snd b) c =
    (if boundary e = b then (Inr (Some e), c\<lparr>rc_position := Suc (rc_position c)\<rparr>)
     else (Inl (RE_Mismatch (te_sequence e) (te_kind e) (te_key e) (fst b) (snd b)), c))"
    and "drop (rc_position (c\<lparr>rc_position := Suc (rc_position c)\<rparr>)) (rc_events c) = es"
proof -
  have less: "rc_position c < length (rc_events c)"
    using assms by (metis drop_eq_Nil list.discI not_less)
  have nth: "rc_events c ! rc_position c = e" and tail: "drop (Suc (rc_position c)) (rc_events c) = es"
    using assms Cons_nth_drop_Suc [OF less] by auto
  show "consume_event (fst b) (snd b) c =
    (if boundary e = b then (Inr (Some e), c\<lparr>rc_position := Suc (rc_position c)\<rparr>)
     else (Inl (RE_Mismatch (te_sequence e) (te_kind e) (te_key e) (fst b) (snd b)), c))"
    using less nth by (cases b) (auto simp: consume_event_def vec_get_def)
  show "drop (rc_position (c\<lparr>rc_position := Suc (rc_position c)\<rparr>)) (rc_events c) = es"
    using tail by simp
qed

lemma replay_run_characterised:
  assumes "drop (rc_position c) (rc_events c) = es"
  shows "replay_run bs c = (Inr outs, c') \<longleftrightarrow>
    map boundary (take (length bs) es) = take (length es) bs \<and>
    outs = map Some (take (length bs) es) @ replicate (length bs - length es) None \<and>
    c' = c\<lparr>rc_position := rc_position c + min (length bs) (length es)\<rparr>"
  using assms
proof (induction bs arbitrary: c es outs)
  case Nil
  then show ?case by auto
next
  case (Cons b bs)
  show ?case
  proof (cases es)
    case Nil
    then have "length (rc_events c) \<le> rc_position c" using Cons.prems by simp
    then show ?thesis
      using Nil by (auto simp: replay_run_beyond consume_event_beyond)
  next
    case (Cons e es')
    note step = consume_event_next(1) [OF Cons.prems [unfolded Cons], of b]
      consume_event_next(2) [OF Cons.prems [unfolded Cons]]
    have IH: "replay_run bs (c\<lparr>rc_position := Suc (rc_position c)\<rparr>) = (Inr outs', c') \<longleftrightarrow>
      map boundary (take (length bs) es') = take (length es') bs \<and>
      outs' = map Some (take (length bs) es') @ replicate (length bs - length es') None \<and>
      c' = c\<lparr>rc_position := Suc (rc_position c) + min (length bs) (length es')\<rparr>" for outs'
      using Cons.IH [of "c\<lparr>rc_position := Suc (rc_position c)\<rparr>" es' outs'] step(2) by simp
    show ?thesis
    proof (cases "boundary e = b")
      case True
      have "replay_run (b # bs) c = (Inr outs, c') \<longleftrightarrow>
        (\<exists>outs'. outs = Some e # outs' \<and>
           replay_run bs (c\<lparr>rc_position := Suc (rc_position c)\<rparr>) = (Inr outs', c'))"
        using True step(1) by (auto split: prod.splits sum.splits)
      then show ?thesis unfolding IH using True Cons by auto
    next
      case False
      then show ?thesis using step(1) Cons by auto
    qed
  qed
qed

lemma iter_position_Some:
  "iter_position P xs = Some i \<longleftrightarrow> i < length xs \<and> P (xs ! i) \<and> (\<forall>j < i. \<not> P (xs ! j))"
proof (induction xs arbitrary: i)
  case (Cons x xs)
  show ?case
  proof (cases i)
    case 0
    then show ?thesis by auto
  next
    case (Suc k)
    then show ?thesis using Cons [of k] by (auto simp: less_Suc_eq_0_disj)
  qed
qed simp

lemma iter_position_None: "iter_position P xs = None \<longleftrightarrow> (\<forall>x \<in> set xs. \<not> P x)"
  by (induction xs) auto

subsection \<open>Properties\<close>

text \<open>
  C29. Replay is deterministic. A re-executed program that asks a fresh cursor for the boundaries
  \<open>bs\<close> runs through without an error if and only if its boundaries agree, kind and key, with the
  recorded events position by position, as far as both go; it is then handed exactly the recorded
  events in order, followed by "not recorded yet" for every further boundary; and the history is
  reported as fully consumed exactly when the program asked for at least as many boundaries as are
  recorded.
\<close>

theorem replay_deterministic:
  "(replay_run bs (History_replay h) = (Inr outs, c) \<longleftrightarrow>
      map boundary (take (length bs) (h_events h)) = take (length (h_events h)) bs \<and>
      outs = map Some (take (length bs) (h_events h))
             @ replicate (length bs - length (h_events h)) None \<and>
      c = \<lparr>rc_events = h_events h, rc_position = min (length bs) (length (h_events h))\<rparr>)
   \<and> (ensure_consumed \<lparr>rc_events = h_events h, rc_position = min (length bs) (length (h_events h))\<rparr>
        = Inr () \<longleftrightarrow> length (h_events h) \<le> length bs)"
proof -
  have "drop (rc_position (History_replay h)) (rc_events (History_replay h)) = h_events h"
    by (simp add: History_replay_def)
  from replay_run_characterised [OF this] show ?thesis
    by (auto simp: History_replay_def ensure_consumed_def vec_get_def)
qed

text \<open>
  Skipping to a recorded outcome. \<open>consume_through\<close> finds the first event at or after the
  cursor with the wanted kind and key, returns it and moves just past it, so that it cannot be
  consumed twice; when there is none the cursor stays where it is. The cursor never moves back and
  never leaves the recorded history.
\<close>

theorem consume_through_first_match:
  assumes "rc_position c \<le> length (rc_events c)"
  shows "(case consume_through kind key c of
      (None, c') \<Rightarrow> c' = c \<and> (\<forall>e \<in> set (drop (rc_position c) (rc_events c)). boundary e \<noteq> (kind, key))
    | (Some e, c') \<Rightarrow>
        rc_events c' = rc_events c \<and>
        rc_position c < rc_position c' \<and> rc_position c' \<le> length (rc_events c) \<and>
        e = rc_events c ! (rc_position c' - 1) \<and> boundary e = (kind, key) \<and>
        (\<forall>j. rc_position c \<le> j \<longrightarrow> j < rc_position c' - 1 \<longrightarrow> boundary (rc_events c ! j) \<noteq> (kind, key)))"
proof (cases "iter_position (\<lambda>e. te_kind e = kind \<and> te_key e = key) (drop (rc_position c) (rc_events c))")
  case None
  then have "\<forall>e \<in> set (drop (rc_position c) (rc_events c)). boundary e \<noteq> (kind, key)"
    by (simp add: iter_position_None)
  with None show ?thesis by (simp add: consume_through_def)
next
  case (Some i)
  note found = Some [unfolded iter_position_Some]
  have skipped: "boundary (rc_events c ! j) \<noteq> (kind, key)"
    if "rc_position c \<le> j" "j < rc_position c + i" for j
  proof -
    have "j - rc_position c < i" and "rc_position c + (j - rc_position c) = j" using that by auto
    with found assms show ?thesis
      by (metis (no_types, lifting) nth_drop prod.inject)
  qed
  show ?thesis
    using found skipped assms
    by (auto simp: consume_through_def Some Let_def vec_get_def)
qed

definition demo_event :: "u64 \<Rightarrow> EventKind \<Rightarrow> string \<Rightarrow> unit TaskEvent" where
  "demo_event s k key = \<lparr>te_task_id = 7, te_sequence = s, te_kind = k, te_key = key,
     te_payload = (), te_recorded_at_ms = 0, te_payload_json = ''null''\<rparr>"

theorem consume_through_first_match_witness:
  "consume_through EK_Effect ''b''
     \<lparr>rc_events = [demo_event 0 EK_Step ''a'', demo_event 1 EK_Effect ''b''], rc_position = 0\<rparr>
   = (Some (demo_event 1 EK_Effect ''b''),
      \<lparr>rc_events = [demo_event 0 EK_Step ''a'', demo_event 1 EK_Effect ''b''], rc_position = 2\<rparr>)
   \<and> (0::nat) < 2"
  using consume_through_first_match [of
    "\<lparr>rc_events = [demo_event 0 EK_Step ''a'', demo_event 1 EK_Effect ''b''], rc_position = 0\<rparr>"
    EK_Effect "''b''"]
  by (simp add: consume_through_def vec_get_def demo_event_def)

end
