(* ===== verification/Durable_Events.thy ===== *)
theory Durable_Events
  imports Durable_Replay
begin

text \<open>
  The event log of the durable store: the execution guard (\<open>execution.rs\<close>), the check that a task
  is still open (\<open>lifecycle.rs\<close>), and appending to and loading a task's history (\<open>lib.rs\<close>).
\<close>

subsection \<open>Guards\<close>

definition now :: "int \<Rightarrow> (DurableError, u64) result" where
  "now reading =
     (if reading < 0 then Inl DE_Io
      else if reading < 2 ^ 64 then Inr (word_of_int reading)
      else Inl (DE_IntegerRange ''time''))"

definition execution_live :: "db \<Rightarrow> TaskId \<Rightarrow> string \<Rightarrow> int \<Rightarrow> int \<Rightarrow> bool" where
  "execution_live d task owner generation time =
     (case map_of (d_executions d) task of
        None \<Rightarrow> False
      | Some r \<Rightarrow> xr_state r = ES_running \<and> xr_owner r = Some owner \<and> xr_generation r = generation
                  \<and> (case xr_lease_until_ms r of None \<Rightarrow> False | Some u \<Rightarrow> u > time))"

definition guard_execution :: "SqliteStore \<Rightarrow> int \<Rightarrow> TaskId \<Rightarrow> db \<Rightarrow> (DurableError, unit) result" where
  "guard_execution st reading task d =
     (case st_execution st of
        None \<Rightarrow> Inr ()
      | Some claim \<Rightarrow>
          rbind (to_sql_integer (ec_generation claim) ''generation'') (\<lambda>generation.
          rbind (now reading) (\<lambda>n.
          rbind (to_sql_integer n ''time'') (\<lambda>time.
            if task \<noteq> ec_task_id claim \<or> \<not> execution_live d task (ec_owner claim) generation time
            then Inl DE_ExecutionLeaseLost
            else Inr ()))))"

definition ensure_open :: "TaskId \<Rightarrow> db \<Rightarrow> (DurableError, unit) result" where
  "ensure_open task_id d =
     (if map_of (d_completions d) task_id \<noteq> None then Inl (DE_TaskCompleted task_id) else Inr ())"

lemma ensure_open_Inr_iff [result_simps]:
  "ensure_open t d = Inr u \<longleftrightarrow> map_of (d_completions d) t = None"
  by (auto simp: ensure_open_def)

subsection \<open>Appending\<close>

text \<open>The rows of one task in table order, and \<open>COALESCE(MAX(sequence) + 1, 0)\<close> over them.\<close>

definition events_of :: "db \<Rightarrow> TaskId \<Rightarrow> (int \<times> event_row) list" where
  "events_of d t = map (\<lambda>(k, r). (snd k, r)) (filter (\<lambda>(k, r). fst k = t) (d_events d))"

definition next_sequence :: "db \<Rightarrow> TaskId \<Rightarrow> int" where
  "next_sequence d t = (if events_of d t = [] then 0 else Max (set (map fst (events_of d t))) + 1)"

definition check_expected :: "u64 option \<Rightarrow> int \<Rightarrow> (DurableError, unit) result" where
  "check_expected expected_sequence sequence =
     (case expected_sequence of
        None \<Rightarrow> Inr ()
      | Some expected \<Rightarrow>
          rbind (from_sql_integer sequence ''sequence'') (\<lambda>actual.
            if actual \<noteq> expected then Inl (DE_HistoryConflict expected actual) else Inr ()))"

definition insert_event ::
  "TaskId \<Rightarrow> u64 option \<Rightarrow> 'v NewEvent \<Rightarrow> string \<Rightarrow> int \<Rightarrow> int db_op" where
  "insert_event task_id expected_sequence event payload recorded_at_ms d =
     rbind (ensure_open task_id d) (\<lambda>_.
     rbind (ok_or (usize_checked_add (length (ne_key event)) (length payload)) DE_HistoryByteLimit)
       (\<lambda>event_bytes.
     let (event_count, payload_bytes) =
           (case map_of (d_history_stats d) task_id of None \<Rightarrow> (0, 0) | Some s \<Rightarrow> s) in
     if event_count \<ge> int MAX_HISTORY_EVENTS then Inl DE_HistoryEventLimit
     else
     rbind (ok_or (i64_of_usize event_bytes) DE_HistoryByteLimit) (\<lambda>event_bytes_sql.
     rbind (ok_or (i64_checked_add payload_bytes event_bytes_sql) DE_HistoryByteLimit)
       (\<lambda>next_payload_bytes.
     if next_payload_bytes > int MAX_HISTORY_BYTES then Inl DE_HistoryByteLimit
     else
     let sequence = next_sequence d task_id in
     rbind (check_expected expected_sequence sequence) (\<lambda>_.
     rbind (sql_insert (task_id, sequence)
              \<lparr>er_kind = EventKind_as_str (ne_kind event), er_key = ne_key event,
               er_payload = payload, er_recorded_at_ms = recorded_at_ms\<rparr> (d_events d)) (\<lambda>events'.
       Inr (sequence,
            d\<lparr>d_events := events',
              d_history_stats := AList.update task_id
                (case map_of (d_history_stats d) task_id of
                   None \<Rightarrow> (1, int event_bytes)
                 | Some (c, b) \<Rightarrow> (c + 1, b + int event_bytes)) (d_history_stats d)\<rparr>)))))))"

definition upsert_wakeup :: "TaskId \<Rightarrow> int \<Rightarrow> int \<Rightarrow> db \<Rightarrow> db" where
  "upsert_wakeup task_id sequence wake_at_ms d =
     d\<lparr>d_wakeups := AList.update task_id
        \<lparr>wr_sequence = sequence, wr_wake_at_ms = wake_at_ms, wr_lease_owner = None,
         wr_lease_until_ms = None\<rparr> (d_wakeups d)\<rparr>"

definition append_event_json_at ::
  "'v durable_env \<Rightarrow> SqliteStore \<Rightarrow> clock \<Rightarrow> TaskId \<Rightarrow> u64 \<Rightarrow> EventKind \<Rightarrow> string \<Rightarrow> string \<Rightarrow> u64 \<Rightarrow>
     'v TaskEvent db_op" where
  "append_event_json_at env st clk task_id expected_sequence kind key payload_json recorded_at_ms d =
     rbind (raw_event env kind key payload_json recorded_at_ms) (\<lambda>event.
     rbind (to_sql_integer recorded_at_ms ''recorded_at_ms'') (\<lambda>recorded.
     rbind (guard_execution st (clk 0) task_id d) (\<lambda>_.
     rbind (insert_event task_id (Some expected_sequence) event payload_json recorded d) (\<lambda>(sequence, d').
     rbind (guard_execution st (clk 1) task_id d') (\<lambda>_.
     rbind (stored_event task_id sequence event payload_json) (\<lambda>e. Inr (e, d')))))))"

definition append_event_inner ::
  "'v durable_env \<Rightarrow> SqliteStore \<Rightarrow> clock \<Rightarrow> TaskId \<Rightarrow> u64 option \<Rightarrow> 'v NewEvent \<Rightarrow> 'v TaskEvent db_op" where
  "append_event_inner env st clk task_id expected_sequence event d =
     rbind (validate_event env event) (\<lambda>(payload, recorded_at_ms).
     rbind (guard_execution st (clk 0) task_id d) (\<lambda>_.
     rbind (insert_event task_id expected_sequence event payload recorded_at_ms d) (\<lambda>(sequence, d').
     rbind (guard_execution st (clk 1) task_id d') (\<lambda>_.
     rbind (stored_event task_id sequence event payload) (\<lambda>e. Inr (e, d'))))))"

definition append_event where
  "append_event env st clk task_id event d = append_event_inner env st clk task_id None event d"

definition append_event_at where
  "append_event_at env st clk task_id expected_sequence event d =
     append_event_inner env st clk task_id (Some expected_sequence) event d"

definition append_event_json_with_wakeup_at ::
  "'v durable_env \<Rightarrow> SqliteStore \<Rightarrow> clock \<Rightarrow> TaskId \<Rightarrow> u64 \<Rightarrow> string \<Rightarrow> string \<Rightarrow> u64 \<Rightarrow> u64 \<Rightarrow>
     'v TaskEvent db_op" where
  "append_event_json_with_wakeup_at env st clk task_id expected_sequence key payload_json
       recorded_at_ms wake_at_ms d =
     rbind (raw_event env EK_Sleep key payload_json recorded_at_ms) (\<lambda>event.
     rbind (to_sql_integer recorded_at_ms ''recorded_at_ms'') (\<lambda>recorded.
     rbind (to_sql_integer wake_at_ms ''wake_at_ms'') (\<lambda>wake.
     rbind (guard_execution st (clk 0) task_id d) (\<lambda>_.
     rbind (insert_event task_id (Some expected_sequence) event payload_json recorded d) (\<lambda>(sequence, d').
     let d'' = upsert_wakeup task_id sequence wake d' in
     rbind (guard_execution st (clk 1) task_id d'') (\<lambda>_.
     rbind (stored_event task_id sequence event payload_json) (\<lambda>e. Inr (e, d''))))))))"

definition append_event_with_wakeup_inner ::
  "'v durable_env \<Rightarrow> SqliteStore \<Rightarrow> clock \<Rightarrow> TaskId \<Rightarrow> u64 option \<Rightarrow> 'v NewEvent \<Rightarrow> u64 \<Rightarrow> 'v TaskEvent db_op" where
  "append_event_with_wakeup_inner env st clk task_id expected_sequence event wake_at_ms d =
     rbind (validate_event env event) (\<lambda>(payload, recorded_at_ms).
     rbind (to_sql_integer wake_at_ms ''wake_at_ms'') (\<lambda>wake.
     rbind (guard_execution st (clk 0) task_id d) (\<lambda>_.
     rbind (insert_event task_id expected_sequence event payload recorded_at_ms d) (\<lambda>(sequence, d').
     let d'' = upsert_wakeup task_id sequence wake d' in
     rbind (guard_execution st (clk 1) task_id d'') (\<lambda>_.
     rbind (stored_event task_id sequence event payload) (\<lambda>e. Inr (e, d'')))))))"

definition append_event_with_wakeup where
  "append_event_with_wakeup env st clk task_id event wake_at_ms d =
     append_event_with_wakeup_inner env st clk task_id None event wake_at_ms d"

definition append_event_with_wakeup_at where
  "append_event_with_wakeup_at env st clk task_id expected_sequence event wake_at_ms d =
     append_event_with_wakeup_inner env st clk task_id (Some expected_sequence) event wake_at_ms d"

subsection \<open>Loading\<close>

definition decode_event ::
  "'v durable_env \<Rightarrow> TaskId \<Rightarrow> int \<times> event_row \<Rightarrow> (DurableError, 'v TaskEvent) result" where
  "decode_event env task_id row =
     rbind (from_sql_integer (fst row) ''sequence'') (\<lambda>sequence.
     rbind (EventKind_parse (er_kind (snd row))) (\<lambda>kind.
     rbind (ok_or (json_from_str env (er_payload (snd row))) DE_Json) (\<lambda>payload.
     rbind (from_sql_integer (er_recorded_at_ms (snd row)) ''recorded_at_ms'') (\<lambda>recorded_at_ms.
       Inr \<lparr>te_task_id = task_id, te_sequence = sequence, te_kind = kind, te_key = er_key (snd row),
            te_payload = payload, te_recorded_at_ms = recorded_at_ms,
            te_payload_json = er_payload (snd row)\<rparr>))))"

fun load_rows ::
  "'v durable_env \<Rightarrow> TaskId \<Rightarrow> (int \<times> event_row) list \<Rightarrow> 'v TaskEvent list \<Rightarrow> nat \<Rightarrow>
     (DurableError, 'v TaskEvent list) result" where
  "load_rows env task_id [] events history_bytes = Inr events"
| "load_rows env task_id (row # rows) events history_bytes =
     (if length events \<ge> MAX_HISTORY_EVENTS then Inl DE_HistoryEventLimit
      else
      rbind (ok_or (Option.bind (usize_checked_add history_bytes (length (er_key (snd row))))
               (\<lambda>bytes. usize_checked_add bytes (length (er_payload (snd row))))) DE_HistoryByteLimit)
        (\<lambda>history_bytes.
      if history_bytes > MAX_HISTORY_BYTES then Inl DE_HistoryByteLimit
      else
      rbind (decode_event env task_id row) (\<lambda>e.
        load_rows env task_id rows (events @ [e]) history_bytes)))"

definition load_history :: "'v durable_env \<Rightarrow> TaskId \<Rightarrow> db \<Rightarrow> (DurableError, 'v History) result" where
  "load_history env task_id d =
     rbind (load_rows env task_id
              (take (MAX_HISTORY_EVENTS + 1) (sort_key fst (events_of d task_id))) [] 0)
       (\<lambda>events. Inr \<lparr>h_task_id = task_id, h_events = events\<rparr>)"

subsection \<open>Invariant of the log\<close>

text \<open>The log of a task as a client sees it, and what every committed state keeps: per task the
  sequence numbers are \<open>0, 1, 2, ...\<close> in table order, the statistics row counts the events and their
  bytes, both limits hold, and every row decodes.\<close>

definition event_size :: "event_row \<Rightarrow> nat" where
  "event_size r = length (er_key r) + length (er_payload r)"

definition history_size :: "(int \<times> event_row) list \<Rightarrow> nat" where
  "history_size rows = sum_list (map (event_size \<circ> snd) rows)"

definition log_of :: "'v durable_env \<Rightarrow> db \<Rightarrow> TaskId \<Rightarrow> 'v TaskEvent list" where
  "log_of env d t = map (projr \<circ> decode_event env t) (events_of d t)"

definition rows_ok :: "'v durable_env \<Rightarrow> TaskId \<Rightarrow> (int \<times> event_row) list \<Rightarrow> bool" where
  "rows_ok env t rows \<longleftrightarrow>
     map fst rows = map int [0..<length rows] \<and>
     length rows \<le> MAX_HISTORY_EVENTS \<and> history_size rows \<le> MAX_HISTORY_BYTES \<and>
     (\<forall>row \<in> set rows. \<exists>e. decode_event env t row = Inr e)"

definition stats_ok :: "(int \<times> int) option \<Rightarrow> (int \<times> event_row) list \<Rightarrow> bool" where
  "stats_ok s rows \<longleftrightarrow>
     s = (if rows = [] then None else Some (int (length rows), int (history_size rows)))"

definition history_inv :: "'v durable_env \<Rightarrow> db \<Rightarrow> bool" where
  "history_inv env d \<longleftrightarrow>
     (\<forall>t. rows_ok env t (events_of d t) \<and> stats_ok (map_of (d_history_stats d) t) (events_of d t))"

lemma history_invD:
  assumes "history_inv env d"
  shows "rows_ok env t (events_of d t)" and "stats_ok (map_of (d_history_stats d) t) (events_of d t)"
  using assms by (simp_all add: history_inv_def)

lemma history_inv_cong:
  "d_events d' = d_events d \<Longrightarrow> d_history_stats d' = d_history_stats d \<Longrightarrow>
     history_inv env d' \<longleftrightarrow> history_inv env d"
  by (simp add: history_inv_def events_of_def)

lemma log_of_cong: "d_events d' = d_events d \<Longrightarrow> log_of env d' = log_of env d"
  by (simp add: log_of_def events_of_def fun_eq_iff)

lemma history_inv_empty: "history_inv env empty_db"
  by (simp add: history_inv_def empty_db_def events_of_def rows_ok_def stats_ok_def history_size_def)

lemma events_of_snoc:
  "events_of (d\<lparr>d_events := d_events d @ [((t, s), r)], d_history_stats := h\<rparr>) u =
     events_of d u @ (if u = t then [(s, r)] else [])"
  by (simp add: events_of_def)

lemma next_sequence_length:
  assumes "rows_ok env t (events_of d t)"
  shows "next_sequence d t = int (length (events_of d t))"
proof (cases "events_of d t = []")
  case True
  then show ?thesis by (simp add: next_sequence_def)
next
  case False
  let ?n = "length (events_of d t)"
  have n: "0 < ?n" using False by simp
  have m: "map fst (events_of d t) = map int [0..<?n]" using assms by (simp add: rows_ok_def)
  have "Max (set (map int [0..<?n])) = int (?n - 1)"
    by (rule Max_eqI) (use n in auto)
  then have "next_sequence d t = int (?n - 1) + 1"
    using False m by (simp only: next_sequence_def if_False)
  also have "\<dots> = int ?n" using n by arith
  finally show ?thesis .
qed

lemma log_of_sequences:
  assumes "history_inv env d"
  shows "map te_sequence (log_of env d t) = map of_nat [0..<length (log_of env d t)]"
    and "\<forall>e \<in> set (log_of env d t). te_task_id e = t"
proof -
  have ok: "rows_ok env t (events_of d t)" using history_invD assms by blast
  have dec: "te_sequence (projr (decode_event env t row)) = word_of_int (fst row)
      \<and> te_task_id (projr (decode_event env t row)) = t"
    if "row \<in> set (events_of d t)" for row
  proof -
    obtain e where e: "decode_event env t row = Inr e"
      using ok \<open>row \<in> _\<close> by (auto simp: rows_ok_def)
    then have "te_sequence e = word_of_int (fst row) \<and> te_task_id e = t"
      by (auto simp: decode_event_def result_simps)
    with e show ?thesis by simp
  qed
  have "map te_sequence (log_of env d t) = map word_of_int (map fst (events_of d t))"
    unfolding log_of_def using dec by (simp add: comp_def)
  also have "\<dots> = map of_nat [0..<length (log_of env d t)]"
    using ok by (simp add: rows_ok_def log_of_def comp_def)
  finally show "map te_sequence (log_of env d t) = map of_nat [0..<length (log_of env d t)]" .
  show "\<forall>e \<in> set (log_of env d t). te_task_id e = t"
    using dec by (auto simp: log_of_def)
qed

subsection \<open>Appending, specified\<close>

text \<open>A successful append: the task is open, the event gets the next position, its row goes to the
  end of the task's log and the statistics follow. Nothing else changes.\<close>

definition appended :: "TaskId \<Rightarrow> event_row \<Rightarrow> db \<Rightarrow> db \<Rightarrow> bool" where
  "appended t row d d' \<longleftrightarrow>
     map_of (d_completions d) t = None \<and>
     length (events_of d t) < MAX_HISTORY_EVENTS \<and>
     history_size (events_of d t) + event_size row \<le> MAX_HISTORY_BYTES \<and>
     (\<exists>h. d' = d\<lparr>d_events := d_events d @ [((t, int (length (events_of d t))), row)],
                 d_history_stats := h\<rparr> \<and>
          (\<forall>u. map_of h u =
             (if u = t then Some (int (length (events_of d t)) + 1,
                                  int (history_size (events_of d t)) + int (event_size row))
              else map_of (d_history_stats d) u)))"

lemma appended_events_of:
  "appended t row d d' \<Longrightarrow> events_of d' u =
     events_of d u @ (if u = t then [(int (length (events_of d t)), row)] else [])"
  by (auto simp: appended_def events_of_snoc simp del: fun_upd_apply)

lemma insert_event_appended:
  assumes inv: "history_inv env d"
    and ins: "insert_event t expected event payload recorded d = Inr (s, d')"
  defines "row \<equiv> \<lparr>er_kind = EventKind_as_str (ne_kind event), er_key = ne_key event,
                   er_payload = payload, er_recorded_at_ms = recorded\<rparr>"
  shows "appended t row d d' \<and> s = int (length (events_of d t)) \<and>
    (\<forall>e. expected = Some e \<longrightarrow> e = of_nat (length (events_of d t)))"
proof -
  note ok = history_invD [OF inv, of t]
  have s: "next_sequence d t = int (length (events_of d t))"
    by (rule next_sequence_length [OF ok(1)])
  have stats: "(case map_of (d_history_stats d) t of None \<Rightarrow> (0, 0) | Some s \<Rightarrow> s)
      = (int (length (events_of d t)), int (history_size (events_of d t)))"
    using ok(2) by (auto simp: stats_ok_def history_size_def)
  have upd: "(case map_of (d_history_stats d) t of None \<Rightarrow> (1, int n)
       | Some (c, b) \<Rightarrow> (c + 1, b + int n))
      = (int (length (events_of d t)) + 1, int (history_size (events_of d t)) + int n)" for n
    using ok(2) by (auto simp: stats_ok_def history_size_def)
  show ?thesis
    using ins
    unfolding insert_event_def s stats upd Let_def prod.case
    by (auto simp: result_simps usize_checked_add_def i64_of_usize_def i64_checked_add_def
        appended_def event_size_def row_def check_expected_def update_conv'
        split: if_splits option.split_asm)
qed

lemma appended_history_inv:
  assumes inv: "history_inv env d" and app: "appended t row d d'"
    and dec: "\<exists>e. decode_event env t (int (length (events_of d t)), row) = Inr e"
  shows "history_inv env d'"
proof -
  have "rows_ok env u (events_of d' u) \<and> stats_ok (map_of (d_history_stats d') u) (events_of d' u)" for u
  proof (cases "u = t")
    case True
    have "rows_ok env t (events_of d t)" using history_invD inv by blast
    with app dec True show ?thesis
      by (auto simp: rows_ok_def stats_ok_def appended_events_of [OF app] history_size_def appended_def)
  next
    case False
    with app history_invD [OF inv, of u] show ?thesis
      by (auto simp: appended_events_of [OF app] appended_def)
  qed
  then show ?thesis by (simp add: history_inv_def)
qed

lemma appended_log_of:
  "appended t row d d' \<Longrightarrow> log_of env d' u = log_of env d u @
     (if u = t then [projr (decode_event env t (int (length (events_of d t)), row))] else [])"
  by (simp add: log_of_def appended_events_of)

lemma event_row_decodes:
  assumes "json_from_str env payload = Some v" and "sql_nat s" and "sql_nat recorded"
  shows "decode_event env t (s, \<lparr>er_kind = EventKind_as_str k, er_key = key, er_payload = payload,
      er_recorded_at_ms = recorded\<rparr>) =
    Inr \<lparr>te_task_id = t, te_sequence = word_of_int s, te_kind = k, te_key = key, te_payload = v,
         te_recorded_at_ms = word_of_int recorded, te_payload_json = payload\<rparr>"
  using assms by (simp add: decode_event_def from_sql_integer_def sql_nat_def)

text \<open>The two ways an event enters the log agree: what is stored decodes to what is returned.\<close>

lemma insert_event_logs:
  assumes inv: "history_inv env d"
    and ins: "insert_event t expected event payload (uint (ne_recorded_at_ms event)) d = Inr (s, d')"
    and range: "uint (ne_recorded_at_ms event) \<le> i64_max"
    and json: "json_from_str env payload = Some (ne_payload event)"
    and ret: "stored_event t s event payload = Inr e"
  shows "history_inv env d' \<and> log_of env d' t = log_of env d t @ [e] \<and>
    (\<forall>u. u \<noteq> t \<longrightarrow> log_of env d' u = log_of env d u) \<and>
    te_sequence e = of_nat (length (log_of env d t)) \<and>
    (\<forall>x. expected = Some x \<longrightarrow> x = te_sequence e)"
proof -
  let ?row = "\<lparr>er_kind = EventKind_as_str (ne_kind event), er_key = ne_key event,
                er_payload = payload, er_recorded_at_ms = uint (ne_recorded_at_ms event)\<rparr>"
  have app: "appended t ?row d d'" and s: "s = int (length (events_of d t))"
    and x: "\<forall>x. expected = Some x \<longrightarrow> x = of_nat (length (events_of d t))"
    using insert_event_appended [OF inv ins] by auto
  have n: "length (events_of d t) \<le> MAX_HISTORY_EVENTS"
    using history_invD(1) [OF inv] by (simp add: rows_ok_def)
  have e: "decode_event env t (s, ?row) = Inr e"
    using ret range n by (auto simp: event_row_decodes [OF json] s stored_event_def result_simps)
  have seq: "te_sequence e = of_nat (length (log_of env d t))"
    using ret by (auto simp: stored_event_def result_simps s log_of_def)
  have "history_inv env d'"
    using appended_history_inv [OF inv app] e s by blast
  moreover have "length (log_of env d t) = length (events_of d t)" by (simp add: log_of_def)
  ultimately show ?thesis
    using appended_log_of [OF app, of env] e s seq x by simp
qed

subsection \<open>Loading, specified\<close>

lemma sort_key_id_if_sorted: "sorted (map f xs) \<Longrightarrow> sort_key f xs = xs"
  by (induction xs) (auto simp: insort_is_Cons)

lemma load_rows_all:
  assumes "\<forall>row \<in> set rows. \<exists>e. decode_event env t row = Inr e"
    and "length acc + length rows \<le> MAX_HISTORY_EVENTS"
    and "bytes + history_size rows \<le> MAX_HISTORY_BYTES"
  shows "load_rows env t rows acc bytes = Inr (acc @ map (projr \<circ> decode_event env t) rows)"
  using assms
proof (induction rows arbitrary: acc bytes)
  case (Cons row rows)
  let ?b = "bytes + event_size (snd row)"
  obtain e where e: "decode_event env t row = Inr e" using Cons.prems(1) by auto
  have b: "?b + history_size rows \<le> MAX_HISTORY_BYTES"
    using Cons.prems(3) by (simp add: history_size_def)
  then have "?b < 2 ^ 64" by (simp add: durable_limits)
  then have add: "Option.bind (usize_checked_add bytes (length (er_key (snd row))))
      (\<lambda>x. usize_checked_add x (length (er_payload (snd row)))) = Some ?b"
    by (simp add: usize_checked_add_def event_size_def)
  have "load_rows env t rows (acc @ [e]) ?b
      = Inr ((acc @ [e]) @ map (projr \<circ> decode_event env t) rows)"
    using Cons.IH [of "acc @ [e]" ?b] Cons.prems b by simp
  then show ?case using Cons.prems b add e by simp
qed simp

lemma load_history_log:
  assumes "history_inv env d"
  shows "load_history env t d = Inr \<lparr>h_task_id = t, h_events = log_of env d t\<rparr>"
proof -
  have ok: "rows_ok env t (events_of d t)" using history_invD assms by blast
  have "sorted (map fst (events_of d t))"
    using ok by (simp add: rows_ok_def sorted_map sorted_wrt_iff_nth_less)
  then have "sort_key fst (events_of d t) = events_of d t" by (rule sort_key_id_if_sorted)
  then have "take (MAX_HISTORY_EVENTS + 1) (sort_key fst (events_of d t)) = events_of d t"
    using ok by (simp add: rows_ok_def)
  moreover have "load_rows env t (events_of d t) [] 0 = Inr (log_of env d t)"
    using load_rows_all [of "events_of d t" env t "[]" 0] ok by (simp add: rows_ok_def log_of_def)
  ultimately show ?thesis by (simp add: load_history_def)
qed

end
