(* ===== verification/Durable_Wakeups.thy ===== *)
theory Durable_Wakeups
  imports Durable_Events
begin

text \<open>
  Timers of the durable store (\<open>src/crates/tysel-durable/src/lib.rs\<close>): scheduling a wakeup, leasing
  due wakeups to a runner, and renewing, releasing and completing a leased wakeup.
\<close>

subsection \<open>Queries\<close>

text \<open>\<open>lease_until_ms IS NULL OR lease_until_ms <= now\<close>\<close>

definition lease_free :: "int option \<Rightarrow> int \<Rightarrow> bool" where
  "lease_free lease n = (case lease of None \<Rightarrow> True | Some u \<Rightarrow> u \<le> n)"

text \<open>The row matches every field of a claim: the token test of renewal, release and consumption.\<close>

definition row_matches :: "wakeup_row \<Rightarrow> int \<Rightarrow> int \<Rightarrow> string \<Rightarrow> int \<Rightarrow> bool" where
  "row_matches r sequence wake_at owner until \<longleftrightarrow>
     wr_sequence r = sequence \<and> wr_wake_at_ms r = wake_at \<and> wr_lease_owner r = Some owner \<and>
     wr_lease_until_ms r = Some until"

definition schedule_wakeup :: "Wakeup \<Rightarrow> unit db_op" where
  "schedule_wakeup w d =
     rbind (ensure_open (wk_task_id w) d) (\<lambda>_.
     rbind (to_sql_integer (wk_sequence w) ''sequence'') (\<lambda>sequence.
     rbind (to_sql_integer (wk_wake_at_ms w) ''wake_at_ms'') (\<lambda>wake_at.
       Inr ((), upsert_wakeup (wk_task_id w) sequence wake_at d))))"

definition wakeup_of_row :: "TaskId \<Rightarrow> wakeup_row \<Rightarrow> (DurableError, Wakeup) result" where
  "wakeup_of_row task_id r =
     rbind (from_sql_integer (wr_sequence r) ''sequence'') (\<lambda>sequence.
     rbind (from_sql_integer (wr_wake_at_ms r) ''wake_at_ms'') (\<lambda>wake_at.
       Inr \<lparr>wk_task_id = task_id, wk_sequence = sequence, wk_wake_at_ms = wake_at\<rparr>))"

definition due_order :: "TaskId \<times> wakeup_row \<Rightarrow> int \<times> TaskId" where
  "due_order row = (wr_wake_at_ms (snd row), fst row)"

definition peek_due_wakeups :: "u64 \<Rightarrow> nat \<Rightarrow> db \<Rightarrow> (DurableError, Wakeup list) result" where
  "peek_due_wakeups now_ms limit d =
     (if limit = 0 then Inr []
      else rbind (to_sql_integer now_ms ''now_ms'') (\<lambda>n.
        collect_results (\<lambda>(t, r). wakeup_of_row t r)
          (take (min limit MAX_WAKEUP_BATCH)
            (sort_key due_order (filter (\<lambda>(t, r). wr_wake_at_ms r \<le> n) (d_wakeups d))))))"

definition wakeup :: "TaskId \<Rightarrow> db \<Rightarrow> (DurableError, Wakeup option) result" where
  "wakeup task_id d =
     (case map_of (d_wakeups d) task_id of
        None \<Rightarrow> Inr None
      | Some r \<Rightarrow> rbind (wakeup_of_row task_id r) (\<lambda>w. Inr (Some w)))"

subsection \<open>Leasing\<close>

definition lease_row :: "TaskId \<Rightarrow> wakeup_row \<Rightarrow> string \<Rightarrow> int \<Rightarrow> db \<Rightarrow> db" where
  "lease_row t r owner until d =
     d\<lparr>d_wakeups := AList.update t
        (r\<lparr>wr_lease_owner := Some owner, wr_lease_until_ms := Some until\<rparr>) (d_wakeups d)\<rparr>"

definition due_candidates :: "int \<Rightarrow> nat \<Rightarrow> db \<Rightarrow> (TaskId \<times> wakeup_row) list" where
  "due_candidates n limit d =
     take limit (sort_key due_order
       (filter (\<lambda>(t, r). wr_wake_at_ms r \<le> n \<and> lease_free (wr_lease_until_ms r) n) (d_wakeups d)))"

fun claim_candidates ::
  "string \<Rightarrow> u64 \<Rightarrow> int \<Rightarrow> int \<Rightarrow> (TaskId \<times> wakeup_row) list \<Rightarrow> WakeupClaim list db_op" where
  "claim_candidates lease_owner lease_until_ms lease_until_sql n [] d = Inr ([], d)"
| "claim_candidates lease_owner lease_until_ms lease_until_sql n ((t, c) # rest) d =
     (case map_of (d_wakeups d) t of
        None \<Rightarrow> claim_candidates lease_owner lease_until_ms lease_until_sql n rest d
      | Some r \<Rightarrow>
          if wr_sequence r = wr_sequence c \<and> wr_wake_at_ms r \<le> n \<and> lease_free (wr_lease_until_ms r) n
          then
            rbind (wakeup_of_row t c) (\<lambda>w.
            rbind (claim_candidates lease_owner lease_until_ms lease_until_sql n rest
                     (lease_row t r lease_owner lease_until_sql d)) (\<lambda>(claims, d').
              Inr (\<lparr>wc_task_id = wk_task_id w, wc_sequence = wk_sequence w,
                    wc_wake_at_ms = wk_wake_at_ms w, wc_lease_owner = lease_owner,
                    wc_lease_until_ms = lease_until_ms\<rparr> # claims, d')))
          else claim_candidates lease_owner lease_until_ms lease_until_sql n rest d)"

definition claim_due_wakeups :: "u64 \<Rightarrow> nat \<Rightarrow> string \<Rightarrow> u64 \<Rightarrow> WakeupClaim list db_op" where
  "claim_due_wakeups now_ms limit lease_owner lease_duration_ms d =
     rbind (durable_validate_lease_owner lease_owner) (\<lambda>_.
     if limit = 0 then Inr ([], d)
     else
     rbind (to_sql_integer now_ms ''now_ms'') (\<lambda>now_sql.
     rbind (ok_or (checked_add now_ms (max lease_duration_ms 1)) (DE_IntegerRange ''lease_until_ms''))
       (\<lambda>lease_until_ms.
     rbind (to_sql_integer lease_until_ms ''lease_until_ms'') (\<lambda>lease_until_sql.
       claim_candidates lease_owner lease_until_ms lease_until_sql now_sql
         (due_candidates now_sql (min limit MAX_WAKEUP_BATCH) d) d))))"

definition claim_wakeup :: "TaskId \<Rightarrow> u64 \<Rightarrow> string \<Rightarrow> u64 \<Rightarrow> WakeupClaim option db_op" where
  "claim_wakeup task_id now_ms lease_owner lease_duration_ms d =
     rbind (durable_validate_lease_owner lease_owner) (\<lambda>_.
     rbind (to_sql_integer now_ms ''now_ms'') (\<lambda>now_sql.
     rbind (ok_or (checked_add now_ms (max lease_duration_ms 1)) (DE_IntegerRange ''lease_until_ms''))
       (\<lambda>lease_until_ms.
     rbind (to_sql_integer lease_until_ms ''lease_until_ms'') (\<lambda>lease_until_sql.
     case map_of (d_wakeups d) task_id of
       None \<Rightarrow> Inr (None, d)
     | Some r \<Rightarrow>
         if wr_wake_at_ms r \<le> now_sql \<and> lease_free (wr_lease_until_ms r) now_sql
         then rbind (wakeup_of_row task_id r) (\<lambda>w.
           Inr (Some \<lparr>wc_task_id = task_id, wc_sequence = wk_sequence w,
                      wc_wake_at_ms = wk_wake_at_ms w, wc_lease_owner = lease_owner,
                      wc_lease_until_ms = lease_until_ms\<rparr>,
                lease_row task_id r lease_owner lease_until_sql d))
         else Inr (None, d)))))"

definition delete_wakeup :: "TaskId \<Rightarrow> db \<Rightarrow> db" where
  "delete_wakeup t d = d\<lparr>d_wakeups := AList.delete t (d_wakeups d)\<rparr>"

definition complete_wakeup ::
  "SqliteStore \<Rightarrow> clock \<Rightarrow> TaskId \<Rightarrow> u64 \<Rightarrow> string option \<Rightarrow> u64 \<Rightarrow> bool db_op" where
  "complete_wakeup st clk task_id sequence lease_owner now_ms d =
     rbind (guard_execution st (clk 0) task_id d) (\<lambda>_.
     rbind (to_sql_integer sequence ''sequence'') (\<lambda>sequence.
     rbind (to_sql_integer now_ms ''now_ms'') (\<lambda>now_sql.
     rbind (case lease_owner of
              Some owner \<Rightarrow>
                rbind (durable_validate_lease_owner owner) (\<lambda>_.
                  Inr (case map_of (d_wakeups d) task_id of
                         None \<Rightarrow> False
                       | Some r \<Rightarrow> wr_sequence r = sequence \<and> wr_lease_owner r = Some owner \<and>
                                   \<not> lease_free (wr_lease_until_ms r) now_sql))
            | None \<Rightarrow>
                Inr (case map_of (d_wakeups d) task_id of
                       None \<Rightarrow> False
                     | Some r \<Rightarrow> wr_sequence r = sequence \<and> wr_lease_owner r = None)) (\<lambda>changed.
     let d' = (if changed then delete_wakeup task_id d else d) in
     rbind (guard_execution st (clk 1) task_id d') (\<lambda>_. Inr (changed, d'))))))"

text \<open>The integers of a claim, converted for a query in the order the code converts them.\<close>

definition claim_columns :: "WakeupClaim \<Rightarrow> (DurableError, int \<times> int \<times> int) result" where
  "claim_columns claim =
     rbind (to_sql_integer (wc_sequence claim) ''sequence'') (\<lambda>sequence.
     rbind (to_sql_integer (wc_wake_at_ms claim) ''wake_at_ms'') (\<lambda>wake_at.
     rbind (to_sql_integer (wc_lease_until_ms claim) ''lease_until_ms'') (\<lambda>until.
       Inr (sequence, wake_at, until))))"

definition held_row :: "db \<Rightarrow> WakeupClaim \<Rightarrow> int \<times> int \<times> int \<Rightarrow> wakeup_row option" where
  "held_row d claim = (\<lambda>(sequence, wake_at, until).
     case map_of (d_wakeups d) (wc_task_id claim) of
       None \<Rightarrow> None
     | Some r \<Rightarrow> if row_matches r sequence wake_at (wc_lease_owner claim) until then Some r else None)"

definition claim_is_active :: "WakeupClaim \<Rightarrow> u64 \<Rightarrow> db \<Rightarrow> (DurableError, bool) result" where
  "claim_is_active claim now_ms d =
     rbind (claim_columns claim) (\<lambda>(sequence, wake_at, until).
     rbind (to_sql_integer now_ms ''now_ms'') (\<lambda>n.
       Inr (held_row d claim (sequence, wake_at, until) \<noteq> None \<and> until > n)))"

definition renew_wakeup_claim :: "WakeupClaim \<Rightarrow> u64 \<Rightarrow> u64 \<Rightarrow> WakeupClaim option db_op" where
  "renew_wakeup_claim claim now_ms lease_duration_ms d =
     rbind (durable_validate_lease_owner (wc_lease_owner claim)) (\<lambda>_.
     rbind (ok_or (checked_add now_ms (max lease_duration_ms 1)) (DE_IntegerRange ''lease_until_ms''))
       (\<lambda>lease_until_ms.
     rbind (to_sql_integer lease_until_ms ''lease_until_ms'') (\<lambda>lease_until_sql.
     rbind (claim_columns claim) (\<lambda>(sequence, wake_at, until).
     rbind (to_sql_integer now_ms ''now_ms'') (\<lambda>n.
     case held_row d claim (sequence, wake_at, until) of
       Some r \<Rightarrow>
         if until > n
         then Inr (Some (claim\<lparr>wc_lease_until_ms := lease_until_ms\<rparr>),
                   d\<lparr>d_wakeups := AList.update (wc_task_id claim)
                       (r\<lparr>wr_lease_until_ms := Some lease_until_sql\<rparr>) (d_wakeups d)\<rparr>)
         else Inr (None, d)
     | None \<Rightarrow> Inr (None, d))))))"

definition release_wakeup_claim :: "WakeupClaim \<Rightarrow> bool db_op" where
  "release_wakeup_claim claim d =
     rbind (durable_validate_lease_owner (wc_lease_owner claim)) (\<lambda>_.
     rbind (claim_columns claim) (\<lambda>columns.
     case held_row d claim columns of
       Some r \<Rightarrow>
         Inr (True, d\<lparr>d_wakeups := AList.update (wc_task_id claim)
                (r\<lparr>wr_lease_owner := None, wr_lease_until_ms := None\<rparr>) (d_wakeups d)\<rparr>)
     | None \<Rightarrow> Inr (False, d)))"

end
