(* ===== verification/Durable_Signals.thy ===== *)
theory Durable_Signals
  imports Durable_Wakeups
begin

text \<open>
  Signals of the durable store (\<open>src/crates/tysel-durable/src/lib.rs\<close>): sending a signal, with or
  without an idempotency key, and polling for it from a task. The inbox is one table with an
  autoincrement id; \<open>d_inbox_seq\<close> is the largest id ever given out.
\<close>

definition inbox_of :: "db \<Rightarrow> TaskId \<Rightarrow> (int \<times> signal_row) list" where
  "inbox_of d t = filter (\<lambda>(i, r). sr_task_id r = t) (d_signal_inbox d)"

definition signal_size :: "signal_row \<Rightarrow> nat" where
  "signal_size r = length (sr_signal_name r) + length (sr_payload r)"

definition signal_wait :: "TaskId \<Rightarrow> db \<Rightarrow> (DurableError, SignalWait option) result" where
  "signal_wait task_id d =
     (case map_of (d_signal_waits d) task_id of
        None \<Rightarrow> Inr None
      | Some (sequence, signal_name) \<Rightarrow>
          rbind (from_sql_integer sequence ''sequence'') (\<lambda>s.
            Inr (Some \<lparr>sw_task_id = task_id, sw_sequence = s, sw_signal_name = signal_name\<rparr>)))"

text \<open>The keyed part of \<open>send_signal_inner\<close>: a stored receipt answers the request, otherwise the
  request may go on.\<close>

definition signal_receipt ::
  "'v durable_env \<Rightarrow> TaskId \<Rightarrow> string \<Rightarrow> string \<Rightarrow> string \<Rightarrow> db \<Rightarrow> (DurableError, u64 option) result" where
  "signal_receipt env task_id signal_name payload key d =
     rbind (validate_key key) (\<lambda>_.
     case map_of (d_receipts d) (task_id, key) of
       Some r \<Rightarrow>
         if rr_signal_name r \<noteq> signal_name \<or> rr_payload r \<noteq> hex_encode (sha256 env payload)
         then Inl DE_AdmissionConflict
         else rbind (from_sql_integer (rr_signal_id r) ''signal_id'') (\<lambda>i. Inr (Some i))
     | None \<Rightarrow>
         if int (length (filter (\<lambda>(k, r). fst k = task_id) (d_receipts d))) \<ge> int MAX_HISTORY_EVENTS
         then Inl DE_SignalInboxLimit
         else if map_of (d_programs d) task_id = None then Inl DE_AdmissionConflict
         else Inr None)"

text \<open>The writes of \<open>send_signal_inner\<close>: the inbox row, a wakeup for a task that waits for this signal
  and has none, and the receipt.\<close>

definition queue_signal :: "signal_row \<Rightarrow> db \<Rightarrow> db" where
  "queue_signal row d =
     d\<lparr>d_signal_inbox := d_signal_inbox d @ [(d_inbox_seq d + 1, row)],
       d_inbox_seq := d_inbox_seq d + 1\<rparr>"

definition wake_waiter :: "TaskId \<Rightarrow> string \<Rightarrow> int \<Rightarrow> db \<Rightarrow> db" where
  "wake_waiter task_id signal_name sent_at_ms d =
     (case map_of (d_signal_waits d) task_id of
        Some (sequence, name) \<Rightarrow>
          if name = signal_name \<and> map_of (d_wakeups d) task_id = None
          then upsert_wakeup task_id sequence sent_at_ms d else d
      | None \<Rightarrow> d)"

definition store_receipt ::
  "'v durable_env \<Rightarrow> TaskId \<Rightarrow> string \<Rightarrow> string \<Rightarrow> string option \<Rightarrow> int \<Rightarrow> db \<Rightarrow> (DurableError, db) result" where
  "store_receipt env task_id signal_name payload key signal_id d =
     (case key of
        None \<Rightarrow> Inr d
      | Some k \<Rightarrow>
          rbind (sql_insert (task_id, k)
            \<lparr>rr_signal_name = signal_name, rr_payload = hex_encode (sha256 env payload),
             rr_signal_id = signal_id\<rparr> (d_receipts d))
            (\<lambda>receipts. Inr (d\<lparr>d_receipts := receipts\<rparr>)))"

definition insert_signal ::
  "'v durable_env \<Rightarrow> TaskId \<Rightarrow> string \<Rightarrow> string \<Rightarrow> int \<Rightarrow> string option \<Rightarrow> u64 db_op" where
  "insert_signal env task_id signal_name payload sent_at_ms key d =
     rbind (ensure_open task_id d) (\<lambda>_.
     let pending_count = int (length (inbox_of d task_id));
         pending_bytes = int (sum_list (map (signal_size \<circ> snd) (inbox_of d task_id))) in
     rbind (ok_or (usize_checked_add (length signal_name) (length payload)) DE_SignalInboxLimit)
       (\<lambda>signal_bytes.
     if pending_count \<ge> int MAX_PENDING_SIGNALS then Inl DE_SignalInboxLimit
     else
     rbind (ok_or (i64_of_usize signal_bytes) DE_SignalInboxLimit) (\<lambda>signal_bytes_sql.
     if (case i64_checked_add pending_bytes signal_bytes_sql of
           None \<Rightarrow> True | Some bytes \<Rightarrow> bytes > int MAX_HISTORY_BYTES)
     then Inl DE_SignalInboxLimit
     else
     let signal_id = d_inbox_seq d + 1 in
     rbind (store_receipt env task_id signal_name payload key signal_id
              (wake_waiter task_id signal_name sent_at_ms
                (queue_signal \<lparr>sr_task_id = task_id, sr_signal_name = signal_name,
                               sr_payload = payload, sr_sent_at_ms = sent_at_ms\<rparr> d))) (\<lambda>d'.
     rbind (from_sql_integer signal_id ''signal_id'') (\<lambda>i. Inr (i, d'))))))"

definition send_signal_inner ::
  "'v durable_env \<Rightarrow> TaskId \<Rightarrow> string \<Rightarrow> 'v \<Rightarrow> u64 \<Rightarrow> string option \<Rightarrow> u64 db_op" where
  "send_signal_inner env task_id signal_name payload sent_at_ms key d =
     rbind (validate_signal_name signal_name) (\<lambda>_.
     rbind (ok_or (json_to_string env payload) DE_Json) (\<lambda>payload.
     if length payload > MAX_EVENT_PAYLOAD_BYTES then Inl DE_EventPayloadTooLarge
     else
     rbind (to_sql_integer sent_at_ms ''sent_at_ms'') (\<lambda>sent_at.
     rbind (case key of
              None \<Rightarrow> Inr None
            | Some k \<Rightarrow> signal_receipt env task_id signal_name payload k d) (\<lambda>prior.
     case prior of
       Some signal_id \<Rightarrow> Inr (signal_id, d)
     | None \<Rightarrow> insert_signal env task_id signal_name payload sent_at key d))))"

definition send_signal where
  "send_signal env task_id signal_name payload sent_at_ms d =
     send_signal_inner env task_id signal_name payload sent_at_ms None d"

definition send_signal_once where
  "send_signal_once env task_id signal_name payload key now_ms d =
     send_signal_inner env task_id signal_name payload now_ms (Some key) d"

definition register_signal_wait :: "TaskId \<Rightarrow> u64 \<Rightarrow> string \<Rightarrow> db \<Rightarrow> (DurableError, db) result" where
  "register_signal_wait task_id sequence signal_name d =
     (case map_of (d_signal_waits d) task_id of
        Some (existing_sequence, existing_name) \<Rightarrow>
          rbind (from_sql_integer existing_sequence ''sequence'') (\<lambda>s.
            if s \<noteq> sequence \<or> existing_name \<noteq> signal_name then Inl DE_SignalWaitConflict else Inr d)
      | None \<Rightarrow>
          rbind (to_sql_integer sequence ''sequence'') (\<lambda>s.
          rbind (sql_insert task_id (s, signal_name) (d_signal_waits d)) (\<lambda>waits.
            Inr (d\<lparr>d_signal_waits := waits\<rparr>))))"

text \<open>The claim part of \<open>poll_signal\<close>: a task that was suspended on the signal must show the lease
  on its wakeup, which is used up; a task that was not must have no wakeup at all.\<close>

definition consume_claim ::
  "TaskId \<Rightarrow> u64 \<Rightarrow> int \<Rightarrow> WakeupClaim option \<Rightarrow> db \<Rightarrow> (DurableError, db) result" where
  "consume_claim task_id expected_sequence now_sql claim d =
     (let existing_wait = map_of (d_signal_waits d) task_id in
      case claim of
        Some c \<Rightarrow>
          if existing_wait = None \<or> wc_task_id c \<noteq> task_id \<or> wc_sequence c \<noteq> expected_sequence
          then Inl DE_WakeupClaimRequired
          else rbind (claim_columns c) (\<lambda>(sequence, wake_at, until).
            if held_row d c (sequence, wake_at, until) \<noteq> None \<and> until > now_sql
            then Inr (delete_wakeup task_id d)
            else Inl DE_WakeupClaimRequired)
      | None \<Rightarrow>
          if existing_wait \<noteq> None then Inl DE_WakeupClaimRequired
          else if map_of (d_wakeups d) task_id \<noteq> None then Inl DE_WakeupClaimRequired
          else Inr d)"

definition oldest_signal :: "db \<Rightarrow> TaskId \<Rightarrow> string \<Rightarrow> (int \<times> signal_row) option" where
  "oldest_signal d task_id signal_name =
     (case take 1 (sort_key fst (filter (\<lambda>(i, r). sr_signal_name r = signal_name) (inbox_of d task_id))) of
        [] \<Rightarrow> None | row # _ \<Rightarrow> Some row)"

text \<open>The rest of \<open>poll_signal\<close> once a signal is there: it is turned into an event, and its inbox row
  and the wait it answers are removed.\<close>

definition signal_event :: "string \<Rightarrow> 'v \<Rightarrow> u64 \<Rightarrow> 'v NewEvent" where
  "signal_event signal_name payload recorded_at_ms =
     \<lparr>ne_kind = EK_Signal, ne_key = signal_name, ne_payload = payload,
      ne_recorded_at_ms = recorded_at_ms\<rparr>"

definition remove_signal :: "int \<Rightarrow> TaskId \<Rightarrow> int \<Rightarrow> string \<Rightarrow> db \<Rightarrow> db" where
  "remove_signal signal_id task_id sequence signal_name d =
     (let d1 = d\<lparr>d_signal_inbox := AList.delete signal_id (d_signal_inbox d)\<rparr> in
      if map_of (d_signal_waits d1) task_id = Some (sequence, signal_name)
      then d1\<lparr>d_signal_waits := AList.delete task_id (d_signal_waits d1)\<rparr> else d1)"

definition take_signal ::
  "'v durable_env \<Rightarrow> SqliteStore \<Rightarrow> int \<Rightarrow> TaskId \<Rightarrow> u64 \<Rightarrow> string \<Rightarrow> int \<Rightarrow> WakeupClaim option \<Rightarrow>
     int \<times> signal_row \<Rightarrow> 'v TaskEvent option db_op" where
  "take_signal env st reading task_id expected_sequence signal_name now_sql claim queued d =
     rbind (consume_claim task_id expected_sequence now_sql claim d) (\<lambda>d1.
     rbind (ok_or (json_from_str env (sr_payload (snd queued))) DE_Json) (\<lambda>payload.
     rbind (from_sql_integer (sr_sent_at_ms (snd queued)) ''sent_at_ms'') (\<lambda>recorded_at_ms.
     rbind (insert_event task_id (Some expected_sequence)
              (signal_event signal_name payload recorded_at_ms) (sr_payload (snd queued))
              (sr_sent_at_ms (snd queued)) d1) (\<lambda>(sequence, d2).
     rbind (guard_execution st reading task_id
              (remove_signal (fst queued) task_id sequence signal_name d2)) (\<lambda>_.
     rbind (stored_event task_id sequence (signal_event signal_name payload recorded_at_ms)
              (sr_payload (snd queued))) (\<lambda>e.
       Inr (Some e, remove_signal (fst queued) task_id sequence signal_name d2)))))))"

definition check_wait :: "TaskId \<Rightarrow> u64 \<Rightarrow> string \<Rightarrow> db \<Rightarrow> (DurableError, unit) result" where
  "check_wait task_id expected_sequence signal_name d =
     (case map_of (d_signal_waits d) task_id of
        None \<Rightarrow> Inr ()
      | Some (wait_sequence, wait_name) \<Rightarrow>
          rbind (from_sql_integer wait_sequence ''sequence'') (\<lambda>s.
            if s \<noteq> expected_sequence \<or> wait_name \<noteq> signal_name
            then Inl DE_SignalWaitConflict else Inr ()))"

definition poll_signal ::
  "'v durable_env \<Rightarrow> SqliteStore \<Rightarrow> clock \<Rightarrow> TaskId \<Rightarrow> u64 \<Rightarrow> string \<Rightarrow> u64 \<Rightarrow> WakeupClaim option \<Rightarrow>
     'v TaskEvent option db_op" where
  "poll_signal env st clk task_id expected_sequence signal_name now_ms claim d =
     rbind (validate_signal_name signal_name) (\<lambda>_.
     rbind (to_sql_integer now_ms ''now_ms'') (\<lambda>now_sql.
     rbind (guard_execution st (clk 0) task_id d) (\<lambda>_.
     rbind (ensure_open task_id d) (\<lambda>_.
     rbind (from_sql_integer (next_sequence d task_id) ''sequence'') (\<lambda>actual_sequence.
     if actual_sequence \<noteq> expected_sequence
     then Inl (DE_HistoryConflict expected_sequence actual_sequence)
     else
     rbind (check_wait task_id expected_sequence signal_name d) (\<lambda>_.
     case oldest_signal d task_id signal_name of
       None \<Rightarrow>
         rbind (register_signal_wait task_id expected_sequence signal_name d) (\<lambda>d'.
         rbind (guard_execution st (clk 1) task_id d') (\<lambda>_. Inr (None, d')))
     | Some queued \<Rightarrow>
         take_signal env st (clk 1) task_id expected_sequence signal_name now_sql claim queued d))))))"

end
