(* ===== verification/Durable_Programs.thy ===== *)
theory Durable_Programs
  imports Durable_Signals
begin

text \<open>
  The program catalog of the durable store (\<open>src/crates/tysel-durable/src/lib.rs\<close>): registering,
  reading, listing and removing the source text of a task.
\<close>

definition decode_program ::
  "'v durable_env \<Rightarrow> TaskId \<Rightarrow> program_row \<Rightarrow> (DurableError, DurableProgram) result" where
  "decode_program env task_id r =
     rbind (validate_program_source (pr_source r)) (\<lambda>_.
     if length (pr_source_sha256 r) \<noteq> 32 then Inl DE_InvalidProgramDigest
     else if pr_source_sha256 r \<noteq> sha256 env (pr_source r) then Inl DE_InvalidProgramDigest
     else
     rbind (DurableProgramKind_parse (pr_program_kind r)) (\<lambda>kind.
     rbind (from_sql_integer (pr_registered_at_ms r) ''registered_at_ms'') (\<lambda>registered_at_ms.
       Inr \<lparr>dp_task_id = task_id, dp_kind = kind, dp_source = pr_source r,
            dp_source_sha256 = pr_source_sha256 r, dp_registered_at_ms = registered_at_ms\<rparr>)))"

definition select_program ::
  "'v durable_env \<Rightarrow> TaskId \<Rightarrow> db \<Rightarrow> (DurableError, DurableProgram option) result" where
  "select_program env task_id d =
     (case map_of (d_programs d) task_id of
        None \<Rightarrow> Inr None
      | Some r \<Rightarrow> rbind (decode_program env task_id r) (\<lambda>p. Inr (Some p)))"

fun decode_program_rows_from ::
  "'v durable_env \<Rightarrow> (TaskId \<times> program_row) list \<Rightarrow> DurableProgram list \<Rightarrow> nat \<Rightarrow>
     (DurableError, DurableProgram list) result" where
  "decode_program_rows_from env [] programs total_bytes = Inr programs"
| "decode_program_rows_from env ((t, r) # rows) programs total_bytes =
     (if length programs \<ge> MAX_DURABLE_PROGRAMS then Inl DE_ProgramLimit
      else
      rbind (validate_program_source (pr_source r)) (\<lambda>_.
      rbind (ok_or (usize_checked_add total_bytes (length (pr_source r))) DE_ProgramByteLimit)
        (\<lambda>total_bytes.
      if total_bytes > MAX_DURABLE_PROGRAM_TOTAL_BYTES then Inl DE_ProgramByteLimit
      else
      rbind (decode_program env t r) (\<lambda>p.
        decode_program_rows_from env rows (programs @ [p]) total_bytes))))"

definition decode_program_rows where
  "decode_program_rows env rows = decode_program_rows_from env rows [] 0"

definition put_program_inner ::
  "'v durable_env \<Rightarrow> TaskId \<Rightarrow> DurableProgramKind \<Rightarrow> string \<Rightarrow> u64 \<Rightarrow> DurableProgram option db_op" where
  "put_program_inner env task_id kind source registered_at_ms d =
     rbind (validate_program_source source) (\<lambda>_.
     rbind (to_sql_integer registered_at_ms ''registered_at_ms'') (\<lambda>registered_at.
     let digest = sha256 env source in
     rbind (ensure_open task_id d) (\<lambda>_.
     rbind (select_program env task_id d) (\<lambda>existing.
     case existing of
       Some p \<Rightarrow>
         if dp_kind p \<noteq> kind \<or> dp_source_sha256 p \<noteq> digest \<or> dp_source p \<noteq> source
         then Inl (DE_ProgramConflict task_id)
         else Inr (Some p, d)
     | None \<Rightarrow>
         let (active_count, total_bytes) = d_program_stats d in
         if active_count \<ge> int MAX_DURABLE_PROGRAMS then Inl DE_ProgramLimit
         else
         rbind (ok_or (i64_of_usize (length source)) DE_ProgramByteLimit) (\<lambda>source_bytes.
         if (case i64_checked_add total_bytes source_bytes of
               None \<Rightarrow> True | Some bytes \<Rightarrow> bytes > int MAX_DURABLE_PROGRAM_TOTAL_BYTES)
         then Inl DE_ProgramByteLimit
         else
         rbind (sql_insert task_id
                  \<lparr>pr_program_kind = DurableProgramKind_as_str kind, pr_source = source,
                   pr_source_sha256 = digest, pr_registered_at_ms = registered_at\<rparr> (d_programs d))
           (\<lambda>programs.
           Inr (None, d\<lparr>d_programs := programs,
                        d_program_stats := (active_count + 1, total_bytes + source_bytes)\<rparr>)))))))"

definition put_program where
  "put_program env task_id source registered_at_ms d =
     put_program_inner env task_id PK_Script source registered_at_ms d"

definition put_module where
  "put_module env task_id source registered_at_ms d =
     put_program_inner env task_id PK_Module source registered_at_ms d"

definition program ::
  "'v durable_env \<Rightarrow> TaskId \<Rightarrow> db \<Rightarrow> (DurableError, DurableProgram option) result" where
  "program env task_id d = select_program env task_id d"

definition load_programs :: "'v durable_env \<Rightarrow> db \<Rightarrow> (DurableError, DurableProgram list) result" where
  "load_programs env d =
     decode_program_rows env
       (take (MAX_DURABLE_PROGRAMS + 1)
         (sort_key fst (filter (\<lambda>(t, r). map_of (d_completions d) t = None) (d_programs d))))"

text \<open>The two branches of the \<open>due\<close> query: wakeups that may run, and executions without a
  suspension. A task without an execution row passes the joined conditions.\<close>

definition due_by_wakeup :: "int \<Rightarrow> db \<Rightarrow> (TaskId \<times> int) list" where
  "due_by_wakeup n d =
     map (\<lambda>(t, w). (t, wr_wake_at_ms w))
       (filter (\<lambda>(t, w).
          wr_wake_at_ms w \<le> n \<and> lease_free (wr_lease_until_ms w) n \<and>
          (case map_of (d_executions d) t of
             None \<Rightarrow> True
           | Some r \<Rightarrow> xr_state r \<in> {ES_ready, ES_running, ES_suspended} \<and>
                       lease_free (xr_lease_until_ms r) n)) (d_wakeups d))"

definition due_by_execution :: "int \<Rightarrow> db \<Rightarrow> (TaskId \<times> int) list" where
  "due_by_execution n d =
     map (\<lambda>(t, r). (t, case xr_lease_until_ms r of None \<Rightarrow> 0 | Some u \<Rightarrow> u))
       (filter (\<lambda>(t, r).
          xr_state r \<in> {ES_ready, ES_running} \<and> lease_free (xr_lease_until_ms r) n \<and>
          map_of (d_wakeups d) t = None \<and> map_of (d_signal_waits d) t = None) (d_executions d))"

definition due_programs ::
  "int \<Rightarrow> string \<Rightarrow> db \<Rightarrow> ((int \<times> TaskId) \<times> program_row) list" where
  "due_programs n kind d =
     List.map_filter (\<lambda>(t, due_at).
       case map_of (d_programs d) t of
         None \<Rightarrow> None
       | Some p \<Rightarrow>
           if pr_program_kind p = kind \<and> map_of (d_completions d) t = None
           then Some ((due_at, t), p) else None) (due_by_wakeup n d @ due_by_execution n d)"

definition load_due_programs_batch ::
  "'v durable_env \<Rightarrow> u64 \<Rightarrow> DurableProgramKind \<Rightarrow> nat \<Rightarrow> db \<Rightarrow> (DurableError, DurableProgram list) result" where
  "load_due_programs_batch env now_ms kind limit d =
     rbind (to_sql_integer now_ms ''now_ms'') (\<lambda>n.
       decode_program_rows env
         (map (\<lambda>(k, p). (snd k, p))
           (take (min limit MAX_DURABLE_PROGRAMS)
             (sort_key fst (due_programs n (DurableProgramKind_as_str kind) d)))))"

definition load_due_programs_by_kind where
  "load_due_programs_by_kind env now_ms kind d =
     load_due_programs_batch env now_ms kind MAX_DURABLE_PROGRAMS d"

definition load_due_programs where
  "load_due_programs env now_ms d = load_due_programs_by_kind env now_ms PK_Script d"

text \<open>The catalog counters carry the check \<open>>= 0\<close>; taking a program out of them fails otherwise.\<close>

definition decrement_stats :: "int \<Rightarrow> db \<Rightarrow> (DurableError, db) result" where
  "decrement_stats source_bytes d =
     (let (active_count, active_bytes) = d_program_stats d in
      if active_count - 1 < 0 \<or> active_bytes - source_bytes < 0 then Inl DE_Sqlite
      else Inr (d\<lparr>d_program_stats := (active_count - 1, active_bytes - source_bytes)\<rparr>))"

definition remove_program :: "'v durable_env \<Rightarrow> TaskId \<Rightarrow> DurableProgram option db_op" where
  "remove_program env task_id d =
     rbind (ensure_open task_id d) (\<lambda>_.
     rbind (select_program env task_id d) (\<lambda>existing.
     case existing of
       None \<Rightarrow> Inr (None, d)
     | Some p \<Rightarrow>
         if events_of d task_id \<noteq> [] \<or> map_of (d_wakeups d) task_id \<noteq> None \<or>
            inbox_of d task_id \<noteq> [] \<or> map_of (d_signal_waits d) task_id \<noteq> None
         then Inl (DE_ProgramInUse task_id)
         else
         rbind (decrement_stats (int (length (dp_source p))) d) (\<lambda>d'.
           Inr (Some p, d'\<lparr>d_programs := AList.delete task_id (d_programs d')\<rparr>))))"

definition program_count :: "db \<Rightarrow> (DurableError, nat) result" where
  "program_count d =
     (if 0 \<le> fst (d_program_stats d) then Inr (nat (fst (d_program_stats d))) else Inl DE_ProgramLimit)"

end
