(* ===== verification/Durable_Execution.thy ===== *)
theory Durable_Execution
  imports Durable_Programs
begin

text \<open>
  Admission and execution leases of the durable store (\<open>src/crates/tysel-durable/src/execution.rs\<close>)
  and the terminal transactions (\<open>src/crates/tysel-durable/src/lifecycle.rs\<close>): completing a task and
  pruning completed tasks. The random bytes of \<open>getrandom\<close> are the argument \<open>entropy\<close>, \<open>None\<close> when
  the system has none to give.
\<close>

subsection \<open>Identity\<close>

definition admission_task_id :: "'v durable_env \<Rightarrow> string \<Rightarrow> (DurableError, TaskId) result" where
  "admission_task_id env key =
     rbind (validate_key key) (\<lambda>_.
       Inr (of_nat (be_value (take 16 (sha256 env (''tysel:admission:v1:'' @ key))))))"

definition owner_token :: "'v durable_env \<Rightarrow> string option \<Rightarrow> string \<Rightarrow> (DurableError, string) result" where
  "owner_token env entropy owner =
     rbind (durable_validate_lease_owner owner) (\<lambda>_.
     rbind (ok_or entropy DE_Io) (\<lambda>bytes. Inr (hex_encode (sha256 env (owner @ bytes)))))"

definition fingerprint ::
  "'v durable_env \<Rightarrow> string \<Rightarrow> string \<Rightarrow> (DurableError, string \<times> string) result" where
  "fingerprint env source input =
     rbind (validate_program_source source) (\<lambda>_.
     if length input > MAX_EVENT_PAYLOAD_BYTES then Inl DE_EventPayloadTooLarge
     else
     rbind (ok_or (json_from_str env input) DE_Json) (\<lambda>v.
     rbind (ok_or (json_to_string env v) DE_Json) (\<lambda>input.
       Inr (hex_encode (sha256 env (source @ CHR 0x00 # input)), input))))"

subsection \<open>Admission\<close>

definition admit ::
  "'v durable_env \<Rightarrow> TaskId \<Rightarrow> string \<Rightarrow> string \<Rightarrow> string \<Rightarrow> u64 \<Rightarrow> unit db_op" where
  "admit env task key source input time d =
     rbind (validate_key key) (\<lambda>_.
     rbind (fingerprint env source input) (\<lambda>(hash, input).
     case map_of (d_executions d) task of
       Some r \<Rightarrow>
         if xr_admission_key r \<noteq> Some key \<or> xr_request_hash r \<noteq> Some hash
         then Inl DE_AdmissionConflict
         else Inr ((), d)
     | None \<Rightarrow>
         rbind (select_program env task d) (\<lambda>existing.
         if existing \<noteq> None then Inl DE_AdmissionConflict
         else
         let (active_count, bytes) = d_program_stats d in
         if active_count \<ge> int MAX_DURABLE_PROGRAMS then Inl DE_ProgramLimit
         else if bytes + int (length source) > int MAX_DURABLE_PROGRAM_TOTAL_BYTES
         then Inl DE_ProgramByteLimit
         else
         rbind (to_sql_integer time ''time'') (\<lambda>time_sql.
         rbind (sql_insert task
                  \<lparr>pr_program_kind = ''module'', pr_source = source,
                   pr_source_sha256 = sha256 env source, pr_registered_at_ms = time_sql\<rparr>
                  (d_programs d)) (\<lambda>programs.
         let d1 = d\<lparr>d_programs := programs,
                    d_program_stats := (active_count + 1, bytes + int (length source))\<rparr> in
         rbind (raw_event env EK_Step ''$tysel:task-input'' input time) (\<lambda>event.
         rbind (insert_event task (Some 0) event input time_sql d1) (\<lambda>(_, d2).
         rbind (sql_insert task
                  \<lparr>xr_state = ES_ready, xr_generation = 0, xr_owner = None,
                   xr_lease_until_ms = None, xr_admission_key = Some key,
                   xr_request_hash = Some hash\<rparr> (d_executions d2)) (\<lambda>executions.
           Inr ((), d2\<lparr>d_executions := executions\<rparr>)))))))))"

subsection \<open>Execution leases\<close>

definition upsert_execution :: "TaskId \<Rightarrow> int \<Rightarrow> string \<Rightarrow> int \<Rightarrow> db \<Rightarrow> db" where
  "upsert_execution task generation owner until d =
     d\<lparr>d_executions := AList.update task
        (case map_of (d_executions d) task of
           None \<Rightarrow> \<lparr>xr_state = ES_running, xr_generation = generation, xr_owner = Some owner,
                    xr_lease_until_ms = Some until, xr_admission_key = None,
                    xr_request_hash = None\<rparr>
         | Some r \<Rightarrow> r\<lparr>xr_state := ES_running, xr_generation := generation,
                       xr_owner := Some owner, xr_lease_until_ms := Some until\<rparr>)
        (d_executions d)\<rparr>"

text \<open>The early returns of \<open>claim_run\<close> on the execution row and on the suspension of the task, with
  the time as the code compares it: cast to \<open>i64\<close>.\<close>

definition run_blocked :: "TaskId \<Rightarrow> u64 \<Rightarrow> db \<Rightarrow> bool" where
  "run_blocked task time d \<longleftrightarrow>
     (case map_of (d_executions d) task of
        None \<Rightarrow> False
      | Some r \<Rightarrow> xr_state r = ES_completed \<or> xr_state r = ES_failed \<or>
                  (case xr_lease_until_ms r of None \<Rightarrow> False | Some u \<Rightarrow> u > sint time)) \<or>
     (case map_of (d_wakeups d) task of
        Some w \<Rightarrow> wr_wake_at_ms w > sint time \<or>
                  (case wr_lease_until_ms w of None \<Rightarrow> False | Some u \<Rightarrow> u > sint time)
      | None \<Rightarrow> map_of (d_signal_waits d) task \<noteq> None)"

definition lease_deadline :: "u64 \<Rightarrow> u64 \<Rightarrow> (DurableError, u64) result" where
  "lease_deadline time duration =
     ok_or (case checked_add time duration of
              None \<Rightarrow> None | Some u \<Rightarrow> if u > time then Some u else None) DE_ExecutionLeaseLost"

definition next_generation :: "TaskId \<Rightarrow> db \<Rightarrow> (DurableError, int) result" where
  "next_generation task d =
     (case map_of (d_executions d) task of
        None \<Rightarrow> Inr 1
      | Some r \<Rightarrow> ok_or (i64_checked_add (xr_generation r) 1) DE_ExecutionLeaseLost)"

definition grant_run :: "TaskId \<Rightarrow> int \<Rightarrow> string \<Rightarrow> u64 \<Rightarrow> int \<Rightarrow> db \<Rightarrow> WakeupClaim option \<times> db" where
  "grant_run task generation owner until until_sql d =
     (let d1 = upsert_execution task generation owner until_sql d in
      case map_of (d_wakeups d) task of
        None \<Rightarrow> (None, d1)
      | Some w \<Rightarrow>
          (Some \<lparr>wc_task_id = task, wc_sequence = word_of_int (wr_sequence w),
                 wc_wake_at_ms = word_of_int (wr_wake_at_ms w), wc_lease_owner = owner,
                 wc_lease_until_ms = until\<rparr>,
           lease_row task w owner until_sql d1))"

definition claim_run ::
  "'v durable_env \<Rightarrow> string option \<Rightarrow> clock \<Rightarrow> TaskId \<Rightarrow> string \<Rightarrow> u64 \<Rightarrow> ExecutionClaim option db_op" where
  "claim_run env entropy clk task owner duration d =
     rbind (owner_token env entropy owner) (\<lambda>owner.
     if map_of (d_completions d) task \<noteq> None then Inr (None, d)
     else if map_of (d_programs d) task = None then Inr (None, d)
     else
     rbind (now (clk 0)) (\<lambda>time.
     rbind (lease_deadline time duration) (\<lambda>until.
     if run_blocked task time d then Inr (None, d)
     else
     rbind (next_generation task d) (\<lambda>generation.
     rbind (to_sql_integer until ''lease'') (\<lambda>until_sql.
     let (wakeup, d') = grant_run task generation owner until until_sql d in
     rbind (now (clk 1)) (\<lambda>later.
     if later \<ge> until then Inr (None, d)
     else Inr (Some \<lparr>ec_task_id = task, ec_owner = owner, ec_generation = word_of_int generation,
                     ec_lease_until_ms = until, ec_wakeup = wakeup\<rparr>, d')))))))"

definition clear_wakeup_lease :: "TaskId \<Rightarrow> db \<Rightarrow> db" where
  "clear_wakeup_lease task d =
     (case map_of (d_wakeups d) task of
        None \<Rightarrow> d
      | Some w \<Rightarrow> d\<lparr>d_wakeups := AList.update task
          (w\<lparr>wr_lease_owner := None, wr_lease_until_ms := None\<rparr>) (d_wakeups d)\<rparr>)"

definition end_execution :: "TaskId \<Rightarrow> exec_state \<Rightarrow> db \<Rightarrow> db" where
  "end_execution task state d =
     (case map_of (d_executions d) task of
        None \<Rightarrow> d
      | Some r \<Rightarrow> d\<lparr>d_executions := AList.update task
          (r\<lparr>xr_state := state, xr_owner := None, xr_lease_until_ms := None\<rparr>) (d_executions d)\<rparr>)"

definition release_run :: "clock \<Rightarrow> ExecutionClaim \<Rightarrow> bool \<Rightarrow> unit db_op" where
  "release_run clk claim failed d =
     (let scoped = \<lparr>st_execution = Some claim\<rparr> in
      rbind (guard_execution scoped (clk 0) (ec_task_id claim) d) (\<lambda>_.
      let d1 = clear_wakeup_lease (ec_task_id claim) d in
      rbind (guard_execution scoped (clk 1) (ec_task_id claim) d1) (\<lambda>_.
        Inr ((), end_execution (ec_task_id claim) (if failed then ES_failed else ES_suspended) d1))))"

definition execution_failed :: "TaskId \<Rightarrow> db \<Rightarrow> bool" where
  "execution_failed task_id d =
     (case map_of (d_executions d) task_id of None \<Rightarrow> False | Some r \<Rightarrow> xr_state r = ES_failed)"

definition execution_store :: "ExecutionClaim \<Rightarrow> SqliteStore" where
  "execution_store claim = \<lparr>st_execution = Some claim\<rparr>"

subsection \<open>Completion\<close>

definition completion_time ::
  "TaskId \<Rightarrow> u64 \<Rightarrow> u64 option \<Rightarrow> int \<Rightarrow> (DurableError, u64) result" where
  "completion_time task_id timestamp lease_until_ms reading =
     (case lease_until_ms of
        None \<Rightarrow> Inr timestamp
      | Some until \<Rightarrow>
          if reading < 0 then Inl DE_Io
          else if reading \<ge> uint until then Inl (DE_TaskSuspended task_id)
          else Inr (word_of_int reading))"

definition completion ::
  "'v durable_env \<Rightarrow> TaskId \<Rightarrow> db \<Rightarrow> (DurableError, 'v TaskCompletion option) result" where
  "completion env task_id d =
     (case map_of (d_completions d) task_id of
        None \<Rightarrow> Inr None
      | Some c \<Rightarrow>
          rbind (from_sql_integer (cr_next_sequence c) ''next_sequence'') (\<lambda>next_sequence.
          rbind (ok_or (json_from_str env (cr_result_json c)) DE_Json) (\<lambda>value.
          rbind (from_sql_integer (cr_completed_at_ms c) ''completed_at_ms'') (\<lambda>time.
            Inr (Some \<lparr>tk_task_id = task_id, tk_next_sequence = next_sequence, tk_value = value,
                       tk_completed_at_ms = time\<rparr>)))))"

definition finish_task ::
  "'v durable_env \<Rightarrow> SqliteStore \<Rightarrow> clock \<Rightarrow> TaskId \<Rightarrow> u64 \<Rightarrow> 'v \<Rightarrow> u64 \<Rightarrow> u64 option \<Rightarrow> bool db_op" where
  "finish_task env st clk task_id expected_sequence value completed_at_ms lease_until_ms d =
     rbind (ok_or (json_to_string env value) DE_Json) (\<lambda>json.
     if length json > MAX_EVENT_PAYLOAD_BYTES then Inl DE_EventPayloadTooLarge
     else case map_of (d_completions d) task_id of
       Some c \<Rightarrow>
         rbind (to_sql_integer expected_sequence ''next_sequence'') (\<lambda>expected.
         if cr_next_sequence c \<noteq> expected then Inl (DE_TaskCompleted task_id)
         else
         rbind (ok_or (json_from_str env (cr_result_json c)) DE_Json) (\<lambda>stored.
         if stored \<noteq> value then Inl (DE_TaskCompleted task_id) else Inr (True, d)))
     | None \<Rightarrow>
         rbind (guard_execution st (clk 0) task_id d) (\<lambda>_.
         case map_of (d_programs d) task_id of
           None \<Rightarrow> Inr (False, d)
         | Some p \<Rightarrow>
             let actual = next_sequence d task_id in
             rbind (from_sql_integer actual ''next_sequence'') (\<lambda>a.
             if a \<noteq> expected_sequence
             then Inl (DE_HistoryConflict expected_sequence (word_of_int actual))
             else if map_of (d_wakeups d) task_id \<noteq> None \<or> map_of (d_signal_waits d) task_id \<noteq> None
             then Inl (DE_TaskSuspended task_id)
             else
             rbind (completion_time task_id completed_at_ms lease_until_ms (clk 1)) (\<lambda>completed_at_ms.
             rbind (to_sql_integer completed_at_ms ''completed_at_ms'') (\<lambda>completed_at.
             rbind (sql_insert task_id
                      \<lparr>cr_next_sequence = actual, cr_result_json = json,
                       cr_completed_at_ms = completed_at\<rparr> (d_completions d)) (\<lambda>completions.
             rbind (decrement_stats (int (length (pr_source p))) (d\<lparr>d_completions := completions\<rparr>))
               (\<lambda>d1.
             rbind (completion_time task_id completed_at_ms lease_until_ms (clk 2)) (\<lambda>_.
             rbind (guard_execution st (clk 3) task_id d1) (\<lambda>_.
               Inr (True, end_execution task_id ES_completed d1))))))))))"

definition complete_task where
  "complete_task env st clk task_id expected_sequence value completed_at_ms d =
     finish_task env st clk task_id expected_sequence value completed_at_ms None d"

definition complete_task_before where
  "complete_task_before env st clk task_id expected_sequence value lease_until_ms d =
     finish_task env st clk task_id expected_sequence value 0 (Some lease_until_ms) d"

subsection \<open>Retention\<close>

definition receipts_of :: "db \<Rightarrow> TaskId \<Rightarrow> ((TaskId \<times> string) \<times> receipt_row) list" where
  "receipts_of d t = filter (\<lambda>(k, r). fst k = t) (d_receipts d)"

definition retained_bytes :: "db \<Rightarrow> TaskId \<Rightarrow> completion_row \<Rightarrow> int" where
  "retained_bytes d t c =
     (case map_of (d_history_stats d) t of None \<Rightarrow> 0 | Some (_, b) \<Rightarrow> b)
     + (case map_of (d_programs d) t of None \<Rightarrow> 0 | Some p \<Rightarrow> int (length (pr_source p)))
     + int (length (cr_result_json c))
     + int (sum_list (map (signal_size \<circ> snd) (inbox_of d t)))
     + int (sum_list (map (\<lambda>(k, r). length (snd k) + length (rr_signal_name r) + length (rr_payload r))
              (receipts_of d t)))"

definition prune_candidates :: "int \<Rightarrow> nat \<Rightarrow> db \<Rightarrow> (TaskId \<times> int) list" where
  "prune_candidates before limit d =
     map (\<lambda>(t, c). (t, retained_bytes d t c))
       (take (min limit 100)
         (sort_key (\<lambda>(t, c). (cr_completed_at_ms c, t))
           (filter (\<lambda>(t, c). cr_completed_at_ms c < before) (d_completions d))))"

definition delete_task :: "TaskId \<Rightarrow> db \<Rightarrow> db" where
  "delete_task t d =
     d\<lparr>d_programs := AList.delete t (d_programs d),
       d_events := filter (\<lambda>(k, r). fst k \<noteq> t) (d_events d),
       d_history_stats := AList.delete t (d_history_stats d),
       d_signal_inbox := filter (\<lambda>(i, r). sr_task_id r \<noteq> t) (d_signal_inbox d),
       d_completions := AList.delete t (d_completions d),
       d_executions := AList.delete t (d_executions d),
       d_receipts := filter (\<lambda>(k, r). fst k \<noteq> t) (d_receipts d)\<rparr>"

fun prune_loop :: "(TaskId \<times> int) list \<Rightarrow> nat \<Rightarrow> int \<Rightarrow> db \<Rightarrow> nat \<times> db" where
  "prune_loop [] deleted bytes d = (deleted, d)"
| "prune_loop ((t, retained) # rest) deleted bytes d =
     (if deleted > 0 \<and> bytes + retained > int MAX_HISTORY_BYTES then (deleted, d)
      else if map_of (d_wakeups d) t \<noteq> None \<or> map_of (d_signal_waits d) t \<noteq> None
      then prune_loop rest deleted bytes d
      else prune_loop rest (deleted + 1) (bytes + retained) (delete_task t d))"

definition prune_completed :: "u64 \<Rightarrow> nat \<Rightarrow> nat db_op" where
  "prune_completed before_ms limit d =
     (if limit = 0 then Inr (0, d)
      else rbind (to_sql_integer before_ms ''before_ms'') (\<lambda>before.
        Inr (prune_loop (prune_candidates before limit d) 0 0 d)))"

end
