(* ===== verification/Durable_Steps.thy ===== *)
theory Durable_Steps
  imports Durable_Execution
begin

text \<open>
  The durable store as a transition system on its tables. \<open>db_inv\<close> collects what every committed
  state keeps; \<open>table_step\<close> names the elementary changes that the transactions are made of, each
  with the condition under which the code makes it. Every elementary change keeps \<open>db_inv\<close>, and the
  facts that relate an earlier to a later state (logs only grow, execution generations never go
  back, completed tasks are frozen, receipts stay) are proved once per elementary change.
\<close>

subsection \<open>Invariant\<close>

definition wakeup_ok :: "wakeup_row \<Rightarrow> bool" where
  "wakeup_ok r \<longleftrightarrow> sql_nat (wr_sequence r) \<and> sql_nat (wr_wake_at_ms r) \<and>
     (wr_lease_owner r = None \<longleftrightarrow> wr_lease_until_ms r = None) \<and>
     (\<forall>u. wr_lease_until_ms r = Some u \<longrightarrow> sql_nat u)"

definition wakeups_inv :: "db \<Rightarrow> bool" where
  "wakeups_inv d \<longleftrightarrow> distinct (map fst (d_wakeups d)) \<and>
     (\<forall>t r. map_of (d_wakeups d) t = Some r \<longrightarrow> wakeup_ok r)"

definition signal_ok :: "'v durable_env \<Rightarrow> signal_row \<Rightarrow> bool" where
  "signal_ok env r \<longleftrightarrow> json_from_str env (sr_payload r) \<noteq> None \<and> sql_nat (sr_sent_at_ms r)"

definition inbox_bytes :: "db \<Rightarrow> TaskId \<Rightarrow> nat" where
  "inbox_bytes d t = sum_list (map (signal_size \<circ> snd) (inbox_of d t))"

definition inbox_inv :: "'v durable_env \<Rightarrow> db \<Rightarrow> bool" where
  "inbox_inv env d \<longleftrightarrow> sorted_wrt (<) (map fst (d_signal_inbox d)) \<and> 0 \<le> d_inbox_seq d \<and>
     (\<forall>row \<in> set (d_signal_inbox d). 0 < fst row \<and> fst row \<le> d_inbox_seq d \<and> signal_ok env (snd row)) \<and>
     (\<forall>t. length (inbox_of d t) \<le> MAX_PENDING_SIGNALS \<and> inbox_bytes d t \<le> MAX_HISTORY_BYTES)"

definition waits_inv :: "db \<Rightarrow> bool" where
  "waits_inv d \<longleftrightarrow> distinct (map fst (d_signal_waits d)) \<and>
     (\<forall>t s n. map_of (d_signal_waits d) t = Some (s, n) \<longrightarrow> sql_nat s)"

definition active_programs :: "db \<Rightarrow> (TaskId \<times> program_row) list" where
  "active_programs d = filter (\<lambda>(t, r). map_of (d_completions d) t = None) (d_programs d)"

definition source_bytes :: "(TaskId \<times> program_row) list \<Rightarrow> nat" where
  "source_bytes ps = sum_list (map (length \<circ> pr_source \<circ> snd) ps)"

definition programs_inv :: "'v durable_env \<Rightarrow> db \<Rightarrow> bool" where
  "programs_inv env d \<longleftrightarrow> distinct (map fst (d_programs d)) \<and>
     (\<forall>t r. map_of (d_programs d) t = Some r \<longrightarrow> (\<exists>p. decode_program env t r = Inr p))"

definition catalog_inv :: "db \<Rightarrow> bool" where
  "catalog_inv d \<longleftrightarrow>
     d_program_stats d = (int (length (active_programs d)), int (source_bytes (active_programs d))) \<and>
     length (active_programs d) \<le> MAX_DURABLE_PROGRAMS \<and>
     source_bytes (active_programs d) \<le> MAX_DURABLE_PROGRAM_TOTAL_BYTES"

definition completed_ok :: "'v durable_env \<Rightarrow> db \<Rightarrow> TaskId \<Rightarrow> completion_row \<Rightarrow> bool" where
  "completed_ok env d t c \<longleftrightarrow>
     map_of (d_programs d) t \<noteq> None \<and> map_of (d_wakeups d) t = None \<and>
     map_of (d_signal_waits d) t = None \<and>
     cr_next_sequence c = int (length (events_of d t)) \<and>
     json_from_str env (cr_result_json c) \<noteq> None \<and> sql_nat (cr_completed_at_ms c) \<and>
     (\<forall>r. map_of (d_executions d) t = Some r \<longrightarrow>
        xr_state r = ES_completed \<and> xr_owner r = None \<and> xr_lease_until_ms r = None)"

definition completions_inv :: "'v durable_env \<Rightarrow> db \<Rightarrow> bool" where
  "completions_inv env d \<longleftrightarrow> distinct (map fst (d_completions d)) \<and>
     (\<forall>t c. map_of (d_completions d) t = Some c \<longrightarrow> completed_ok env d t c)"

definition executions_inv :: "db \<Rightarrow> bool" where
  "executions_inv d \<longleftrightarrow> distinct (map fst (d_executions d)) \<and>
     (\<forall>t r. map_of (d_executions d) t = Some r \<longrightarrow>
        sql_nat (xr_generation r) \<and> (xr_state r = ES_completed \<longrightarrow> map_of (d_completions d) t \<noteq> None))"

definition receipts_inv :: "db \<Rightarrow> bool" where
  "receipts_inv d \<longleftrightarrow> distinct (map fst (d_receipts d)) \<and>
     (\<forall>k r. map_of (d_receipts d) k = Some r \<longrightarrow> 0 < rr_signal_id r \<and> rr_signal_id r \<le> d_inbox_seq d)"

definition db_inv :: "'v durable_env \<Rightarrow> db \<Rightarrow> bool" where
  "db_inv env d \<longleftrightarrow> history_inv env d \<and> wakeups_inv d \<and> inbox_inv env d \<and> waits_inv d \<and>
     programs_inv env d \<and> catalog_inv d \<and> completions_inv env d \<and> executions_inv d \<and> receipts_inv d"

lemma db_invD:
  assumes "db_inv env d"
  shows "history_inv env d" "wakeups_inv d" "inbox_inv env d" "waits_inv d" "programs_inv env d"
    "catalog_inv d" "completions_inv env d" "executions_inv d" "receipts_inv d"
  using assms by (simp_all add: db_inv_def)

lemma empty_db_inv: "db_inv env empty_db"
  unfolding db_inv_def
  by (intro conjI history_inv_empty)
    (simp_all add: empty_db_def wakeups_inv_def inbox_inv_def inbox_of_def inbox_bytes_def
      waits_inv_def programs_inv_def catalog_inv_def active_programs_def source_bytes_def
      completions_inv_def executions_inv_def receipts_inv_def)

subsection \<open>Elementary changes\<close>

abbreviation open_task :: "db \<Rightarrow> TaskId \<Rightarrow> bool" where
  "open_task d t \<equiv> map_of (d_completions d) t = None"

text \<open>The execution row of an open task may change as long as its generation does not go back and
  its admission stays the same.\<close>

definition execution_update :: "execution_row option \<Rightarrow> execution_row \<Rightarrow> bool" where
  "execution_update old r \<longleftrightarrow> sql_nat (xr_generation r) \<and> xr_state r \<noteq> ES_completed \<and>
     (case old of
        None \<Rightarrow> True
      | Some r0 \<Rightarrow> xr_generation r0 \<le> xr_generation r \<and>
          xr_admission_key r = xr_admission_key r0 \<and> xr_request_hash r = xr_request_hash r0)"

definition complete_db :: "TaskId \<Rightarrow> completion_row \<Rightarrow> program_row \<Rightarrow> db \<Rightarrow> db" where
  "complete_db t c p d =
     end_execution t ES_completed
       (d\<lparr>d_completions := d_completions d @ [(t, c)],
          d_program_stats := (fst (d_program_stats d) - 1,
                              snd (d_program_stats d) - int (length (pr_source p)))\<rparr>)"

inductive table_step :: "'v durable_env \<Rightarrow> db \<Rightarrow> db \<Rightarrow> bool" for env where
  ts_append: "appended t row d d' \<Longrightarrow>
    \<exists>e. decode_event env t (int (length (events_of d t)), row) = Inr e \<Longrightarrow> table_step env d d'"
| ts_wakeup: "open_task d t \<Longrightarrow> sql_nat s \<Longrightarrow> sql_nat w \<Longrightarrow> table_step env d (upsert_wakeup t s w d)"
| ts_lease: "map_of (d_wakeups d) t = Some r \<Longrightarrow>
    wakeup_ok (r\<lparr>wr_lease_owner := l, wr_lease_until_ms := u\<rparr>) \<Longrightarrow>
    table_step env d (d\<lparr>d_wakeups := AList.update t
      (r\<lparr>wr_lease_owner := l, wr_lease_until_ms := u\<rparr>) (d_wakeups d)\<rparr>)"
| ts_wakeup_gone: "table_step env d (delete_wakeup t d)"
| ts_signal: "open_task d (sr_task_id r) \<Longrightarrow> signal_ok env r \<Longrightarrow>
    length (inbox_of d (sr_task_id r)) < MAX_PENDING_SIGNALS \<Longrightarrow>
    inbox_bytes d (sr_task_id r) + signal_size r \<le> MAX_HISTORY_BYTES \<Longrightarrow>
    table_step env d (d\<lparr>d_signal_inbox := d_signal_inbox d @ [(d_inbox_seq d + 1, r)],
                        d_inbox_seq := d_inbox_seq d + 1\<rparr>)"
| ts_signal_taken: "table_step env d (d\<lparr>d_signal_inbox := AList.delete i (d_signal_inbox d)\<rparr>)"
| ts_wait: "open_task d t \<Longrightarrow> map_of (d_signal_waits d) t = None \<Longrightarrow> sql_nat s \<Longrightarrow>
    table_step env d (d\<lparr>d_signal_waits := d_signal_waits d @ [(t, (s, name))]\<rparr>)"
| ts_wait_gone: "table_step env d (d\<lparr>d_signal_waits := AList.delete t (d_signal_waits d)\<rparr>)"
| ts_program: "open_task d t \<Longrightarrow> map_of (d_programs d) t = None \<Longrightarrow>
    \<exists>p. decode_program env t r = Inr p \<Longrightarrow>
    fst (d_program_stats d) < int MAX_DURABLE_PROGRAMS \<Longrightarrow>
    snd (d_program_stats d) + int (length (pr_source r)) \<le> int MAX_DURABLE_PROGRAM_TOTAL_BYTES \<Longrightarrow>
    table_step env d (d\<lparr>d_programs := d_programs d @ [(t, r)],
      d_program_stats := (fst (d_program_stats d) + 1,
                          snd (d_program_stats d) + int (length (pr_source r)))\<rparr>)"
| ts_program_gone: "open_task d t \<Longrightarrow> map_of (d_programs d) t = Some r \<Longrightarrow> events_of d t = [] \<Longrightarrow>
    table_step env d (d\<lparr>d_program_stats := (fst (d_program_stats d) - 1,
                          snd (d_program_stats d) - int (length (pr_source r))),
      d_programs := AList.delete t (d_programs d)\<rparr>)"
| ts_execution: "open_task d t \<Longrightarrow> execution_update (map_of (d_executions d) t) r \<Longrightarrow>
    table_step env d (d\<lparr>d_executions := AList.update t r (d_executions d)\<rparr>)"
| ts_complete: "open_task d t \<Longrightarrow> map_of (d_programs d) t = Some p \<Longrightarrow>
    map_of (d_wakeups d) t = None \<Longrightarrow> map_of (d_signal_waits d) t = None \<Longrightarrow>
    cr_next_sequence c = int (length (events_of d t)) \<Longrightarrow>
    json_from_str env (cr_result_json c) \<noteq> None \<Longrightarrow> sql_nat (cr_completed_at_ms c) \<Longrightarrow>
    table_step env d (complete_db t c p d)"
| ts_receipt: "map_of (d_receipts d) k = None \<Longrightarrow>
    0 < rr_signal_id r \<Longrightarrow> rr_signal_id r \<le> d_inbox_seq d \<Longrightarrow>
    table_step env d (d\<lparr>d_receipts := d_receipts d @ [(k, r)]\<rparr>)"

inductive_cases table_stepE: "table_step env d d'"

text \<open>Retention deletes a completed task from every table.\<close>

inductive prune_step :: "db \<Rightarrow> db \<Rightarrow> bool" where
  ps_delete: "map_of (d_completions d) t = Some c \<Longrightarrow> prune_step d (delete_task t d)"

subsection \<open>Preservation\<close>

lemma distinct_snoc_key:
  "distinct (map fst (tbl @ [(k, r)])) \<longleftrightarrow> distinct (map fst tbl) \<and> map_of tbl k = None"
  by (auto simp: map_of_eq_None_iff)

lemmas table_simps = update_conv' delete_conv' distinct_update distinct_delete distinct_snoc_key

text \<open>Which tables an elementary change leaves alone.\<close>

lemma end_execution_simps [simp]:
  "d_events (end_execution t s d) = d_events d" "d_wakeups (end_execution t s d) = d_wakeups d"
  "d_history_stats (end_execution t s d) = d_history_stats d"
  "d_signal_inbox (end_execution t s d) = d_signal_inbox d"
  "d_inbox_seq (end_execution t s d) = d_inbox_seq d"
  "d_signal_waits (end_execution t s d) = d_signal_waits d"
  "d_programs (end_execution t s d) = d_programs d"
  "d_completions (end_execution t s d) = d_completions d"
  "d_program_stats (end_execution t s d) = d_program_stats d"
  "d_receipts (end_execution t s d) = d_receipts d"
  by (simp_all add: end_execution_def split: option.splits)

lemma map_of_end_execution:
  "map_of (d_executions (end_execution t s d)) u =
     (if u = t then map_option (\<lambda>r. r\<lparr>xr_state := s, xr_owner := None, xr_lease_until_ms := None\<rparr>)
                      (map_of (d_executions d) t)
      else map_of (d_executions d) u)"
  by (auto simp: end_execution_def update_conv' split: option.splits)

lemma upsert_wakeup_simps [simp]:
  "d_events (upsert_wakeup t s w d) = d_events d"
  "d_history_stats (upsert_wakeup t s w d) = d_history_stats d"
  "d_signal_inbox (upsert_wakeup t s w d) = d_signal_inbox d"
  "d_inbox_seq (upsert_wakeup t s w d) = d_inbox_seq d"
  "d_signal_waits (upsert_wakeup t s w d) = d_signal_waits d"
  "d_programs (upsert_wakeup t s w d) = d_programs d"
  "d_completions (upsert_wakeup t s w d) = d_completions d"
  "d_program_stats (upsert_wakeup t s w d) = d_program_stats d"
  "d_executions (upsert_wakeup t s w d) = d_executions d"
  "d_receipts (upsert_wakeup t s w d) = d_receipts d"
  by (simp_all add: upsert_wakeup_def)

lemma delete_wakeup_simps [simp]:
  "d_events (delete_wakeup t d) = d_events d"
  "d_history_stats (delete_wakeup t d) = d_history_stats d"
  "d_signal_inbox (delete_wakeup t d) = d_signal_inbox d"
  "d_inbox_seq (delete_wakeup t d) = d_inbox_seq d"
  "d_signal_waits (delete_wakeup t d) = d_signal_waits d"
  "d_programs (delete_wakeup t d) = d_programs d"
  "d_completions (delete_wakeup t d) = d_completions d"
  "d_program_stats (delete_wakeup t d) = d_program_stats d"
  "d_executions (delete_wakeup t d) = d_executions d"
  "d_receipts (delete_wakeup t d) = d_receipts d"
  by (simp_all add: delete_wakeup_def)

lemma appended_frame:
  assumes "appended t row d d'"
  shows "d_wakeups d' = d_wakeups d" "d_signal_inbox d' = d_signal_inbox d"
    "d_inbox_seq d' = d_inbox_seq d" "d_signal_waits d' = d_signal_waits d"
    "d_programs d' = d_programs d" "d_completions d' = d_completions d"
    "d_program_stats d' = d_program_stats d" "d_executions d' = d_executions d"
    "d_receipts d' = d_receipts d" "map_of (d_completions d) t = None"
  using assms by (auto simp: appended_def)

lemma complete_db_simps [simp]:
  "d_events (complete_db t c p d) = d_events d" "d_wakeups (complete_db t c p d) = d_wakeups d"
  "d_history_stats (complete_db t c p d) = d_history_stats d"
  "d_signal_inbox (complete_db t c p d) = d_signal_inbox d"
  "d_inbox_seq (complete_db t c p d) = d_inbox_seq d"
  "d_signal_waits (complete_db t c p d) = d_signal_waits d"
  "d_programs (complete_db t c p d) = d_programs d"
  "d_completions (complete_db t c p d) = d_completions d @ [(t, c)]"
  "d_receipts (complete_db t c p d) = d_receipts d"
  "d_program_stats (complete_db t c p d) =
     (fst (d_program_stats d) - 1, snd (d_program_stats d) - int (length (pr_source p)))"
  by (simp_all add: complete_db_def)

lemma map_of_complete_db_executions:
  "map_of (d_executions (complete_db t c p d)) u =
     (if u = t then map_option
        (\<lambda>r. r\<lparr>xr_state := ES_completed, xr_owner := None, xr_lease_until_ms := None\<rparr>)
        (map_of (d_executions d) t)
      else map_of (d_executions d) u)"
  by (simp add: complete_db_def map_of_end_execution)

lemma distinct_complete_db:
  "distinct (map fst (d_executions (complete_db t c p d))) \<longleftrightarrow> distinct (map fst (d_executions d))"
  by (auto simp: complete_db_def end_execution_def distinct_update update_keys map_of_eq_None_iff
      split: option.splits)
    (metis distinct_update)?

lemma events_of_cong: "d_events d' = d_events d \<Longrightarrow> events_of d' t = events_of d t"
  by (simp add: events_of_def)

lemma step_history_inv: "table_step env d d' \<Longrightarrow> db_inv env d \<Longrightarrow> history_inv env d'"
  by (erule table_stepE) (auto intro: appended_history_inv db_invD iffD2 [OF history_inv_cong])

lemma step_wakeups_inv:
  assumes "table_step env d d'" and "db_inv env d"
  shows "wakeups_inv d'"
  using assms(1) db_invD(2) [OF assms(2)]
  by cases (auto simp: wakeups_inv_def upsert_wakeup_def delete_wakeup_def table_simps wakeup_ok_def
      appended_frame split: if_splits)

lemma step_waits_inv:
  assumes "table_step env d d'" and "db_inv env d"
  shows "waits_inv d'"
  using assms(1) db_invD(4) [OF assms(2)]
  by cases (auto simp: waits_inv_def table_simps appended_frame split: if_splits)

lemma step_receipts_inv:
  assumes "table_step env d d'" and "db_inv env d"
  shows "receipts_inv d'"
proof -
  have le: "0 < rr_signal_id r \<and> rr_signal_id r \<le> d_inbox_seq d" if "map_of (d_receipts d) k = Some r" for k r
    using db_invD(9) [OF assms(2)] that unfolding receipts_inv_def by blast
  have le': "rr_signal_id r \<le> d_inbox_seq d + 1" if "map_of (d_receipts d) k = Some r" for k r
    using le [OF that] by simp
  show ?thesis
    using assms(1) db_invD(9) [OF assms(2)]
    by cases (auto simp: receipts_inv_def table_simps appended_frame le le' split: if_splits)
qed

lemma step_programs_inv:
  assumes "table_step env d d'" and "db_inv env d"
  shows "programs_inv env d'"
  using assms(1) db_invD(5) [OF assms(2)]
  by cases (auto simp: programs_inv_def table_simps appended_frame split: if_splits)

lemma step_executions_inv:
  assumes "table_step env d d'" and "db_inv env d"
  shows "executions_inv d'"
  using assms(1)
proof cases
  case (ts_complete t p c)
  then show ?thesis using db_invD(8) [OF assms(2)]
    by (auto simp: executions_inv_def map_of_complete_db_executions distinct_complete_db
        split: if_splits)
qed (use db_invD(8) [OF assms(2)] in
    \<open>auto simp: executions_inv_def execution_update_def table_simps appended_frame split: if_splits\<close>)

lemma completed_ok_cong:
  assumes "completed_ok env d t c" and "map_of (d_programs d') t = map_of (d_programs d) t"
    and "map_of (d_wakeups d') t = None" and "map_of (d_signal_waits d') t = None"
    and "events_of d' t = events_of d t" and "map_of (d_executions d') t = map_of (d_executions d) t"
  shows "completed_ok env d' t c"
  using assms by (simp add: completed_ok_def)

text \<open>A completed task is frozen: no elementary change touches its rows.\<close>

lemma step_completed_frame:
  assumes step: "table_step env d d'" and inv: "db_inv env d"
    and compl: "map_of (d_completions d) t = Some c"
  shows "map_of (d_completions d') t = Some c" "map_of (d_programs d') t = map_of (d_programs d) t"
    "map_of (d_wakeups d') t = None" "map_of (d_signal_waits d') t = None"
    "events_of d' t = events_of d t" "map_of (d_executions d') t = map_of (d_executions d) t"
proof -
  have ok: "map_of (d_wakeups d) t = None" "map_of (d_signal_waits d) t = None"
    using db_invD(7) [OF inv] compl by (auto simp: completions_inv_def completed_ok_def)
  show "map_of (d_completions d') t = Some c"
    using step compl by cases (auto simp: appended_frame)
  show "map_of (d_programs d') t = map_of (d_programs d) t"
    using step compl by cases (auto simp: appended_frame delete_conv')
  show "map_of (d_wakeups d') t = None"
    using step compl ok(1)
    by cases (auto simp: appended_frame upsert_wakeup_def delete_wakeup_def update_conv' delete_conv')
  show "map_of (d_signal_waits d') t = None"
    using step compl ok(2) by cases (auto simp: appended_frame delete_conv')
  show "events_of d' t = events_of d t"
    using step compl
    by cases (auto simp: appended_events_of dest: appended_frame(10) intro: events_of_cong)
  show "map_of (d_executions d') t = map_of (d_executions d) t"
    using step compl
    by cases (auto simp: appended_frame update_conv' map_of_complete_db_executions)
qed

lemma step_completions_inv:
  assumes step: "table_step env d d'" and inv: "db_inv env d"
  shows "completions_inv env d'"
proof -
  have keep: "completed_ok env d' t c" if "map_of (d_completions d) t = Some c" for t c
    using db_invD(7) [OF inv] that
    by (intro completed_ok_cong [OF _ step_completed_frame(2-6) [OF step inv that]])
      (simp add: completions_inv_def)
  have same: "completions_inv env d'" if "d_completions d' = d_completions d"
    using db_invD(7) [OF inv] that keep by (simp add: completions_inv_def)
  show ?thesis
    using step
  proof cases
    case (ts_complete t p c)
    then have "completed_ok env d' t c"
      by (auto simp: completed_ok_def map_of_complete_db_executions events_of_def)
    moreover have "t \<notin> fst ` set (d_completions d)"
      using ts_complete by (simp add: map_of_eq_None_iff)
    ultimately show ?thesis
      using ts_complete keep db_invD(7) [OF inv] by (simp add: completions_inv_def)
  qed (rule same, simp add: appended_frame)+
qed

lemma inbox_of_snoc:
  "inbox_of (d\<lparr>d_signal_inbox := d_signal_inbox d @ [(i, r)], d_inbox_seq := j\<rparr>) t =
     inbox_of d t @ (if sr_task_id r = t then [(i, r)] else [])"
  by (simp add: inbox_of_def)

lemma inbox_of_delete: "inbox_of (d\<lparr>d_signal_inbox := AList.delete i (d_signal_inbox d)\<rparr>) t =
    filter (\<lambda>(j, r). j \<noteq> i) (inbox_of d t)"
  by (auto simp: inbox_of_def AList.delete_eq intro!: filter_cong)

lemma sum_list_filter_le: "sum_list (map f (filter P xs)) \<le> (sum_list (map f xs) :: nat)"
  by (induction xs) auto

lemma sorted_wrt_less_filter:
  "sorted_wrt (<) (map fst xs) \<Longrightarrow> sorted_wrt (<) (map fst (filter P xs))"
  by (auto simp: sorted_wrt_map intro: sorted_wrt_filter)

lemma step_inbox_inv:
  assumes step: "table_step env d d'" and inv: "db_inv env d"
  shows "inbox_inv env d'"
proof -
  note I = db_invD(3) [OF inv]
  have same: "inbox_inv env d'"
    if "d_signal_inbox d' = d_signal_inbox d" "d_inbox_seq d' = d_inbox_seq d"
    using I that by (simp add: inbox_inv_def inbox_of_def inbox_bytes_def)
  show ?thesis
    using step
  proof cases
    case (ts_signal r)
    have "inbox_bytes d' t = inbox_bytes d t + (if sr_task_id r = t then signal_size r else 0)" for t
      using ts_signal(1) by (simp add: inbox_bytes_def inbox_of_snoc)
    then show ?thesis
      using I ts_signal
      by (force simp: inbox_inv_def sorted_wrt_append inbox_of_snoc)
  next
    case (ts_signal_taken i)
    have len: "length (inbox_of d' t) \<le> length (inbox_of d t)"
      and bytes: "inbox_bytes d' t \<le> inbox_bytes d t" for t
      unfolding ts_signal_taken inbox_bytes_def inbox_of_delete
      by (rule length_filter_le, rule sum_list_filter_le)
    show ?thesis
      using I order.trans [OF len] order.trans [OF bytes]
      by (auto simp: inbox_inv_def ts_signal_taken AList.delete_eq intro: sorted_wrt_less_filter)
  qed (rule same; simp add: appended_frame)+
qed

lemma delete_counts:
  "distinct (map fst ps) \<Longrightarrow> map_of ps t = Some r \<Longrightarrow>
     length ps = Suc (length (AList.delete t ps)) \<and>
     source_bytes ps = length (pr_source r) + source_bytes (AList.delete t ps)"
proof (induction ps)
  case (Cons p ps)
  show ?case
  proof (cases "fst p = t")
    case True
    then have "t \<notin> fst ` set ps" using Cons.prems(1) by auto
    then have "AList.delete t ps = ps" by (rule delete_id)
    then show ?thesis using Cons.prems True by (cases p) (auto simp: source_bytes_def)
  next
    case False
    then show ?thesis using Cons by (cases p) (auto simp: source_bytes_def)
  qed
qed simp

lemma active_programs_delete:
  assumes "distinct (map fst (d_programs d))" and "map_of (d_programs d) t = Some r" and "open_task d t"
  shows "length (active_programs d) = Suc (length (AList.delete t (active_programs d)))"
    "source_bytes (active_programs d) = length (pr_source r) + source_bytes (AList.delete t (active_programs d))"
proof -
  have "distinct (map fst (active_programs d))"
    using assms(1) by (simp add: active_programs_def distinct_map_filter)
  moreover have "map_of (active_programs d) t = Some r"
  proof -
    have "map_of (filter (\<lambda>(k, v). open_task d k) xs) t = map_of xs t" for xs :: "(TaskId \<times> program_row) list"
      using assms(3) by (induction xs) auto
    then show ?thesis using assms(2) by (simp add: active_programs_def)
  qed
  ultimately show "length (active_programs d) = Suc (length (AList.delete t (active_programs d)))"
    "source_bytes (active_programs d) = length (pr_source r) + source_bytes (AList.delete t (active_programs d))"
    using delete_counts by blast+
qed

lemma step_catalog_inv:
  assumes step: "table_step env d d'" and inv: "db_inv env d"
  shows "catalog_inv d'"
proof -
  note I = db_invD(6) [OF inv]
  have dist: "distinct (map fst (d_programs d))"
    using db_invD(5) [OF inv] by (simp add: programs_inv_def)
  have same: "catalog_inv d'"
    if "d_programs d' = d_programs d" "d_completions d' = d_completions d" "d_program_stats d' = d_program_stats d"
    using I that by (simp add: catalog_inv_def active_programs_def)
  have less: "catalog_inv d'"
    if "active_programs d' = AList.delete t (active_programs d)" "open_task d t"
      "map_of (d_programs d) t = Some r"
      "d_program_stats d' = (fst (d_program_stats d) - 1, snd (d_program_stats d) - int (length (pr_source r)))"
    for t r
    using I active_programs_delete [OF dist that(3,2)] that(1,4) by (auto simp: catalog_inv_def)
  show ?thesis
    using step
  proof cases
    case (ts_program t r)
    have "active_programs d' = active_programs d @ [(t, r)]"
      using ts_program by (simp add: active_programs_def)
    with I ts_program show ?thesis by (auto simp: catalog_inv_def source_bytes_def)
  next
    case (ts_program_gone t r)
    have "active_programs d' = AList.delete t (active_programs d)"
      using ts_program_gone(1) by (auto simp: active_programs_def AList.delete_eq intro!: filter_cong)
    then show ?thesis by (rule less) (use ts_program_gone in auto)
  next
    case (ts_complete t p c)
    have "active_programs d' = AList.delete t (active_programs d)"
      using ts_complete(1,2)
      by (auto simp: active_programs_def AList.delete_eq intro!: filter_cong split: if_splits)
    then show ?thesis by (rule less) (use ts_complete in auto)
  qed (rule same; simp add: appended_frame)+
qed

lemma table_step_inv [inv_intros]: "table_step env d d' \<Longrightarrow> db_inv env d \<Longrightarrow> db_inv env d'"
  unfolding db_inv_def [of env d']
  by (intro conjI step_history_inv step_wakeups_inv step_inbox_inv step_waits_inv step_programs_inv
      step_catalog_inv step_completions_inv step_executions_inv step_receipts_inv)

subsection \<open>What later states keep\<close>

definition run_generation :: "db \<Rightarrow> TaskId \<Rightarrow> nat" where
  "run_generation d t =
     (case map_of (d_executions d) t of None \<Rightarrow> 0 | Some r \<Rightarrow> nat (xr_generation r))"

definition admission_of :: "db \<Rightarrow> TaskId \<Rightarrow> (string option \<times> string option) option" where
  "admission_of d t =
     map_option (\<lambda>r. (xr_admission_key r, xr_request_hash r)) (map_of (d_executions d) t)"

lemma step_log_grows:
  assumes "table_step env d d'"
  shows "\<exists>rows. events_of d' t = events_of d t @ rows"
  using assms
proof cases
  case (ts_append u row)
  then show ?thesis by (simp add: appended_events_of)
qed (rule exI [of _ "[]"], simp add: events_of_def)+

lemma step_generation: "table_step env d d' \<Longrightarrow> run_generation d t \<le> run_generation d' t"
  by (erule table_stepE)
    (auto simp: run_generation_def appended_frame update_conv' execution_update_def
      map_of_complete_db_executions split: option.splits)

lemma step_admission:
  "table_step env d d' \<Longrightarrow> admission_of d t = Some a \<Longrightarrow> admission_of d' t = Some a"
  by (erule table_stepE)
    (auto simp: admission_of_def appended_frame update_conv' execution_update_def
      map_of_complete_db_executions)

lemma step_receipts:
  "table_step env d d' \<Longrightarrow> map_of (d_receipts d) k = Some r \<Longrightarrow> map_of (d_receipts d') k = Some r"
  by (erule table_stepE) (auto simp: appended_frame)

lemma step_program:
  "table_step env d d' \<Longrightarrow> map_of (d_programs d) t = Some r \<Longrightarrow> events_of d t \<noteq> [] \<Longrightarrow>
     map_of (d_programs d') t = Some r"
  by (erule table_stepE) (auto simp: appended_frame delete_conv')

lemma table_run_inv [inv_intros]: "(table_step env)\<^sup>*\<^sup>* d d' \<Longrightarrow> db_inv env d \<Longrightarrow> db_inv env d'"
  by (induction rule: rtranclp_induct) (auto intro: table_step_inv)

lemma table_run_log_grows:
  "(table_step env)\<^sup>*\<^sup>* d d' \<Longrightarrow> \<exists>rows. events_of d' t = events_of d t @ rows"
proof (induction rule: rtranclp_induct)
  case (step y z)
  then show ?case using step_log_grows [OF step.hyps(2), of t] by force
qed simp

lemma table_run_generation:
  "(table_step env)\<^sup>*\<^sup>* d d' \<Longrightarrow> run_generation d t \<le> run_generation d' t"
  by (induction rule: rtranclp_induct) (auto intro: order.trans step_generation)

lemma table_run_admission:
  "(table_step env)\<^sup>*\<^sup>* d d' \<Longrightarrow> admission_of d t = Some a \<Longrightarrow> admission_of d' t = Some a"
  by (induction rule: rtranclp_induct) (auto intro: step_admission)

lemma table_run_receipts:
  "(table_step env)\<^sup>*\<^sup>* d d' \<Longrightarrow> map_of (d_receipts d) k = Some r \<Longrightarrow> map_of (d_receipts d') k = Some r"
  by (induction rule: rtranclp_induct) (auto intro: step_receipts)

lemma table_run_program:
  "(table_step env)\<^sup>*\<^sup>* d d' \<Longrightarrow> map_of (d_programs d) t = Some r \<Longrightarrow> events_of d t \<noteq> [] \<Longrightarrow>
     map_of (d_programs d') t = Some r \<and> events_of d' t \<noteq> []"
proof (induction rule: rtranclp_induct)
  case (step y z)
  then show ?case using step_program [OF step.hyps(2)] step_log_grows [OF step.hyps(2), of t] by auto
qed simp

lemma table_run_completed:
  assumes "(table_step env)\<^sup>*\<^sup>* d d'" and "db_inv env d" and "map_of (d_completions d) t = Some c"
  shows "map_of (d_completions d') t = Some c \<and> map_of (d_programs d') t = map_of (d_programs d) t \<and>
    events_of d' t = events_of d t \<and> map_of (d_executions d') t = map_of (d_executions d) t"
  using assms
proof (induction rule: rtranclp_induct)
  case (step y z)
  then have inv: "db_inv env y" by (blast intro: table_run_inv)
  from step step_completed_frame [OF step.hyps(2) inv] show ?case by auto
qed simp

subsection \<open>Retention keeps the invariant\<close>

lemma delete_task_simps [simp]:
  "d_wakeups (delete_task t d) = d_wakeups d" "d_inbox_seq (delete_task t d) = d_inbox_seq d"
  "d_signal_waits (delete_task t d) = d_signal_waits d"
  "d_program_stats (delete_task t d) = d_program_stats d"
  by (simp_all add: delete_task_def)

lemma events_of_delete_task: "events_of (delete_task t d) u = (if u = t then [] else events_of d u)"
  by (auto simp: events_of_def delete_task_def filter_empty_conv
      intro!: arg_cong [where f = "map _"] filter_cong)

lemma inbox_of_delete_task: "inbox_of (delete_task t d) u = (if u = t then [] else inbox_of d u)"
  by (auto simp: inbox_of_def delete_task_def filter_empty_conv intro!: filter_cong)

lemma map_of_delete_task:
  "map_of (d_programs (delete_task t d)) = (map_of (d_programs d))(t := None)"
  "map_of (d_history_stats (delete_task t d)) = (map_of (d_history_stats d))(t := None)"
  "map_of (d_completions (delete_task t d)) = (map_of (d_completions d))(t := None)"
  "map_of (d_executions (delete_task t d)) = (map_of (d_executions d))(t := None)"
  by (simp_all add: delete_task_def delete_conv')

lemma map_of_filter_key:
  "map_of (filter (\<lambda>(k, r). P k) xs) k = (if P k then map_of xs k else None)"
  by (induction xs) auto

lemma active_programs_delete_task:
  assumes "map_of (d_completions d) t \<noteq> None"
  shows "active_programs (delete_task t d) = active_programs d"
  using assms
  by (auto simp: active_programs_def delete_task_def AList.delete_eq
      map_of_filter_key [where P = "\<lambda>k. t \<noteq> k"] intro!: filter_cong)

lemma delete_task_inv:
  assumes inv: "db_inv env d" and compl: "map_of (d_completions d) t = Some c"
  shows "db_inv env (delete_task t d)"
  unfolding db_inv_def
proof (intro conjI)
  show "history_inv env (delete_task t d)"
    using db_invD(1) [OF inv]
    by (auto simp: history_inv_def events_of_delete_task map_of_delete_task rows_ok_def stats_ok_def
        history_size_def)
  show "wakeups_inv (delete_task t d)" "waits_inv (delete_task t d)"
    using db_invD(2,4) [OF inv] by (simp_all add: wakeups_inv_def waits_inv_def)
  show "inbox_inv env (delete_task t d)"
    using db_invD(3) [OF inv]
    by (auto simp: inbox_inv_def inbox_of_delete_task inbox_bytes_def)
      (auto simp: delete_task_def intro: sorted_wrt_less_filter)
  show "programs_inv env (delete_task t d)"
    using db_invD(5) [OF inv]
    by (auto simp: programs_inv_def map_of_delete_task) (simp add: delete_task_def distinct_delete)
  show "catalog_inv (delete_task t d)"
    using db_invD(6) [OF inv] compl by (simp add: catalog_inv_def active_programs_delete_task)
  show "completions_inv env (delete_task t d)"
    using db_invD(7) [OF inv]
    by (auto simp: completions_inv_def map_of_delete_task completed_ok_def events_of_delete_task)
      (simp add: delete_task_def distinct_delete)
  show "executions_inv (delete_task t d)"
    using db_invD(8) [OF inv]
    by (auto simp: executions_inv_def map_of_delete_task) (simp add: delete_task_def distinct_delete)
  have "map_of (d_receipts (delete_task t d)) k = Some r \<Longrightarrow> map_of (d_receipts d) k = Some r" for k r
    by (simp add: delete_task_def map_of_filter_key [where P = "\<lambda>k. fst k \<noteq> t"] split: if_splits)
  moreover have "distinct (map fst (d_receipts (delete_task t d)))"
    using db_invD(9) [OF inv] by (simp add: receipts_inv_def delete_task_def distinct_map_filter)
  ultimately show "receipts_inv (delete_task t d)"
    using db_invD(9) [OF inv] unfolding receipts_inv_def by simp blast
qed

end
