(* ===== verification/Durable_Refine.thy ===== *)
theory Durable_Refine
  imports Durable_Steps
begin

text \<open>
  Every operation of the durable store that succeeds is a run of the elementary changes of
  \<open>Durable_Steps\<close>, so it keeps the invariant and everything that the elementary changes keep. The
  last section does the same for retention.
\<close>

abbreviation runs :: "'v durable_env \<Rightarrow> db \<Rightarrow> db \<Rightarrow> bool" where
  "runs env d d' \<equiv> (table_step env)\<^sup>*\<^sup>* d d'"

lemma runs_then: "runs env d d' \<Longrightarrow> table_step env d' d'' \<Longrightarrow> runs env d d''"
  by (rule rtranclp.rtrancl_into_rtrancl)

lemma runs_one: "table_step env d d' \<Longrightarrow> runs env d d'"
  by (rule r_into_rtranclp)

lemma runs_first: "table_step env d d' \<Longrightarrow> runs env d' d'' \<Longrightarrow> runs env d d''"
  by (rule converse_rtranclp_into_rtranclp)

lemma runs_trans: "runs env d d' \<Longrightarrow> runs env d' d'' \<Longrightarrow> runs env d d''"
  by (rule rtranclp_trans)

subsection \<open>Events\<close>

lemma insert_event_step:
  assumes inv: "db_inv env d"
    and ins: "insert_event t expected event payload recorded d = Inr (s, d')"
    and ok: "sql_nat recorded" "json_from_str env payload \<noteq> None"
  shows "table_step env d d'" and "s = int (length (events_of d t))" and "sql_nat s"
    and "d_wakeups d' = d_wakeups d" "d_completions d' = d_completions d"
    "d_signal_waits d' = d_signal_waits d" "d_signal_inbox d' = d_signal_inbox d"
    "d_executions d' = d_executions d" "d_programs d' = d_programs d"
    "map_of (d_completions d) t = None"
proof -
  note h = db_invD(1) [OF inv]
  let ?row = "\<lparr>er_kind = EventKind_as_str (ne_kind event), er_key = ne_key event,
                er_payload = payload, er_recorded_at_ms = recorded\<rparr>"
  have app: "appended t ?row d d'" and s: "s = int (length (events_of d t))"
    using insert_event_appended [OF h ins] by auto
  have n: "length (events_of d t) \<le> MAX_HISTORY_EVENTS"
    using history_invD(1) [OF h] by (simp add: rows_ok_def)
  then show "sql_nat s" using s by simp
  from ok(2) obtain v where "json_from_str env payload = Some v" by blast
  from event_row_decodes [OF this sql_nat_small [OF n] ok(1)] app show "table_step env d d'"
    by (blast intro: ts_append)
  show "s = int (length (events_of d t))" by (rule s)
  show "d_wakeups d' = d_wakeups d" "d_completions d' = d_completions d"
    "d_signal_waits d' = d_signal_waits d" "d_signal_inbox d' = d_signal_inbox d"
    "d_executions d' = d_executions d" "d_programs d' = d_programs d"
    "map_of (d_completions d) t = None"
    using appended_frame [OF app] by simp_all
qed

lemma raw_event_Inr_iff [result_simps]:
  "raw_event env kind key payload t = Inr e \<longleftrightarrow>
     length key \<le> MAX_EVENT_KEY_BYTES \<and> length payload \<le> MAX_EVENT_PAYLOAD_BYTES \<and>
     (\<exists>v. json_from_str env payload = Some v \<and>
        e = \<lparr>ne_kind = kind, ne_key = key, ne_payload = v, ne_recorded_at_ms = t\<rparr>)"
  by (auto simp: raw_event_def result_simps)

lemma validate_event_Inr_iff [result_simps]:
  "validate_event env event = Inr (payload, t) \<longleftrightarrow>
     length (ne_key event) \<le> MAX_EVENT_KEY_BYTES \<and>
     json_to_string env (ne_payload event) = Some payload \<and>
     length payload \<le> MAX_EVENT_PAYLOAD_BYTES \<and>
     uint (ne_recorded_at_ms event) \<le> i64_max \<and> t = uint (ne_recorded_at_ms event)"
  by (cases "json_to_string env (ne_payload event)") (auto simp: validate_event_def result_simps)

lemma append_event_json_at_runs:
  assumes "db_inv env d"
    and "append_event_json_at env st clk t expected kind key payload recorded d = Inr (e, d')"
  shows "runs env d d'"
  using assms(2)
  by (auto simp: append_event_json_at_def result_simps intro!: runs_one
      elim!: insert_event_step(1) [OF assms(1)])

lemma append_event_inner_runs:
  assumes "db_inv env d" and "env_ok env"
    and "append_event_inner env st clk t expected event d = Inr (e, d')"
  shows "runs env d d'"
  using assms(3)
  by (auto simp: append_event_inner_def result_simps env_okD(2) [OF assms(2)] intro!: runs_one
      elim!: insert_event_step(1) [OF assms(1)])

lemma event_with_wakeup_runs:
  assumes inv: "db_inv env d"
    and ins: "insert_event t expected event payload recorded d = Inr (s, d')"
    and ok: "sql_nat recorded" "json_from_str env payload \<noteq> None" "sql_nat w"
  shows "runs env d (upsert_wakeup t s w d')"
proof -
  note step = insert_event_step [OF inv ins ok(1,2)]
  have "table_step env d' (upsert_wakeup t s w d')"
    using step(3,5,10) ok(3) by (intro ts_wakeup) simp_all
  with step(1) show ?thesis by (blast intro: runs_one runs_then)
qed

lemma append_event_json_with_wakeup_at_runs:
  assumes "db_inv env d"
    and "append_event_json_with_wakeup_at env st clk t expected key payload recorded wake d = Inr (e, d')"
  shows "runs env d d'"
  using assms(2)
  by (auto simp: append_event_json_with_wakeup_at_def Let_def result_simps
      elim!: event_with_wakeup_runs [OF assms(1)])

lemma append_event_with_wakeup_inner_runs:
  assumes "db_inv env d" and "env_ok env"
    and "append_event_with_wakeup_inner env st clk t expected event wake d = Inr (e, d')"
  shows "runs env d d'"
  using assms(3)
  by (auto simp: append_event_with_wakeup_inner_def Let_def result_simps env_okD(2) [OF assms(2)]
      elim!: event_with_wakeup_runs [OF assms(1)])

subsection \<open>Wakeups\<close>

lemma wakeup_row_ok:
  "db_inv env d \<Longrightarrow> map_of (d_wakeups d) t = Some r \<Longrightarrow> wakeup_ok r"
  using db_invD(2) by (auto simp: wakeups_inv_def)

lemma schedule_wakeup_runs: "schedule_wakeup w d = Inr (u, d') \<Longrightarrow> runs env d d'"
  by (auto simp: schedule_wakeup_def result_simps intro!: runs_one ts_wakeup)

lemma lease_row_step:
  assumes "db_inv env d" and "map_of (d_wakeups d) t = Some r" and "sql_nat u"
  shows "table_step env d (lease_row t r owner u d)"
  unfolding lease_row_def
  by (rule ts_lease) (use assms wakeup_row_ok [OF assms(1,2)] in \<open>auto simp: wakeup_ok_def\<close>)

lemma claim_candidates_runs:
  assumes "db_inv env d" and "sql_nat u"
    and "claim_candidates owner until u n cs d = Inr (claims, d')"
  shows "runs env d d'"
  using assms
proof (induction cs arbitrary: d claims)
  case (Cons c cs)
  obtain t row where c: "c = (t, row)" by (cases c)
  show ?case
  proof (cases "map_of (d_wakeups d) t")
    case None
    then show ?thesis using Cons c by simp
  next
    case (Some r)
    have step: "table_step env d (lease_row t r owner u d)"
      by (rule lease_row_step [OF Cons.prems(1) Some Cons.prems(2)])
    then have inv: "db_inv env (lease_row t r owner u d)"
      using Cons.prems(1) by (rule table_step_inv)
    show ?thesis
      using Cons.prems(3) Cons.IH [OF Cons.prems(1,2)] Cons.IH [OF inv Cons.prems(2)] Some c step
      by (auto simp: result_simps split: if_splits intro: runs_first)
  qed
qed simp

lemma claim_due_wakeups_runs:
  assumes "db_inv env d" and "claim_due_wakeups n limit owner dur d = Inr (claims, d')"
  shows "runs env d d'"
  using assms(2)
  by (auto simp: claim_due_wakeups_def result_simps split: if_split_asm
      elim!: claim_candidates_runs [OF assms(1), rotated])

lemma claim_wakeup_runs:
  assumes "db_inv env d" and "claim_wakeup t n owner dur d = Inr (c, d')"
  shows "runs env d d'"
  using assms(2)
  by (cases "map_of (d_wakeups d) t")
    (auto simp: claim_wakeup_def result_simps split: if_split_asm
      intro: runs_one lease_row_step [OF assms(1)])

lemma complete_wakeup_runs:
  "complete_wakeup st clk t s owner n d = Inr (b, d') \<Longrightarrow> runs env d d'"
  by (auto simp: complete_wakeup_def Let_def result_simps split: if_split_asm option.split_asm
      intro: runs_one ts_wakeup_gone)

lemma held_row_Some:
  "held_row d claim (s, w, u) = Some r \<longleftrightarrow>
     map_of (d_wakeups d) (wc_task_id claim) = Some r \<and> row_matches r s w (wc_lease_owner claim) u"
  by (auto simp: held_row_def split: option.splits)

lemma renew_wakeup_claim_runs:
  assumes inv: "db_inv env d" and ren: "renew_wakeup_claim claim n dur d = Inr (c, d')"
  shows "runs env d d'"
proof -
  have step: "table_step env d (d\<lparr>d_wakeups := AList.update (wc_task_id claim)
      (r\<lparr>wr_lease_until_ms := Some v\<rparr>) (d_wakeups d)\<rparr>)"
    if held: "held_row d claim (s, w, u) = Some r" and v: "sql_nat v" for r s w u v
  proof -
    have row: "map_of (d_wakeups d) (wc_task_id claim) = Some r"
      and owner: "wr_lease_owner r = Some (wc_lease_owner claim)"
      using held by (simp_all add: held_row_Some row_matches_def)
    have same: "r\<lparr>wr_lease_until_ms := Some v\<rparr> =
        r\<lparr>wr_lease_owner := Some (wc_lease_owner claim), wr_lease_until_ms := Some v\<rparr>"
      using owner by simp
    show ?thesis
      unfolding same by (rule ts_lease [OF row])
        (use wakeup_row_ok [OF inv row] v in \<open>auto simp: wakeup_ok_def\<close>)
  qed
  obtain s w u where cols: "claim_columns claim = Inr (s, w, u)"
    using ren by (auto simp: renew_wakeup_claim_def result_simps)
  show ?thesis
    using ren cols
    by (cases "held_row d claim (s, w, u)")
      (auto simp: renew_wakeup_claim_def result_simps split: if_split_asm intro: runs_one step)
qed

lemma release_wakeup_claim_runs:
  assumes inv: "db_inv env d" and rel: "release_wakeup_claim claim d = Inr (b, d')"
  shows "runs env d d'"
proof -
  have step: "table_step env d (d\<lparr>d_wakeups := AList.update (wc_task_id claim)
      (r\<lparr>wr_lease_owner := None, wr_lease_until_ms := None\<rparr>) (d_wakeups d)\<rparr>)"
    if held: "held_row d claim cols = Some r" for r cols
  proof -
    have row: "map_of (d_wakeups d) (wc_task_id claim) = Some r"
      using held by (cases cols) (simp add: held_row_Some)
    show ?thesis
      by (rule ts_lease [OF row]) (use wakeup_row_ok [OF inv row] in \<open>auto simp: wakeup_ok_def\<close>)
  qed
  obtain cols where cols: "claim_columns claim = Inr cols"
    using rel by (auto simp: release_wakeup_claim_def result_simps)
  show ?thesis
    using rel cols
    by (cases "held_row d claim cols")
      (auto simp: release_wakeup_claim_def result_simps intro: runs_one step)
qed

subsection \<open>Signals\<close>

lemma wake_waiter_runs:
  assumes "waits_inv d" and "open_task d t" and "sql_nat sent"
  shows "runs env d (wake_waiter t name sent d)"
  using assms
  by (auto simp: wake_waiter_def waits_inv_def split: option.splits intro!: runs_one ts_wakeup)

lemma wake_waiter_simps [simp]:
  "d_inbox_seq (wake_waiter t name sent d) = d_inbox_seq d"
  "d_receipts (wake_waiter t name sent d) = d_receipts d"
  "d_signal_inbox (wake_waiter t name sent d) = d_signal_inbox d"
  "d_completions (wake_waiter t name sent d) = d_completions d"
  "d_signal_waits (wake_waiter t name sent d) = d_signal_waits d"
  by (auto simp: wake_waiter_def split: option.splits)

lemma store_receipt_result:
  "store_receipt env t name payload key i d = Inr d' \<Longrightarrow>
     d' = d \<or> (\<exists>k r. map_of (d_receipts d) k = None \<and> rr_signal_id r = i \<and>
                    d' = d\<lparr>d_receipts := d_receipts d @ [(k, r)]\<rparr>)"
  by (force simp: store_receipt_def result_simps split: option.split_asm)

lemma insert_signal_Inr:
  assumes "insert_signal env t name payload sent key d = Inr (i, d')"
  defines "r \<equiv> \<lparr>sr_task_id = t, sr_signal_name = name, sr_payload = payload, sr_sent_at_ms = sent\<rparr>"
  shows "open_task d t" "length (inbox_of d t) < MAX_PENDING_SIGNALS"
    "inbox_bytes d t + signal_size r \<le> MAX_HISTORY_BYTES" "i = word_of_int (d_inbox_seq d + 1)"
    "store_receipt env t name payload key (d_inbox_seq d + 1)
       (wake_waiter t name sent (queue_signal r d)) = Inr d'"
  using assms(1) unfolding r_def
  by (auto simp: insert_signal_def Let_def result_simps usize_checked_add_def i64_of_usize_def
      i64_checked_add_def inbox_bytes_def signal_size_def split: if_split_asm)

lemma insert_signal_runs:
  assumes inv: "db_inv env d" and sent: "sql_nat sent" and json: "json_from_str env payload \<noteq> None"
    and ins: "insert_signal env t name payload sent key d = Inr (i, d')"
  shows "runs env d d'"
proof -
  let ?r = "\<lparr>sr_task_id = t, sr_signal_name = name, sr_payload = payload, sr_sent_at_ms = sent\<rparr>"
  let ?d1 = "queue_signal ?r d"
  let ?d2 = "wake_waiter t name sent ?d1"
  note I = insert_signal_Inr [OF ins]
  have step1: "table_step env d ?d1"
    using ts_signal [of d ?r env] I sent json by (simp add: signal_ok_def queue_signal_def)
  have "waits_inv ?d1"
    using db_invD(4) [OF table_step_inv [OF step1 inv]] .
  then have run2: "runs env d ?d2"
    using step1 I(1) sent
    by (intro runs_first [OF step1] wake_waiter_runs) (simp_all add: queue_signal_def)
  have seq2: "d_inbox_seq ?d2 = d_inbox_seq d + 1" by (simp add: queue_signal_def)
  have pos: "0 \<le> d_inbox_seq d" using db_invD(3) [OF inv] by (simp add: inbox_inv_def)
  have "d' = ?d2 \<or> table_step env ?d2 d'"
    using store_receipt_result [OF I(5)] seq2 pos by (auto intro!: ts_receipt simp del: wake_waiter_simps)
  with run2 show ?thesis by (auto intro: runs_then)
qed

lemma send_signal_inner_cases:
  assumes "send_signal_inner env t name payload sent key d = Inr (i, d')"
  obtains (receipt) k p where "key = Some k" "json_to_string env payload = Some p"
      "signal_receipt env t name p k d = Inr (Some i)" "d' = d"
    | (queued) p where "json_to_string env payload = Some p" "uint sent \<le> i64_max"
      "key = None \<or> (\<exists>k. key = Some k \<and> signal_receipt env t name p k d = Inr None)"
      "insert_signal env t name p (uint sent) key d = Inr (i, d')"
proof -
  from assms obtain p prior where p: "json_to_string env payload = Some p" "uint sent \<le> i64_max"
      and prior: "(case key of None \<Rightarrow> Inr None | Some k \<Rightarrow> signal_receipt env t name p k d) = Inr prior"
      and res: "(case prior of Some signal_id \<Rightarrow> Inr (signal_id, d)
        | None \<Rightarrow> insert_signal env t name p (uint sent) key d) = Inr (i, d')"
    unfolding send_signal_inner_def rbind_Inr_iff ok_or_Inr_iff to_sql_integer_Inr_iff
    by (auto simp: result_simps split: if_split_asm)
  show ?thesis
  proof (cases prior)
    case None
    with prior res p show ?thesis by (intro queued) (auto split: option.splits)
  next
    case (Some j)
    with prior res p show ?thesis by (cases key) (auto intro: receipt)
  qed
qed

lemma send_signal_inner_runs:
  assumes inv: "db_inv env d" and ok: "env_ok env"
    and send: "send_signal_inner env t name payload sent key d = Inr (i, d')"
  shows "runs env d d'"
  using send
proof (cases rule: send_signal_inner_cases)
  case (queued p)
  show ?thesis
    by (rule insert_signal_runs [OF inv sql_nat_uint [OF queued(2)] _ queued(4)])
      (simp add: env_okD(2) [OF ok queued(1)])
qed simp

lemma oldest_signal_mem:
  assumes "oldest_signal d t name = Some (i, r)"
  shows "(i, r) \<in> set (d_signal_inbox d) \<and> sr_task_id r = t \<and> sr_signal_name r = name"
proof -
  let ?xs = "filter (\<lambda>(i, r). sr_signal_name r = name) (inbox_of d t)"
  obtain ys where ys: "sort_key fst ?xs = (i, r) # ys"
    using assms by (cases "sort_key fst ?xs") (simp_all add: oldest_signal_def)
  have "(i, r) \<in> set (sort_key fst ?xs)" unfolding ys by simp
  then show ?thesis unfolding set_sort by (simp add: inbox_of_def)
qed

lemma consume_claim_result:
  "consume_claim t expected n claim d = Inr d1 \<Longrightarrow> d1 = d \<or> d1 = delete_wakeup t d"
  by (auto simp: consume_claim_def Let_def result_simps split: option.split_asm if_split_asm)

lemma register_signal_wait_result:
  "register_signal_wait t s name d = Inr d' \<Longrightarrow>
     d' = d \<or> (map_of (d_signal_waits d) t = None \<and> uint s \<le> i64_max \<and>
              d' = d\<lparr>d_signal_waits := d_signal_waits d @ [(t, (uint s, name))]\<rparr>)"
  by (auto simp: register_signal_wait_def result_simps split: option.split_asm if_split_asm)

lemma remove_signal_runs: "runs env d (remove_signal i t s name d)"
proof -
  let ?d1 = "d\<lparr>d_signal_inbox := AList.delete i (d_signal_inbox d)\<rparr>"
  have "table_step env d ?d1" by (rule ts_signal_taken)
  moreover have "table_step env ?d1 (?d1\<lparr>d_signal_waits := AList.delete t (d_signal_waits ?d1)\<rparr>)"
    by (rule ts_wait_gone)
  ultimately show ?thesis
    unfolding remove_signal_def Let_def by (auto intro: runs_one runs_then)
qed

lemma take_signal_runs:
  assumes inv: "db_inv env d" and mem: "queued \<in> set (d_signal_inbox d)"
    and take: "take_signal env st r t expected name n claim queued d = Inr (e, d')"
  shows "runs env d d'"
proof -
  obtain d1 v s d2 where
      d1: "consume_claim t expected n claim d = Inr d1"
      and v: "json_from_str env (sr_payload (snd queued)) = Some v"
      and ins: "insert_event t (Some expected) (signal_event name v (word_of_int (sr_sent_at_ms (snd queued))))
         (sr_payload (snd queued)) (sr_sent_at_ms (snd queued)) d1 = Inr (s, d2)"
      and d': "d' = remove_signal (fst queued) t s name d2"
    using take by (auto simp: take_signal_def result_simps)
  have run1: "runs env d d1"
    using consume_claim_result [OF d1] by (auto intro: runs_one ts_wakeup_gone)
  have "sql_nat (sr_sent_at_ms (snd queued))"
    using db_invD(3) [OF inv] mem by (auto simp: inbox_inv_def signal_ok_def)
  then have "table_step env d1 d2"
    using insert_event_step(1) [OF table_run_inv [OF run1 inv] ins] v by simp
  with run1 have "runs env d d2" by (rule runs_then)
  then show ?thesis unfolding d' using remove_signal_runs by (rule runs_trans)
qed

lemma poll_signal_runs:
  assumes inv: "db_inv env d" and poll: "poll_signal env st clk t expected name n claim d = Inr (e, d')"
  shows "runs env d d'"
proof (cases "oldest_signal d t name")
  case None
  then have reg: "register_signal_wait t expected name d = Inr d'" and "open_task d t"
    using poll by (auto simp: poll_signal_def result_simps split: if_split_asm)
  with register_signal_wait_result [OF reg] show ?thesis
    by (auto intro: runs_one ts_wait)
next
  case (Some queued)
  then have "take_signal env st (clk 1) t expected name (uint n) claim queued d = Inr (e, d')"
    using poll by (auto simp: poll_signal_def result_simps split: if_split_asm)
  moreover have "queued \<in> set (d_signal_inbox d)"
    using oldest_signal_mem [of d t name "fst queued" "snd queued"] Some by simp
  ultimately show ?thesis using take_signal_runs [OF inv] by blast
qed

subsection \<open>Programs\<close>

lemma decode_new_program:
  assumes "env_ok env" and "validate_program_source source = Inr ()" and "sql_nat at"
  shows "decode_program env t \<lparr>pr_program_kind = DurableProgramKind_as_str kind, pr_source = source,
      pr_source_sha256 = sha256 env source, pr_registered_at_ms = at\<rparr> =
    Inr \<lparr>dp_task_id = t, dp_kind = kind, dp_source = source, dp_source_sha256 = sha256 env source,
         dp_registered_at_ms = word_of_int at\<rparr>"
  using assms by (simp add: decode_program_def env_okD from_sql_integer_def sql_nat_def)

lemma select_program_None: "select_program env t d = Inr None \<longleftrightarrow> map_of (d_programs d) t = None"
  by (auto simp: select_program_def result_simps split: option.splits)

lemma select_program_Some:
  "select_program env t d = Inr (Some p) \<longleftrightarrow>
     (\<exists>r. map_of (d_programs d) t = Some r \<and> decode_program env t r = Inr p)"
  by (auto simp: select_program_def result_simps split: option.splits)

lemma decode_program_source:
  "decode_program env t r = Inr p \<Longrightarrow> dp_source p = pr_source r \<and> dp_source_sha256 p = sha256 env (pr_source r)"
  by (auto simp: decode_program_def result_simps split: if_split_asm)

lemma put_program_inner_cases:
  assumes "put_program_inner env t kind source at d = Inr (res, d')"
  obtains (existing) p where "res = Some p" "d' = d" "select_program env t d = Inr (Some p)"
      "dp_kind p = kind" "dp_source p = source"
    | (new) "res = None" "validate_program_source source = Inr ()" "uint at \<le> i64_max"
      "open_task d t" "map_of (d_programs d) t = None"
      "fst (d_program_stats d) < int MAX_DURABLE_PROGRAMS"
      "snd (d_program_stats d) + int (length source) \<le> int MAX_DURABLE_PROGRAM_TOTAL_BYTES"
      "d' = d\<lparr>d_programs := d_programs d @
                 [(t, \<lparr>pr_program_kind = DurableProgramKind_as_str kind, pr_source = source,
                       pr_source_sha256 = sha256 env source, pr_registered_at_ms = uint at\<rparr>)],
              d_program_stats := (fst (d_program_stats d) + 1,
                                  snd (d_program_stats d) + int (length source))\<rparr>"
proof -
  obtain existing where ex: "select_program env t d = Inr existing"
    using assms by (auto simp: put_program_inner_def Let_def result_simps)
  show ?thesis
  proof (cases existing)
    case None
    then show ?thesis
      using assms ex
      by (intro new)
        (auto simp: put_program_inner_def Let_def result_simps i64_of_usize_def i64_checked_add_def
          split: if_split_asm prod.split_asm)
  next
    case (Some p)
    then show ?thesis
      using assms ex
      by (intro existing [of p]) (auto simp: put_program_inner_def Let_def result_simps split: if_split_asm)
  qed
qed

lemma put_program_inner_runs:
  assumes ok: "env_ok env" and put: "put_program_inner env t kind source at d = Inr (res, d')"
  shows "runs env d d'"
  using put
proof (cases rule: put_program_inner_cases)
  case new
  let ?r = "\<lparr>pr_program_kind = DurableProgramKind_as_str kind, pr_source = source,
              pr_source_sha256 = sha256 env source, pr_registered_at_ms = uint at\<rparr>"
  have "\<exists>p. decode_program env t ?r = Inr p"
    using decode_new_program [OF ok new(2) sql_nat_uint [OF new(3)]] by blast
  from ts_program [OF new(4,5) this] new(6-8) show ?thesis by (intro runs_one) simp
qed simp

lemma remove_program_runs:
  assumes rem: "remove_program env t d = Inr (res, d')"
  shows "runs env d d'"
proof -
  obtain existing where ex: "select_program env t d = Inr existing" and open_t: "open_task d t"
    using rem by (auto simp: remove_program_def result_simps)
  show ?thesis
  proof (cases existing)
    case None
    then show ?thesis using rem ex by (auto simp: remove_program_def result_simps)
  next
    case (Some p)
    then obtain r where r: "map_of (d_programs d) t = Some r" "decode_program env t r = Inr p"
      using ex by (auto simp: select_program_Some)
    have "d' = d\<lparr>d_program_stats := (fst (d_program_stats d) - 1,
        snd (d_program_stats d) - int (length (pr_source r))),
        d_programs := AList.delete t (d_programs d)\<rparr>"
      using rem ex Some decode_program_source [OF r(2)]
      by (auto simp: remove_program_def decrement_stats_def result_simps Let_def
          split: if_split_asm prod.split_asm)
    moreover have "events_of d t = []"
      using rem ex Some by (auto simp: remove_program_def result_simps split: if_split_asm)
    ultimately show ?thesis using ts_program_gone [OF open_t r(1)] by (auto intro: runs_one)
  qed
qed

subsection \<open>Admission and execution\<close>

lemma update_new_key: "map_of tbl k = None \<Longrightarrow> AList.update k r tbl = tbl @ [(k, r)]"
  by (induction tbl) (auto split: if_split_asm)

lemma admit_cases:
  assumes "admit env t key source input time d = Inr (u, d')"
  obtains (known) r hash v i where "map_of (d_executions d) t = Some r" "d' = d"
      "fingerprint env source input = Inr (hash, i)"
      "xr_admission_key r = Some key" "xr_request_hash r = Some hash"
    | (new) hash inp event s d2 where "map_of (d_executions d) t = None"
      "fingerprint env source input = Inr (hash, inp)" "map_of (d_programs d) t = None"
      "fst (d_program_stats d) < int MAX_DURABLE_PROGRAMS"
      "snd (d_program_stats d) + int (length source) \<le> int MAX_DURABLE_PROGRAM_TOTAL_BYTES"
      "uint time \<le> i64_max" "raw_event env EK_Step ''$tysel:task-input'' inp time = Inr event"
      "insert_event t (Some 0) event inp (uint time)
         (d\<lparr>d_programs := d_programs d @
              [(t, \<lparr>pr_program_kind = ''module'', pr_source = source,
                    pr_source_sha256 = sha256 env source, pr_registered_at_ms = uint time\<rparr>)],
            d_program_stats := (fst (d_program_stats d) + 1,
                                snd (d_program_stats d) + int (length source))\<rparr>) = Inr (s, d2)"
      "map_of (d_executions d2) t = None"
      "d' = d2\<lparr>d_executions := d_executions d2 @
         [(t, \<lparr>xr_state = ES_ready, xr_generation = 0, xr_owner = None, xr_lease_until_ms = None,
               xr_admission_key = Some key, xr_request_hash = Some hash\<rparr>)]\<rparr>"
proof -
  obtain hash i where fp: "fingerprint env source input = Inr (hash, i)"
    using assms by (auto simp: admit_def result_simps)
  show ?thesis
  proof (cases "map_of (d_executions d) t")
    case None
    then show ?thesis
      using assms fp
      by (auto simp: admit_def Let_def result_simps select_program_None intro!: new [OF None fp]
          split: if_split_asm prod.split_asm)
  next
    case (Some r)
    then show ?thesis
      using assms fp
      by (intro known [OF Some _ fp]) (auto simp: admit_def result_simps split: if_split_asm)
  qed
qed

lemma fingerprint_Inr:
  "fingerprint env source input = Inr (hash, i) \<Longrightarrow>
     validate_program_source source = Inr () \<and>
     hash = hex_encode (sha256 env (source @ CHR 0x00 # i)) \<and>
     (\<exists>v. json_from_str env input = Some v \<and> json_to_string env v = Some i)"
  by (auto simp: fingerprint_def result_simps split: if_split_asm)

lemma admit_runs:
  assumes inv: "db_inv env d" and ok: "env_ok env" and adm: "admit env t key source input time d = Inr (u, d')"
  shows "runs env d d'"
  using adm
proof (cases rule: admit_cases)
  case (new hash inp event s d2)
  let ?r = "\<lparr>pr_program_kind = ''module'', pr_source = source,
              pr_source_sha256 = sha256 env source, pr_registered_at_ms = uint time\<rparr>"
  let ?d1 = "d\<lparr>d_programs := d_programs d @ [(t, ?r)],
      d_program_stats := (fst (d_program_stats d) + 1, snd (d_program_stats d) + int (length source))\<rparr>"
  have open_t: "open_task d t"
    using new(8) by (auto simp: insert_event_def result_simps)
  have "\<exists>p. decode_program env t ?r = Inr p"
    using decode_new_program [OF ok _ sql_nat_uint [OF new(6)], of source t PK_Module]
      fingerprint_Inr [OF new(2)] by auto
  from ts_program [OF open_t new(3) this] new(4,5) have step1: "table_step env d ?d1" by simp
  have "json_from_str env inp \<noteq> None"
    using fingerprint_Inr [OF new(2)] env_okD(2) [OF ok] by auto
  note ins = insert_event_step [OF table_step_inv [OF step1 inv] new(8) sql_nat_uint [OF new(6)] this]
  have "AList.update t r (d_executions d2) = d_executions d2 @ [(t, r)]" for r
    using new(9) by (rule update_new_key)
  then have "table_step env d2 d'"
    using ts_execution [of d2 t "\<lparr>xr_state = ES_ready, xr_generation = 0, xr_owner = None,
        xr_lease_until_ms = None, xr_admission_key = Some key, xr_request_hash = Some hash\<rparr>" env]
      new(9,10) ins(5,10) by (simp add: execution_update_def sql_nat_def i64_max_def)
  with step1 ins(1) show ?thesis by (blast intro: runs_one runs_then)
qed simp

lemma lease_deadline_Inr_iff [result_simps]:
  "lease_deadline time duration = Inr until \<longleftrightarrow> checked_add time duration = Some until \<and> time < until"
  by (auto simp: lease_deadline_def result_simps split: option.splits)

lemma next_generation_Inr:
  assumes "executions_inv d" and "next_generation t d = Inr g"
  shows "g = int (run_generation d t) + 1" and "sql_nat g"
  using assms
  by (auto simp: next_generation_def run_generation_def executions_inv_def sql_nat_def result_simps
      i64_checked_add_def i64_max_def split: option.splits if_split_asm)

lemma claim_run_cases:
  assumes "claim_run env entropy clk t owner duration d = Inr (res, d')"
  obtains (refused) "res = None" "d' = d"
    | (granted) token time until generation w later where
      "owner_token env entropy owner = Inr token" "open_task d t" "map_of (d_programs d) t \<noteq> None"
      "now (clk 0) = Inr time" "time < until" "\<not> run_blocked t time d"
      "next_generation t d = Inr generation" "uint until \<le> i64_max"
      "grant_run t generation token until (uint until) d = (w, d')"
      "now (clk 1) = Inr later" "later < until"
      "res = Some \<lparr>ec_task_id = t, ec_owner = token, ec_generation = word_of_int generation,
                    ec_lease_until_ms = until, ec_wakeup = w\<rparr>"
proof -
  obtain token where tok: "owner_token env entropy owner = Inr token"
    using assms unfolding claim_run_def rbind_Inr_iff by blast
  show ?thesis
  proof (cases "open_task d t \<and> map_of (d_programs d) t \<noteq> None")
    case False
    then have "res = None \<and> d' = d" using assms tok by (auto simp: claim_run_def split: if_split_asm)
    then show ?thesis using refused by simp
  next
    case True
    obtain time until where time: "now (clk 0) = Inr time" "lease_deadline time duration = Inr until"
      using assms tok True by (auto simp: claim_run_def rbind_Inr_iff)
    show ?thesis
    proof (cases "run_blocked t time d")
      case blocked: True
      then have "res = None \<and> d' = d" using assms tok True time by (simp add: claim_run_def)
      then show ?thesis using refused by simp
    next
      case free: False
      obtain g where g: "next_generation t d = Inr g" "uint until \<le> i64_max"
        using assms tok True time free by (auto simp: claim_run_def result_simps)
      obtain w d2 where gr: "grant_run t g token until (uint until) d = (w, d2)" by fastforce
      obtain later where later: "now (clk 1) = Inr later"
        using assms tok True time free g gr by (auto simp: claim_run_def result_simps to_sql_integer_def)
      show ?thesis
      proof (cases "until \<le> later")
        case expired: True
        then have "res = None \<and> d' = d"
          using assms tok True time free g gr later by (auto simp: claim_run_def to_sql_integer_def)
        then show ?thesis using refused by simp
      next
        case False
        then have "res = Some \<lparr>ec_task_id = t, ec_owner = token, ec_generation = word_of_int g,
              ec_lease_until_ms = until, ec_wakeup = w\<rparr> \<and> d' = d2"
          using assms tok True time free g gr later by (auto simp: claim_run_def to_sql_integer_def)
        moreover have "time < until" using time(2) by (simp add: lease_deadline_Inr_iff)
        ultimately show ?thesis
          using granted [OF tok _ _ time(1) _ free g _ later] True False gr by simp
      qed
    qed
  qed
qed

lemma upsert_execution_step:
  assumes inv: "executions_inv d" and gen: "next_generation t d = Inr g" and open_t: "open_task d t"
  shows "table_step env d (upsert_execution t g owner until d)"
  unfolding upsert_execution_def
proof (rule ts_execution [OF open_t])
  have "int (run_generation d t) \<le> g" and "sql_nat g"
    using next_generation_Inr [OF inv gen] by auto
  then show "execution_update (map_of (d_executions d) t)
     (case map_of (d_executions d) t of
        None \<Rightarrow> \<lparr>xr_state = ES_running, xr_generation = g, xr_owner = Some owner,
                 xr_lease_until_ms = Some until, xr_admission_key = None, xr_request_hash = None\<rparr>
      | Some r \<Rightarrow> r\<lparr>xr_state := ES_running, xr_generation := g, xr_owner := Some owner,
                    xr_lease_until_ms := Some until\<rparr>)"
    by (auto simp: execution_update_def run_generation_def split: option.splits if_split_asm)
qed

lemma claim_run_runs:
  assumes inv: "db_inv env d" and run: "claim_run env entropy clk t owner duration d = Inr (res, d')"
  shows "runs env d d'"
  using run
proof (cases rule: claim_run_cases)
  case (granted token time until generation w later)
  let ?d1 = "upsert_execution t generation token (uint until) d"
  have step1: "table_step env d ?d1"
    by (rule upsert_execution_step [OF db_invD(8) [OF inv] granted(7,2)])
  have "table_step env ?d1 (lease_row t r token (uint until) ?d1)" if "map_of (d_wakeups d) t = Some r" for r
    using that sql_nat_uint [OF granted(8)]
    by (intro lease_row_step [OF table_step_inv [OF step1 inv]]) (simp_all add: upsert_execution_def)
  with step1 granted(9) show ?thesis
    by (auto simp: grant_run_def Let_def split: option.split_asm intro: runs_one runs_then)
qed simp

lemma clear_wakeup_lease_runs:
  assumes "db_inv env d"
  shows "runs env d (clear_wakeup_lease t d)"
  unfolding clear_wakeup_lease_def
  using wakeup_row_ok [OF assms]
  by (auto split: option.splits simp: wakeup_ok_def intro!: runs_one ts_lease)

lemma end_execution_runs:
  assumes "executions_inv d" and "open_task d t" and "state \<noteq> ES_completed"
  shows "runs env d (end_execution t state d)"
  unfolding end_execution_def
  using assms
  by (auto split: option.splits simp: execution_update_def executions_inv_def intro!: runs_one ts_execution)

lemma guard_execution_Some:
  "guard_execution \<lparr>st_execution = Some claim\<rparr> r t d = Inr u \<Longrightarrow>
     t = ec_task_id claim \<and> (\<exists>row. map_of (d_executions d) t = Some row \<and> xr_state row = ES_running \<and>
       xr_owner row = Some (ec_owner claim) \<and> xr_generation row = uint (ec_generation claim))"
  by (auto simp: guard_execution_def execution_live_def result_simps split: if_split_asm option.split_asm)

lemma running_open:
  assumes "db_inv env d" and "map_of (d_executions d) t = Some row" and "xr_state row = ES_running"
  shows "open_task d t"
  using db_invD(7) [OF assms(1)] assms(2,3)
  by (cases "map_of (d_completions d) t") (auto simp: completions_inv_def completed_ok_def)

lemma release_run_runs:
  assumes inv: "db_inv env d" and rel: "release_run clk claim failed d = Inr (u, d')"
  shows "runs env d d'"
proof -
  let ?t = "ec_task_id claim"
  let ?d1 = "clear_wakeup_lease ?t d"
  have g: "guard_execution \<lparr>st_execution = Some claim\<rparr> (clk 1) ?t ?d1 = Inr ()"
    and d': "d' = end_execution ?t (if failed then ES_failed else ES_suspended) ?d1"
    using rel by (auto simp: release_run_def Let_def result_simps)
  have run1: "runs env d ?d1" by (rule clear_wakeup_lease_runs [OF inv])
  then have inv1: "db_inv env ?d1" using inv by (rule table_run_inv)
  have "open_task ?d1 ?t" using guard_execution_Some [OF g] running_open [OF inv1] by blast
  then have "runs env ?d1 d'"
    unfolding d' by (intro end_execution_runs db_invD(8) [OF inv1]) simp_all
  with run1 show ?thesis by (rule runs_trans)
qed

subsection \<open>Completion\<close>

lemma finish_task_cases:
  assumes "finish_task env st clk t expected value at lease d = Inr (res, d')"
  obtains (already) c where "res = True" "d' = d" "map_of (d_completions d) t = Some c"
      "cr_next_sequence c = uint expected" "json_from_str env (cr_result_json c) = Some value"
    | (unregistered) "res = False" "d' = d" "open_task d t" "map_of (d_programs d) t = None"
    | (finished) p json time where "res = True" "open_task d t" "map_of (d_programs d) t = Some p"
      "json_to_string env value = Some json" "map_of (d_wakeups d) t = None"
      "map_of (d_signal_waits d) t = None" "0 \<le> next_sequence d t"
      "expected = word_of_int (next_sequence d t)"
      "guard_execution st (clk 0) t d = Inr ()"
      "completion_time t at lease (clk 1) = Inr time" "uint time \<le> i64_max"
      "d' = complete_db t \<lparr>cr_next_sequence = next_sequence d t, cr_result_json = json,
                           cr_completed_at_ms = uint time\<rparr> p d"
proof -
  obtain json where json: "json_to_string env value = Some json" "length json \<le> MAX_EVENT_PAYLOAD_BYTES"
    using assms by (auto simp: finish_task_def result_simps split: if_split_asm)
  show ?thesis
  proof (cases "map_of (d_completions d) t")
    case (Some c)
    then show ?thesis
      using assms json
      by (intro already [of c]) (auto simp: finish_task_def result_simps split: if_split_asm)
  next
    case open_t: None
    have g: "guard_execution st (clk 0) t d = Inr ()"
      using assms json open_t by (auto simp: finish_task_def result_simps)
    show ?thesis
    proof (cases "map_of (d_programs d) t")
      case None
      then show ?thesis
        using assms json open_t g by (intro unregistered) (auto simp: finish_task_def)
    next
      case (Some p)
      have seq: "0 \<le> next_sequence d t" "expected = word_of_int (next_sequence d t)"
        and idle: "map_of (d_wakeups d) t = None" "map_of (d_signal_waits d) t = None"
        using assms json open_t g Some
        by (cases "map_of (d_signal_waits d) t";
            auto simp: finish_task_def result_simps Let_def split: if_split_asm)+
      obtain time where time: "completion_time t at lease (clk 1) = Inr time" "uint time \<le> i64_max"
        using assms json open_t g Some seq idle
        by (auto simp: finish_task_def result_simps Let_def from_sql_integer_def)
      have "res = True \<and> d' = complete_db t \<lparr>cr_next_sequence = next_sequence d t, cr_result_json = json,
          cr_completed_at_ms = uint time\<rparr> p d"
        using assms json open_t g Some seq idle time
        by (auto simp: finish_task_def result_simps Let_def from_sql_integer_def to_sql_integer_def
            sql_insert_def decrement_stats_def complete_db_def split: if_split_asm prod.split_asm)
      then show ?thesis
        using finished [OF _ open_t Some json(1) idle seq g time] by simp
    qed
  qed
qed

lemma finish_task_runs:
  assumes inv: "db_inv env d" and ok: "env_ok env"
    and fin: "finish_task env st clk t expected value at lease d = Inr (res, d')"
  shows "runs env d d'"
  using fin
proof (cases rule: finish_task_cases)
  case (finished p json time)
  have "next_sequence d t = int (length (events_of d t))"
    using next_sequence_length history_invD(1) db_invD(1) [OF inv] by blast
  then show ?thesis
    unfolding finished(12)
    using finished env_okD(2) [OF ok finished(4)]
    by (intro runs_one ts_complete) simp_all
qed simp_all

subsection \<open>Retention\<close>

lemma prune_loop_prefix:
  assumes "\<forall>c \<in> set cs. map_of (d_wakeups d) (fst c) = None \<and> map_of (d_signal_waits d) (fst c) = None"
    and "prune_loop cs n b d = (n', d')"
  shows "\<exists>k \<le> length cs. n' = n + k \<and> d' = fold delete_task (map fst (take k cs)) d \<and>
    (cs \<noteq> [] \<and> n = 0 \<longrightarrow> 0 < k) \<and>
    (k = 0 \<or> n + k \<le> 1 \<or> b + sum_list (map snd (take k cs)) \<le> int MAX_HISTORY_BYTES)"
  using assms
proof (induction cs arbitrary: n b d)
  case (Cons c cs)
  obtain t r where c: "c = (t, r)" by (cases c)
  show ?case
  proof (cases "n > 0 \<and> b + r > int MAX_HISTORY_BYTES")
    case True
    then show ?thesis using Cons.prems c by (intro exI [of _ 0]) auto
  next
    case False
    then have "prune_loop cs (n + 1) (b + r) (delete_task t d) = (n', d')"
      using Cons.prems c by auto
    from Cons.IH [OF _ this] Cons.prems(1) obtain k where k: "k \<le> length cs" "n' = n + 1 + k"
        "d' = fold delete_task (map fst (take k cs)) (delete_task t d)"
        "k = 0 \<or> n + 1 + k \<le> 1 \<or> b + r + sum_list (map snd (take k cs)) \<le> int MAX_HISTORY_BYTES"
      by auto
    then show ?thesis using c False by (intro exI [of _ "Suc k"]) auto
  qed
qed simp

lemma fold_delete_task_inv:
  assumes "db_inv env d" and "distinct ts" and "\<forall>t \<in> set ts. map_of (d_completions d) t \<noteq> None"
  shows "db_inv env (fold delete_task ts d) \<and> prune_step\<^sup>*\<^sup>* d (fold delete_task ts d)"
  using assms
proof (induction ts arbitrary: d)
  case (Cons t ts)
  from Cons.prems(3) obtain c where c: "map_of (d_completions d) t = Some c" by auto
  have "db_inv env (delete_task t d)" by (rule delete_task_inv [OF Cons.prems(1) c])
  moreover have "\<forall>u \<in> set ts. map_of (d_completions (delete_task t d)) u \<noteq> None"
    using Cons.prems(2,3) by (auto simp: map_of_delete_task)
  ultimately have IH: "db_inv env (fold delete_task ts (delete_task t d)) \<and>
      prune_step\<^sup>*\<^sup>* (delete_task t d) (fold delete_task ts (delete_task t d))"
    using Cons.IH Cons.prems(2) by simp
  with ps_delete [OF c] show ?case
    by (auto intro: converse_rtranclp_into_rtranclp)
qed simp

lemma prune_candidates_completed:
  assumes inv: "db_inv env d"
  shows "distinct (map fst (prune_candidates before limit d))"
    and "\<forall>c \<in> set (prune_candidates before limit d). \<exists>row.
      map_of (d_completions d) (fst c) = Some row \<and> cr_completed_at_ms row < before \<and>
      map_of (d_wakeups d) (fst c) = None \<and> map_of (d_signal_waits d) (fst c) = None"
    and "length (prune_candidates before limit d) \<le> min limit 100"
proof -
  let ?f = "filter (\<lambda>(t, c). cr_completed_at_ms c < before) (d_completions d)"
  let ?s = "sort_key (\<lambda>(t, c). (cr_completed_at_ms c, t)) ?f"
  have dist: "distinct (map fst (d_completions d))"
    using db_invD(7) [OF inv] by (simp add: completions_inv_def)
  then have "distinct (map fst ?f)" by (simp add: distinct_map_filter)
  then have "distinct (map fst ?s)" unfolding distinct_map distinct_sort set_sort .
  then have "distinct (map fst (take (min limit 100) ?s))"
    by (simp add: take_map [symmetric] distinct_take)
  then show "distinct (map fst (prune_candidates before limit d))"
    by (simp add: prune_candidates_def comp_def case_prod_beta)
  show "length (prune_candidates before limit d) \<le> min limit 100"
    unfolding prune_candidates_def length_map length_take by (rule min.cobounded2)
  show "\<forall>c \<in> set (prune_candidates before limit d). \<exists>row.
      map_of (d_completions d) (fst c) = Some row \<and> cr_completed_at_ms row < before \<and>
      map_of (d_wakeups d) (fst c) = None \<and> map_of (d_signal_waits d) (fst c) = None"
  proof
    fix c assume "c \<in> set (prune_candidates before limit d)"
    then obtain row where row: "(fst c, row) \<in> set ?s"
      by (auto simp: prune_candidates_def dest: in_set_takeD simp del: set_sort)
    then have "(fst c, row) \<in> set (d_completions d)" and old: "cr_completed_at_ms row < before" by auto
    then have "map_of (d_completions d) (fst c) = Some row" using dist by simp
    with db_invD(7) [OF inv] old show "\<exists>row. map_of (d_completions d) (fst c) = Some row \<and>
      cr_completed_at_ms row < before \<and>
      map_of (d_wakeups d) (fst c) = None \<and> map_of (d_signal_waits d) (fst c) = None"
      by (auto simp: completions_inv_def completed_ok_def)
  qed
qed

text \<open>Retention removes a prefix of the candidate list, oldest completion first: at least one task
  when there is a candidate, and no more than the byte budget allows after the first.\<close>

lemma prune_completed_cases:
  assumes inv: "db_inv env d" and pr: "prune_completed before limit d = Inr (n, d')"
  obtains (none) "limit = 0" "n = 0" "d' = d"
    | (some) cs where "cs = take n (prune_candidates (uint before) limit d)" "length cs = n"
      "d' = fold delete_task (map fst cs) d" "0 < limit"
      "prune_candidates (uint before) limit d \<noteq> [] \<Longrightarrow> 0 < n"
      "n \<le> 1 \<or> sum_list (map snd cs) \<le> int MAX_HISTORY_BYTES"
proof (cases "limit = 0")
  case True
  then show ?thesis using pr none by (simp add: prune_completed_def)
next
  case False
  let ?cs = "prune_candidates (uint before) limit d"
  have loop: "prune_loop ?cs 0 0 d = (n, d')"
    using pr False by (auto simp: prune_completed_def result_simps)
  obtain k where k: "k \<le> length ?cs" "n = k" "d' = fold delete_task (map fst (take k ?cs)) d"
      "?cs \<noteq> [] \<longrightarrow> 0 < k"
      "k = 0 \<or> k \<le> 1 \<or> sum_list (map snd (take k ?cs)) \<le> int MAX_HISTORY_BYTES"
    using prune_loop_prefix [OF _ loop] prune_candidates_completed(2) [OF inv, of "uint before" limit]
    by auto
  then show ?thesis using False by (intro some [of "take n ?cs"]) auto
qed

lemma prune_completed_runs:
  assumes inv: "db_inv env d" and pr: "prune_completed before limit d = Inr (n, d')"
  shows "db_inv env d' \<and> prune_step\<^sup>*\<^sup>* d d'"
  using inv pr
proof (cases rule: prune_completed_cases)
  case (some cs)
  have sub: "set cs \<subseteq> set (prune_candidates (uint before) limit d)"
    unfolding some(1) by (rule set_take_subset)
  have "distinct (map fst cs)"
    unfolding some(1) using prune_candidates_completed(1) [OF inv]
    by (simp add: take_map [symmetric] distinct_take)
  moreover have "\<forall>t \<in> set (map fst cs). map_of (d_completions d) t \<noteq> None"
    using prune_candidates_completed(2) [OF inv, of "uint before" limit] sub by fastforce
  ultimately show ?thesis unfolding some(3) by (rule fold_delete_task_inv [OF inv])
qed (use inv in simp)

end
