(* ===== verification/Durable_System.thy ===== *)
theory Durable_System
  imports Durable_Refine
begin

text \<open>
  The durable store as a system: the operations as one step relation, the states it can reach, and
  the guarantees that span operations. \<open>store_step\<close> has one rule per operation that can change the
  tables, for any arguments, clock readings and calling executor, so a run is any interleaving of
  transactions of any number of processes. Retention is a step of its own, because it is the only
  one that forgets.
\<close>

subsection \<open>Runs\<close>

text \<open>Operations that leave the signal inbox alone, and then all of them.\<close>

inductive quiet_step :: "'v durable_env \<Rightarrow> db \<Rightarrow> db \<Rightarrow> bool" for env where
  qs_append_json: "append_event_json_at env st clk t n kind key payload at d = Inr (e, d') \<Longrightarrow> quiet_step env d d'"
| qs_append: "append_event_inner env st clk t n' event d = Inr (e, d') \<Longrightarrow> quiet_step env d d'"
| qs_sleep_json: "append_event_json_with_wakeup_at env st clk t n key payload at wake d = Inr (e, d') \<Longrightarrow>
    quiet_step env d d'"
| qs_sleep: "append_event_with_wakeup_inner env st clk t n' event wake d = Inr (e, d') \<Longrightarrow> quiet_step env d d'"
| qs_schedule: "schedule_wakeup w d = Inr (u, d') \<Longrightarrow> quiet_step env d d'"
| qs_claim_due: "claim_due_wakeups at limit owner dur d = Inr (cs, d') \<Longrightarrow> quiet_step env d d'"
| qs_claim: "claim_wakeup t at owner dur d = Inr (c, d') \<Longrightarrow> quiet_step env d d'"
| qs_complete_wakeup: "complete_wakeup st clk t n owner' at d = Inr (b, d') \<Longrightarrow> quiet_step env d d'"
| qs_renew: "renew_wakeup_claim wc at dur d = Inr (c, d') \<Longrightarrow> quiet_step env d d'"
| qs_release: "release_wakeup_claim wc d = Inr (b, d') \<Longrightarrow> quiet_step env d d'"
| qs_put: "put_program_inner env t pk source at d = Inr (p, d') \<Longrightarrow> quiet_step env d d'"
| qs_remove: "remove_program env t d = Inr (p, d') \<Longrightarrow> quiet_step env d d'"
| qs_admit: "admit env t key source input at d = Inr (u, d') \<Longrightarrow> quiet_step env d d'"
| qs_claim_run: "claim_run env entropy clk t owner dur d = Inr (ec, d') \<Longrightarrow> quiet_step env d d'"
| qs_release_run: "release_run clk claim failed d = Inr (u, d') \<Longrightarrow> quiet_step env d d'"
| qs_finish: "finish_task env st clk t n v at lease d = Inr (b, d') \<Longrightarrow> quiet_step env d d'"

inductive_cases quiet_stepE: "quiet_step env d d'"

inductive store_step :: "'v durable_env \<Rightarrow> db \<Rightarrow> db \<Rightarrow> bool" for env where
  ss_quiet: "quiet_step env d d' \<Longrightarrow> store_step env d d'"
| st_send: "send_signal_inner env t name v at key' d = Inr (i, d') \<Longrightarrow> store_step env d d'"
| st_poll: "poll_signal env st clk t n name at wc' d = Inr (e', d') \<Longrightarrow> store_step env d d'"

inductive_cases store_stepE: "store_step env d d'"

lemmas st_append_json = ss_quiet [OF qs_append_json]
lemmas st_append = ss_quiet [OF qs_append]
lemmas st_sleep_json = ss_quiet [OF qs_sleep_json]
lemmas st_sleep = ss_quiet [OF qs_sleep]
lemmas st_schedule = ss_quiet [OF qs_schedule]
lemmas st_claim_due = ss_quiet [OF qs_claim_due]
lemmas st_claim = ss_quiet [OF qs_claim]
lemmas st_complete_wakeup = ss_quiet [OF qs_complete_wakeup]
lemmas st_renew = ss_quiet [OF qs_renew]
lemmas st_release = ss_quiet [OF qs_release]
lemmas st_put = ss_quiet [OF qs_put]
lemmas st_remove = ss_quiet [OF qs_remove]
lemmas st_admit = ss_quiet [OF qs_admit]
lemmas st_claim_run = ss_quiet [OF qs_claim_run]
lemmas st_release_run = ss_quiet [OF qs_release_run]
lemmas st_finish = ss_quiet [OF qs_finish]

inductive store_reachable :: "'v durable_env \<Rightarrow> db \<Rightarrow> bool" for env where
  sr_init: "store_reachable env empty_db"
| sr_step: "store_reachable env d \<Longrightarrow> store_step env d d' \<Longrightarrow> store_reachable env d'"
| sr_prune: "store_reachable env d \<Longrightarrow> prune_completed before limit d = Inr (n, d') \<Longrightarrow>
    store_reachable env d'"

lemmas op_runs = append_event_json_at_runs append_event_inner_runs
  append_event_json_with_wakeup_at_runs append_event_with_wakeup_inner_runs schedule_wakeup_runs
  claim_due_wakeups_runs claim_wakeup_runs complete_wakeup_runs renew_wakeup_claim_runs
  release_wakeup_claim_runs send_signal_inner_runs poll_signal_runs put_program_inner_runs
  remove_program_runs admit_runs claim_run_runs release_run_runs finish_task_runs

definition store_ok :: "'v durable_env \<Rightarrow> db \<Rightarrow> bool" where
  "store_ok env d \<longleftrightarrow> env_ok env \<and> db_inv env d"

lemma store_step_runs: "store_ok env d \<Longrightarrow> store_step env d d' \<Longrightarrow> runs env d d'"
  unfolding store_ok_def by (elim conjE store_stepE quiet_stepE) (rule op_runs; assumption)+

lemma store_step_ok: "store_ok env d \<Longrightarrow> store_step env d d' \<Longrightarrow> store_ok env d'"
  using store_step_runs table_run_inv unfolding store_ok_def by blast

lemma store_run_runs: "(store_step env)\<^sup>*\<^sup>* d d' \<Longrightarrow> store_ok env d \<Longrightarrow> runs env d d' \<and> store_ok env d'"
proof (induction rule: rtranclp_induct)
  case (step y z)
  then show ?case using store_step_runs store_step_ok runs_trans by blast
qed simp

lemma store_reachable_ok: "store_reachable env d \<Longrightarrow> env_ok env \<Longrightarrow> store_ok env d"
proof (induction rule: store_reachable.induct)
  case sr_init
  then show ?case by (simp add: store_ok_def empty_db_inv)
next
  case (sr_step d d')
  then show ?case by (blast intro: store_step_ok)
next
  case (sr_prune d before limit n d')
  then show ?case using prune_completed_runs unfolding store_ok_def by blast
qed

subsection \<open>Execution leases are fenced\<close>

definition honours :: "db \<Rightarrow> TaskId \<Rightarrow> ExecutionClaim \<Rightarrow> int \<Rightarrow> bool" where
  "honours d t claim reading \<longleftrightarrow> guard_execution (execution_store claim) reading t d = Inr ()"

definition claim_generation :: "ExecutionClaim \<Rightarrow> nat" where
  "claim_generation claim = unat (ec_generation claim)"

lemma unat_sql_nat: "sql_nat i \<Longrightarrow> unat (word_of_int i :: u64) = nat i"
  by (metis nat_uint_eq uint_sql_nat)

lemma honours_generation: "honours d t claim r \<Longrightarrow> claim_generation claim = run_generation d t"
  using guard_execution_Some [of claim r t d "()"]
  by (auto simp: honours_def execution_store_def claim_generation_def run_generation_def)

interpretation executions: fenced_lease "store_ok env" "store_step env" run_generation honours claim_generation
  for env :: "'v durable_env"
proof
  show "store_ok env d \<Longrightarrow> store_step env d d' \<Longrightarrow> store_ok env d'" for d d'
    by (rule store_step_ok)
  show "store_ok env d \<Longrightarrow> store_step env d d' \<Longrightarrow> run_generation d t \<le> run_generation d' t" for d d' t
    using store_step_runs table_run_generation by blast
  show "store_ok env d \<Longrightarrow> honours d t claim r \<Longrightarrow> claim_generation claim = run_generation d t" for d t claim r
    by (rule honours_generation)
qed

lemma claim_run_generation:
  assumes ok: "store_ok env d" and run: "claim_run env entropy clk t owner dur d = Inr (Some c, d')"
  shows "ec_task_id c = t \<and> claim_generation c = run_generation d t + 1 \<and>
    run_generation d' t = run_generation d t + 1"
  using run
proof (cases rule: claim_run_cases)
  case (granted token time until generation w later)
  have ex: "executions_inv d" using ok db_invD(8) by (auto simp: store_ok_def)
  note g = next_generation_Inr [OF ex granted(7)]
  have "ec_task_id c = t" using granted(12) by simp
  moreover have "claim_generation c = run_generation d t + 1"
    using granted(12) unat_sql_nat [OF g(2)] g(1) by (simp add: claim_generation_def nat_add_distrib)
  moreover have "d_executions d' = d_executions (upsert_execution t generation token (uint until) d)"
    using granted(9) by (auto simp: grant_run_def Let_def lease_row_def split: option.split_asm)
  then have "run_generation d' t = run_generation d t + 1"
    using g by (auto simp: run_generation_def upsert_execution_def update_conv' split: option.splits)
  ultimately show ?thesis by simp
qed simp

text \<open>An operation scoped to a claim that is not honoured does nothing.\<close>

lemma unhonoured_operations:
  assumes no: "\<And>r. \<not> honours d (ec_task_id claim) claim r"
  shows "append_event_json_at env (execution_store claim) clk t n kind key payload at d \<noteq> Inr x"
    and "append_event_inner env (execution_store claim) clk t n' event d \<noteq> Inr x"
    and "append_event_json_with_wakeup_at env (execution_store claim) clk t n key payload at wake d \<noteq> Inr x"
    and "append_event_with_wakeup_inner env (execution_store claim) clk t n' event wake d \<noteq> Inr x"
    and "poll_signal env (execution_store claim) clk t n name at wc d \<noteq> Inr y"
    and "complete_wakeup (execution_store claim) clk t n owner at d \<noteq> Inr z"
    and "release_run clk claim failed d \<noteq> Inr u"
    and "finish_task env (execution_store claim) clk t n v at lease d = Inr w \<Longrightarrow> snd w = d"
proof -
  have bad: "guard_execution (execution_store claim) r u d \<noteq> Inr ()" for r u
  proof
    assume g: "guard_execution (execution_store claim) r u d = Inr ()"
    then have "u = ec_task_id claim"
      using guard_execution_Some [of claim r u d "()"] by (simp add: execution_store_def)
    with g no show False by (simp add: honours_def)
  qed
  show "append_event_json_at env (execution_store claim) clk t n kind key payload at d \<noteq> Inr x"
    "append_event_inner env (execution_store claim) clk t n' event d \<noteq> Inr x"
    "append_event_json_with_wakeup_at env (execution_store claim) clk t n key payload at wake d \<noteq> Inr x"
    "append_event_with_wakeup_inner env (execution_store claim) clk t n' event wake d \<noteq> Inr x"
    "poll_signal env (execution_store claim) clk t n name at wc d \<noteq> Inr y"
    "complete_wakeup (execution_store claim) clk t n owner at d \<noteq> Inr z"
    using bad
    by (auto simp: append_event_json_at_def append_event_inner_def append_event_json_with_wakeup_at_def
        append_event_with_wakeup_inner_def poll_signal_def complete_wakeup_def rbind_Inr_iff
        split: prod.splits)
  show "release_run clk claim failed d \<noteq> Inr u"
    using bad by (auto simp: release_run_def Let_def rbind_Inr_iff execution_store_def)
  show "finish_task env (execution_store claim) clk t n v at lease d = Inr w \<Longrightarrow> snd w = d"
    using bad by (cases w) (auto elim!: finish_task_cases)
qed

end
