(* ===== verification/Durable_Log.thy ===== *)
theory Durable_Log
  imports Durable_System
begin

text \<open>
  What the durable store promises about its event log, proved for every state that the system of
  \<open>Durable_System\<close> can be in.
\<close>

subsection \<open>A concrete store\<close>

text \<open>A store over a single JSON value, used to instantiate the guarantees.\<close>

definition demo_env :: "unit durable_env" where
  "demo_env = \<lparr>json_to_string = \<lambda>_. Some ''null'', json_from_str = \<lambda>_. Some (),
               sha256 = \<lambda>_. replicate 32 (CHR ''x'')\<rparr>"

abbreviation free_store :: SqliteStore where
  "free_store \<equiv> \<lparr>st_execution = None\<rparr>"

definition demo_row :: event_row where
  "demo_row = \<lparr>er_kind = ''step'', er_key = ''a'', er_payload = ''null'', er_recorded_at_ms = 5\<rparr>"

definition demo_logged :: db where
  "demo_logged = empty_db\<lparr>d_events := [((7, 0), demo_row)], d_history_stats := [(7, (1, 5))]\<rparr>"

definition demo_task_event :: "unit TaskEvent" where
  "demo_task_event = \<lparr>te_task_id = 7, te_sequence = 0, te_kind = EK_Step, te_key = ''a'', te_payload = (),
     te_recorded_at_ms = 5, te_payload_json = ''null''\<rparr>"

lemma demo_env_ok: "env_ok demo_env"
  by (simp add: env_ok_def demo_env_def)

lemma demo_store_ok: "store_ok demo_env empty_db"
  by (simp add: store_ok_def demo_env_ok empty_db_inv)

lemmas event_eval = raw_event_def insert_event_def ensure_open_def usize_checked_add_def
  i64_of_usize_def i64_checked_add_def i64_max_def check_expected_def next_sequence_def events_of_def
  sql_insert_def to_sql_integer_def from_sql_integer_def guard_execution_def stored_event_def
  durable_limits Let_def

lemma demo_append:
  "append_event_json_at demo_env free_store clk 7 0 EK_Step ''a'' ''null'' 5 empty_db
   = Inr (demo_task_event, demo_logged)"
  by (simp add: append_event_json_at_def event_eval demo_env_def empty_db_def demo_logged_def demo_row_def
      demo_task_event_def)

subsection \<open>Guarantees of the log\<close>

text \<open>
  C6. Every state that the store can reach, by any interleaving of its operations and of retention,
  is well formed: it satisfies the invariant of all tables (catalog counters equal to the active
  programs and within their limits, completed tasks without timers or waits, execution rows in
  range, receipts backed by signals), and loading the history of any task succeeds with events
  numbered 0, 1, 2, ... without a gap and within the event limit.
\<close>

theorem store_well_formed:
  assumes "env_ok env" and "store_reachable env d"
  shows "db_inv env d \<and>
    (\<exists>h. load_history env t d = Inr h \<and> h_task_id h = t \<and>
       map te_sequence (h_events h) = map of_nat [0..<length (h_events h)] \<and>
       length (h_events h) \<le> MAX_HISTORY_EVENTS)"
proof -
  have inv: "db_inv env d" using store_reachable_ok [OF assms(2,1)] by (simp add: store_ok_def)
  note h = db_invD(1) [OF inv]
  have "length (log_of env d t) \<le> MAX_HISTORY_EVENTS"
    using history_invD(1) [OF h, of t] by (simp add: rows_ok_def log_of_def)
  then show ?thesis
    using inv load_history_log [OF h] log_of_sequences(1) [OF h] by simp
qed

theorem store_well_formed_witness:
  "store_reachable demo_env demo_logged \<and> db_inv demo_env demo_logged"
proof -
  have "store_reachable demo_env demo_logged"
    using sr_step [OF sr_init st_append_json [OF demo_append]] .
  with store_well_formed [OF demo_env_ok this] show ?thesis by blast
qed

text \<open>
  C23. A committed append extends exactly one history by exactly one event. When
  \<open>append_event_json_at\<close> succeeds, the expected position was the length of the history, the returned
  event carries that position and the given kind, key, time and text, loading the history afterwards
  gives the old one followed by this event, and every other task's history is unchanged.
\<close>

theorem append_extends_history:
  assumes ok: "store_ok env d"
    and app: "append_event_json_at env st clk t n kind key payload at d = Inr (e, d')"
  shows "\<exists>h. load_history env t d = Inr h \<and> n = of_nat (length (h_events h)) \<and>
    te_sequence e = n \<and> te_kind e = kind \<and> te_key e = key \<and> te_recorded_at_ms e = at \<and>
    te_payload_json e = payload \<and> json_from_str env payload = Some (te_payload e) \<and>
    load_history env t d' = Inr (h\<lparr>h_events := h_events h @ [e]\<rparr>) \<and>
    (\<forall>u. u \<noteq> t \<longrightarrow> load_history env u d' = load_history env u d)"
proof -
  have h: "history_inv env d" using ok db_invD(1) by (auto simp: store_ok_def)
  obtain v s where v: "json_from_str env payload = Some v" and at: "uint at \<le> i64_max"
    and ins: "insert_event t (Some n)
        \<lparr>ne_kind = kind, ne_key = key, ne_payload = v, ne_recorded_at_ms = at\<rparr> payload (uint at) d = Inr (s, d')"
    and e: "stored_event t s
        \<lparr>ne_kind = kind, ne_key = key, ne_payload = v, ne_recorded_at_ms = at\<rparr> payload = Inr e"
    using app by (auto simp: append_event_json_at_def result_simps)
  note logs = insert_event_logs [OF h, of t "Some n" "\<lparr>ne_kind = kind, ne_key = key, ne_payload = v,
      ne_recorded_at_ms = at\<rparr>" payload s d' e, simplified, OF ins at v e]
  have "te_kind e = kind \<and> te_key e = key \<and> te_recorded_at_ms e = at \<and> te_payload_json e = payload \<and>
      te_payload e = v"
    using e by (auto simp: stored_event_def result_simps)
  with logs v show ?thesis by (simp add: load_history_log [OF h] load_history_log)
qed

theorem append_extends_history_witness:
  "load_history demo_env 7 demo_logged = Inr \<lparr>h_task_id = 7, h_events = [demo_task_event]\<rparr>"
proof -
  have "load_history demo_env 7 empty_db = Inr \<lparr>h_task_id = 7, h_events = []\<rparr>"
    by (simp add: load_history_def empty_db_def events_of_def)
  with append_extends_history [OF demo_store_ok demo_append] show ?thesis by auto
qed



end
