(* ===== verification/Durable_Leases.thy ===== *)
theory Durable_Leases
  imports Durable_Log
begin

text \<open>
  Leases of the durable store: a leased wakeup belongs to one runner until the lease ends, an
  execution lease to one executor, and an executor whose lease was given to another one is fenced
  off from every operation.
\<close>

subsection \<open>Wakeup leases\<close>

lemma claim_wakeup_Some:
  assumes "claim_wakeup t n owner dur d = Inr (Some c, d')"
  obtains r until where "map_of (d_wakeups d) t = Some r" "wr_wake_at_ms r \<le> uint n"
    "lease_free (wr_lease_until_ms r) (uint n)" "checked_add n (max dur 1) = Some until"
    "uint until \<le> i64_max" "uint n \<le> i64_max" "durable_validate_lease_owner owner = Inr ()"
    "c = \<lparr>wc_task_id = t, wc_sequence = word_of_int (wr_sequence r),
          wc_wake_at_ms = word_of_int (wr_wake_at_ms r), wc_lease_owner = owner, wc_lease_until_ms = until\<rparr>"
    "d' = lease_row t r owner (uint until) d"
  using assms
  by (cases "map_of (d_wakeups d) t")
    (auto simp: claim_wakeup_def wakeup_of_row_def result_simps split: if_split_asm)

lemma map_of_lease_row:
  "map_of (d_wakeups (lease_row t r owner u d)) s =
     (if s = t then Some (r\<lparr>wr_lease_owner := Some owner, wr_lease_until_ms := Some u\<rparr>)
      else map_of (d_wakeups d) s)"
  by (simp add: lease_row_def update_conv')

lemma claim_candidates_tasks:
  "claim_candidates owner until u n cs d = Inr (claims, d') \<Longrightarrow> c \<in> set claims \<Longrightarrow>
     wc_task_id c \<in> fst ` set cs"
proof (induction cs arbitrary: d claims)
  case (Cons x cs)
  obtain t row where x: "x = (t, row)" by (cases x)
  from Cons.prems x show ?case
    by (auto simp: result_simps wakeup_of_row_def split: option.split_asm if_split_asm
        dest: Cons.IH)
qed simp

lemma due_candidates_free:
  assumes "distinct (map fst (d_wakeups d))" and "t \<in> fst ` set (due_candidates n limit d)"
  shows "\<exists>r. map_of (d_wakeups d) t = Some r \<and> wr_wake_at_ms r \<le> n \<and> lease_free (wr_lease_until_ms r) n"
proof -
  from assms(2) obtain r where "(t, r) \<in> set (d_wakeups d)" "wr_wake_at_ms r \<le> n"
    "lease_free (wr_lease_until_ms r) n"
    by (auto simp: due_candidates_def dest!: in_set_takeD)
  with assms(1) show ?thesis by auto
qed

text \<open>
  A leased wakeup belongs to one runner. After \<open>claim_wakeup\<close> grants a lease, at every time
  before its end the claim is active, no runner, not even the same one, is granted the task by
  \<open>claim_wakeup\<close>, and no batch of \<open>claim_due_wakeups\<close> contains it. From its end on, a claim of the
  task is granted again, so a wakeup is not lost with a runner that has crashed, and the old claim is
  then no longer active.
\<close>

theorem wakeup_lease_exclusive:
  assumes ok: "store_ok env d"
    and claim: "claim_wakeup t n owner dur d = Inr (Some c, d')"
    and range: "uint m \<le> i64_max"
  shows "if m < wc_lease_until_ms c
    then claim_is_active c m d' = Inr True \<and>
      (\<forall>owner2 dur2 x d2. claim_wakeup t m owner2 dur2 d' = Inr (x, d2) \<longrightarrow> x = None \<and> d2 = d') \<and>
      (\<forall>limit owner2 dur2 cs d2. claim_due_wakeups m limit owner2 dur2 d' = Inr (cs, d2) \<longrightarrow>
         t \<notin> wc_task_id ` set cs)
    else claim_is_active c m d' = Inr False \<and>
      (\<forall>owner2 dur2. durable_validate_lease_owner owner2 = Inr () \<longrightarrow>
         uint m + uint (max dur2 1) \<le> i64_max \<longrightarrow>
         (\<exists>c2 d2. claim_wakeup t m owner2 dur2 d' = Inr (Some c2, d2) \<and>
            (\<forall>l. uint l \<le> i64_max \<longrightarrow> claim_is_active c l d2 = Inr False)))"
  using claim
proof (cases rule: claim_wakeup_Some)
  case (1 r until)
  have row: "wakeup_ok r" using wakeup_row_ok ok 1(1) by (auto simp: store_ok_def)
  have dist: "distinct (map fst (d_wakeups d'))"
    using 1(9) ok db_invD(2)
    by (auto simp: store_ok_def wakeups_inv_def lease_row_def intro: distinct_update)
  have d': "map_of (d_wakeups d') t = Some (r\<lparr>wr_lease_owner := Some owner, wr_lease_until_ms := Some (uint until)\<rparr>)"
    using 1(9) by (simp add: map_of_lease_row)
  have cols: "claim_columns c = Inr (wr_sequence r, wr_wake_at_ms r, uint until)"
    using row 1(5,8) by (simp add: claim_columns_def to_sql_integer_def wakeup_ok_def) (simp add: sql_nat_def)
  have held: "held_row d' c (wr_sequence r, wr_wake_at_ms r, uint until) \<noteq> None"
    using d' 1(8) by (simp add: held_row_def row_matches_def)
  show ?thesis
  proof (cases "m < until")
    case True
    then have lt: "uint m < uint until" by (simp add: word_less_def)
    have "claim_is_active c m d' = Inr True"
      using cols held range lt by (simp add: claim_is_active_def to_sql_integer_def)
    moreover have "x = None \<and> d2 = d'" if "claim_wakeup t m owner2 dur2 d' = Inr (x, d2)" for owner2 dur2 x d2
      using that d' lt by (auto simp: claim_wakeup_def lease_free_def result_simps)
    moreover have "t \<notin> wc_task_id ` set cs" if "claim_due_wakeups m limit owner2 dur2 d' = Inr (cs, d2)"
      for limit owner2 dur2 cs d2
    proof -
      have "t \<notin> fst ` set (due_candidates (uint m) k d')" for k
        using d' lt due_candidates_free [OF dist, of t "uint m"] by (auto simp: lease_free_def)
      with that show ?thesis
        by (auto simp: claim_due_wakeups_def result_simps split: if_split_asm
            dest!: claim_candidates_tasks)
    qed
    ultimately show ?thesis using True 1(8) by simp
  next
    case False
    then have le: "uint until \<le> uint m" by (simp add: word_less_def not_less)
    have "claim_is_active c m d' = Inr False"
      using cols range le by (simp add: claim_is_active_def to_sql_integer_def)
    moreover have "\<exists>c2 d2. claim_wakeup t m owner2 dur2 d' = Inr (Some c2, d2) \<and>
        (\<forall>l. uint l \<le> i64_max \<longrightarrow> claim_is_active c l d2 = Inr False)"
      if v: "durable_validate_lease_owner owner2 = Inr ()" and b: "uint m + uint (max dur2 1) \<le> i64_max"
      for owner2 dur2
    proof -
      have sum: "unat m + unat (max dur2 1) < 2 ^ 64"
      proof -
        have "int (unat m + unat (max dur2 1)) \<le> 9223372036854775807"
          using b by (simp add: i64_max_def)
        then have "unat m + unat (max dur2 1) \<le> 9223372036854775807" by linarith
        then show ?thesis by simp
      qed
      then have add: "checked_add m (max dur2 1) = Some (m + max dur2 1)"
        by (simp add: checked_add_def)
      have new: "uint (m + max dur2 1) = uint m + uint (max dur2 1)"
        using checked_add_unat [OF add] by (metis of_nat_add uint_nat)
      have pos: "0 < uint (max dur2 1)"
        by (metis max.cobounded2 uint_1 word_le_def zless_add1_eq add.commute int_one_le_iff_zero_less)
      let ?d2 = "lease_row t (r\<lparr>wr_lease_owner := Some owner, wr_lease_until_ms := Some (uint until)\<rparr>)
          owner2 (uint (m + max dur2 1)) d'"
      have "wakeup_of_row t (r\<lparr>wr_lease_owner := Some owner, wr_lease_until_ms := Some (uint until)\<rparr>)
          = Inr \<lparr>wk_task_id = t, wk_sequence = word_of_int (wr_sequence r),
                 wk_wake_at_ms = word_of_int (wr_wake_at_ms r)\<rparr>"
        using row by (simp add: wakeup_of_row_def from_sql_integer_def wakeup_ok_def sql_nat_def)
      moreover have "wr_wake_at_ms r \<le> uint m"
        using 1(2) le checked_add_le [OF 1(4)] by (simp add: word_le_def)
      ultimately have "claim_wakeup t m owner2 dur2 d' = Inr (Some
          \<lparr>wc_task_id = t, wc_sequence = word_of_int (wr_sequence r),
           wc_wake_at_ms = word_of_int (wr_wake_at_ms r), wc_lease_owner = owner2,
           wc_lease_until_ms = m + max dur2 1\<rparr>, ?d2)"
        using v add d' le range new b
        by (simp add: claim_wakeup_def lease_free_def to_sql_integer_def)
      moreover have "held_row ?d2 c (wr_sequence r, wr_wake_at_ms r, uint until) = None"
        using 1(8) new pos le by (simp add: held_row_def map_of_lease_row row_matches_def)
      ultimately show ?thesis
        using cols by (auto simp: claim_is_active_def to_sql_integer_def)
    qed
    ultimately show ?thesis using False 1(8) by simp
  qed
qed

definition demo_wakeup_row :: wakeup_row where
  "demo_wakeup_row = \<lparr>wr_sequence = 0, wr_wake_at_ms = 10, wr_lease_owner = None, wr_lease_until_ms = None\<rparr>"

definition demo_timer :: db where
  "demo_timer = empty_db\<lparr>d_wakeups := [(7, demo_wakeup_row)]\<rparr>"

lemma demo_timer_step: "store_ok demo_env demo_timer"
proof (rule store_step_ok [OF demo_store_ok])
  show "store_step demo_env empty_db demo_timer"
    by (rule st_schedule [of "\<lparr>wk_task_id = 7, wk_sequence = 0, wk_wake_at_ms = 10\<rparr>"])
      (simp add: schedule_wakeup_def ensure_open_def to_sql_integer_def i64_max_def empty_db_def
        upsert_wakeup_def demo_timer_def demo_wakeup_row_def)
qed

theorem wakeup_lease_exclusive_witness:
  "\<exists>c d'. claim_wakeup 7 12 ''runner'' 5 demo_timer = Inr (Some c, d') \<and>
     wc_lease_until_ms c = 17 \<and> claim_is_active c 16 d' = Inr True \<and> claim_is_active c 17 d' = Inr False"
proof -
  let ?c = "\<lparr>wc_task_id = 7, wc_sequence = 0, wc_wake_at_ms = 10, wc_lease_owner = ''runner'',
             wc_lease_until_ms = 17\<rparr>"
  have claim: "claim_wakeup 7 12 ''runner'' 5 demo_timer =
      Inr (Some ?c, lease_row 7 demo_wakeup_row ''runner'' 17 demo_timer)"
    by (simp add: claim_wakeup_def durable_validate_lease_owner_def durable_limits to_sql_integer_def
        i64_max_def checked_add_def max_def demo_timer_def empty_db_def demo_wakeup_row_def lease_free_def
        wakeup_of_row_def from_sql_integer_def word_le_def)
  have "uint (16 :: u64) \<le> i64_max" "uint (17 :: u64) \<le> i64_max" by (simp_all add: i64_max_def)
  from wakeup_lease_exclusive [OF demo_timer_step claim this(1)]
    wakeup_lease_exclusive [OF demo_timer_step claim this(2)]
  have "claim_is_active ?c 16 (lease_row 7 demo_wakeup_row ''runner'' 17 demo_timer) = Inr True"
    "claim_is_active ?c 17 (lease_row 7 demo_wakeup_row ''runner'' 17 demo_timer) = Inr False"
    by (simp_all del: split_paired_All)
  with claim show ?thesis by auto
qed

subsection \<open>Execution leases\<close>

lemma claim_run_row:
  assumes "claim_run env entropy clk t owner dur d = Inr (Some c, d')"
  shows "\<exists>r. map_of (d_executions d') t = Some r \<and>
    xr_lease_until_ms r = Some (uint (ec_lease_until_ms c)) \<and> uint (ec_lease_until_ms c) \<le> i64_max"
  using assms
proof (cases rule: claim_run_cases)
  case (granted token time until generation w later)
  have "d_executions d' = d_executions (upsert_execution t generation token (uint until) d)"
    using granted(9) by (auto simp: grant_run_def Let_def lease_row_def split: option.split_asm)
  with granted(8,12) show ?thesis
    by (auto simp: upsert_execution_def update_conv' split: option.splits)
qed simp

text \<open>A registered program, and the same with an execution lease.\<close>

definition demo_program_row :: program_row where
  "demo_program_row = \<lparr>pr_program_kind = ''module'', pr_source = ''x'',
     pr_source_sha256 = sha256 demo_env ''x'', pr_registered_at_ms = 5\<rparr>"

definition demo_runnable :: db where
  "demo_runnable = empty_db\<lparr>d_programs := [(7, demo_program_row)], d_program_stats := (1, 1)\<rparr>"

definition demo_token :: string where
  "demo_token = hex_encode (replicate 32 (CHR ''x''))"

definition demo_running :: "int \<Rightarrow> int \<Rightarrow> db" where
  "demo_running g u = demo_runnable\<lparr>d_executions := [(7,
     \<lparr>xr_state = ES_running, xr_generation = g, xr_owner = Some demo_token, xr_lease_until_ms = Some u,
      xr_admission_key = None, xr_request_hash = None\<rparr>)]\<rparr>"

definition demo_lease :: "u64 \<Rightarrow> u64 \<Rightarrow> ExecutionClaim" where
  "demo_lease g u = \<lparr>ec_task_id = 7, ec_owner = demo_token, ec_generation = g, ec_lease_until_ms = u,
     ec_wakeup = None\<rparr>"

lemma demo_runnable_ok: "store_ok demo_env demo_runnable"
proof (rule store_step_ok [OF demo_store_ok])
  show "store_step demo_env empty_db demo_runnable"
    by (rule st_put [of demo_env 7 PK_Module "''x''" 5])
      (simp add: put_program_inner_def validate_program_source_def to_sql_integer_def ensure_open_def
        select_program_def i64_of_usize_def i64_checked_add_def i64_max_def sql_insert_def durable_limits
        empty_db_def demo_runnable_def demo_program_row_def Let_def)
qed

lemmas run_eval = claim_run_def owner_token_def durable_validate_lease_owner_def durable_limits now_def
  lease_deadline_def checked_add_def run_blocked_def next_generation_def i64_checked_add_def
  to_sql_integer_def i64_max_def grant_run_def upsert_execution_def demo_lease_def demo_running_def
  demo_runnable_def empty_db_def word_less_nat_alt word_le_nat_alt Let_def

lemma demo_token_eq: "hex_encode (sha256 demo_env s) = demo_token"
  by (simp add: demo_token_def demo_env_def)

lemma demo_first_claim:
  "claim_run demo_env (Some ''r'') (\<lambda>_. 10) 7 ''w'' 5 demo_runnable =
     Inr (Some (demo_lease 1 15), demo_running 1 15)"
  by (simp add: run_eval demo_token_eq)

lemma demo_second_claim:
  "claim_run demo_env (Some ''r'') (\<lambda>_. 15) 7 ''v'' 5 (demo_running 1 15) =
     Inr (Some (demo_lease 2 20), demo_running 2 20)"
  by (simp add: run_eval demo_token_eq)

text \<open>
  C25. One executor at a time. After \<open>claim_execution\<close> grants an execution lease on a task, every
  further claim whose clock reads a time before the end of the lease is refused and changes nothing,
  whoever makes it.
\<close>

theorem execution_lease_exclusive:
  assumes claim: "claim_run env entropy clk t owner dur d = Inr (Some c, d')"
    and early: "0 \<le> clk2 0" "clk2 0 < uint (ec_lease_until_ms c)"
    and second: "claim_run env entropy2 clk2 t owner2 dur2 d' = Inr (res, d2)"
  shows "res = None \<and> d2 = d'"
  using second
proof (cases rule: claim_run_cases)
  case (granted token time until generation w later)
  obtain r where r: "map_of (d_executions d') t = Some r"
      "xr_lease_until_ms r = Some (uint (ec_lease_until_ms c))" "uint (ec_lease_until_ms c) \<le> i64_max"
    using claim_run_row [OF claim] by blast
  have "clk2 0 < 2 ^ 63" using early(2) r(3) by (simp add: i64_max_def)
  moreover have "time = word_of_int (clk2 0)"
    using granted(4) early(1) by (auto simp: now_def split: if_split_asm)
  ultimately have "sint time = clk2 0"
    using early(1) by (simp add: sint_sbintrunc' signed_take_bit_int_eq_self)
  then have "run_blocked t time d'" using r early(2) by (simp add: run_blocked_def)
  with granted(6) show ?thesis by simp
qed simp

theorem execution_lease_exclusive_witness:
  "claim_run demo_env (Some ''r'') (\<lambda>_. 14) 7 ''v'' 5 (demo_running 1 15) = Inr (None, demo_running 1 15)"
proof -
  have "claim_run demo_env (Some ''r'') (\<lambda>_. 14) 7 ''v'' 5 (demo_running 1 15) = Inr (None, demo_running 1 15)"
    by (simp add: run_eval)
  from execution_lease_exclusive [OF demo_first_claim _ _ this] this show ?thesis
    by (simp add: demo_lease_def)
qed



end
