(* ===== verification/Durable_Outcomes.thy ===== *)
theory Durable_Outcomes
  imports Durable_Leases
begin

text \<open>
  Requests that may be repeated, and outcomes that stay: admission and signals with an idempotency
  key, completion of a task, and retention.
\<close>

subsection \<open>Admission\<close>

lemma admit_admission:
  assumes "admit env t key source input time d = Inr (u, d')"
  shows "\<exists>hash inp. fingerprint env source input = Inr (hash, inp) \<and> validate_key key = Inr () \<and>
    admission_of d' t = Some (Some key, Some hash)"
proof -
  have key: "validate_key key = Inr ()" using assms by (auto simp: admit_def result_simps)
  show ?thesis
    using assms
    by (cases rule: admit_cases) (auto simp: admission_of_def key)
qed

lemma admit_again:
  assumes "admission_of d t = Some (Some key, Some hash)"
  shows "admit env t key2 source2 input2 time2 d =
    rbind (validate_key key2) (\<lambda>_. rbind (fingerprint env source2 input2) (\<lambda>(h, _).
      if key2 = key \<and> h = hash then Inr ((), d) else Inl DE_AdmissionConflict))"
  using assms
  by (auto simp: admit_def admission_of_def intro!: rbind_cong split: option.splits)

text \<open>
  C26. Admission is idempotent. After a task has been admitted, in every later state the same
  request, sent again at any time, is acknowledged and changes nothing; and any other request on the
  task that is accepted has the same key and the same fingerprint of source and input, and changes
  nothing either. A different program or input under the same key is a conflict.
\<close>

theorem admission_idempotent:
  assumes ok: "store_ok env d"
    and adm: "admit env t key source input time d = Inr ((), d1)"
    and later: "(store_step env)\<^sup>*\<^sup>* d1 d2"
  shows "admit env t key source input time2 d2 = Inr ((), d2) \<and>
    (case admit env t key2 source2 input2 time2 d2 of
       Inr (_, d3) \<Rightarrow> d3 = d2 \<and> key2 = key \<and>
         (\<exists>hash inp inp2. fingerprint env source input = Inr (hash, inp) \<and>
            fingerprint env source2 input2 = Inr (hash, inp2))
     | Inl e \<Rightarrow> True)"
proof -
  obtain hash inp where h: "fingerprint env source input = Inr (hash, inp)" "validate_key key = Inr ()"
      "admission_of d1 t = Some (Some key, Some hash)"
    using admit_admission [OF adm] by blast
  have "store_ok env d1" by (rule store_step_ok [OF ok st_admit [OF adm]])
  then have "runs env d1 d2" using store_run_runs [OF later] by blast
  then have a2: "admission_of d2 t = Some (Some key, Some hash)"
    using h(3) by (rule table_run_admission)
  show ?thesis
    unfolding admit_again [OF a2]
    using h by (auto simp: result_simps split: sum.splits)
qed

theorem admission_idempotent_witness:
  "\<exists>d1. admit demo_env 7 ''k'' ''x'' ''null'' 5 empty_db = Inr ((), d1) \<and>
     admit demo_env 7 ''k'' ''x'' ''null'' 9 d1 = Inr ((), d1)"
proof -
  obtain d1 where d1: "admit demo_env 7 ''k'' ''x'' ''null'' 5 empty_db = Inr ((), d1)"
    by (simp add: admit_def validate_key_def fingerprint_def validate_program_source_def select_program_def
        event_eval demo_env_def empty_db_def)
  from admission_idempotent [OF demo_store_ok d1 rtranclp.rtrancl_refl, of 9] d1 show ?thesis by blast
qed

subsection \<open>Signals with a key\<close>

lemma signal_receipt_Some:
  assumes "signal_receipt env t name p k d = Inr (Some i)"
  shows "\<exists>r. map_of (d_receipts d) (t, k) = Some r \<and> rr_signal_name r = name \<and>
    rr_payload r = hex_encode (sha256 env p) \<and> from_sql_integer (rr_signal_id r) ''signal_id'' = Inr i"
  using assms by (auto simp: signal_receipt_def result_simps split: option.split_asm if_split_asm)

lemma send_once_receipt:
  assumes "send_signal_inner env t name v sent (Some k) d = Inr (i, d')"
  shows "\<exists>p r. json_to_string env v = Some p \<and> length p \<le> MAX_EVENT_PAYLOAD_BYTES \<and>
    validate_signal_name name = Inr () \<and> validate_key k = Inr () \<and>
    map_of (d_receipts d') (t, k) = Some r \<and> rr_signal_name r = name \<and>
    rr_payload r = hex_encode (sha256 env p) \<and> from_sql_integer (rr_signal_id r) ''signal_id'' = Inr i"
proof -
  have valid: "validate_signal_name name = Inr ()"
    using assms by (auto simp: send_signal_inner_def rbind_Inr_iff)
  have size: "length p \<le> MAX_EVENT_PAYLOAD_BYTES" if "json_to_string env v = Some p" for p
    using assms that by (auto simp: send_signal_inner_def rbind_Inr_iff split: if_split_asm)
  have key: "validate_key k = Inr ()" if "json_to_string env v = Some p"
    "signal_receipt env t name p k d = Inr x" for p x
    using that by (auto simp: signal_receipt_def rbind_Inr_iff)
  show ?thesis
    using assms
  proof (cases rule: send_signal_inner_cases)
    case (receipt k' p)
    then show ?thesis using valid size key signal_receipt_Some [of env t name p k d i] by auto
  next
    case (queued p)
    from queued(3) have rec: "signal_receipt env t name p k d = Inr None" by simp
    note I = insert_signal_Inr [OF queued(4)]
    have "from_sql_integer (d_inbox_seq d + 1) ''signal_id'' = Inr i"
      using queued(4) by (auto simp: insert_signal_def Let_def rbind_Inr_iff split: if_split_asm)
    then show ?thesis
      using I(5) valid size [OF queued(1)] key [OF queued(1) rec] queued(1)
      by (auto simp: store_receipt_def result_simps)
  qed
qed

text \<open>
  C27. A signal with an idempotency key is sent once. After \<open>send_signal_once\<close> has succeeded, in every
  later state the same request is answered with the same signal id and changes nothing, so the signal
  is not queued again; and whatever request is accepted under that key for the task has the same
  signal name, gets the same id and changes nothing.
\<close>

theorem signal_sent_once:
  assumes ok: "store_ok env d"
    and send: "send_signal_once env t name v key at d = Inr (i, d1)"
    and later: "(store_step env)\<^sup>*\<^sup>* d1 d2"
    and time: "uint at2 \<le> i64_max"
  shows "send_signal_once env t name v key at2 d2 = Inr (i, d2) \<and>
    (\<forall>name2 v2 j d3. send_signal_once env t name2 v2 key at2 d2 = Inr (j, d3) \<longrightarrow>
       j = i \<and> d3 = d2 \<and> name2 = name)"
proof -
  note send' = send [unfolded send_signal_once_def]
  obtain p r where pr: "json_to_string env v = Some p" "length p \<le> MAX_EVENT_PAYLOAD_BYTES"
      "validate_signal_name name = Inr ()" "validate_key key = Inr ()"
      "map_of (d_receipts d1) (t, key) = Some r" "rr_signal_name r = name"
      "rr_payload r = hex_encode (sha256 env p)" "from_sql_integer (rr_signal_id r) ''signal_id'' = Inr i"
    using send_once_receipt [OF send'] by blast
  have "store_ok env d1" by (rule store_step_ok [OF ok st_send [OF send']])
  then have "runs env d1 d2" using store_run_runs [OF later] by blast
  then have r2: "map_of (d_receipts d2) (t, key) = Some r" using pr(5) by (rule table_run_receipts)
  have "signal_receipt env t name p key d2 = Inr (Some i)"
    using r2 pr by (simp add: signal_receipt_def)
  then have "send_signal_once env t name v key at2 d2 = Inr (i, d2)"
    using pr time by (simp add: send_signal_once_def send_signal_inner_def to_sql_integer_def)
  moreover have "j = i \<and> d3 = d2 \<and> name2 = name"
    if "send_signal_once env t name2 v2 key at2 d2 = Inr (j, d3)" for name2 v2 j d3
    using that [unfolded send_signal_once_def]
  proof (cases rule: send_signal_inner_cases)
    case (receipt k p2)
    then show ?thesis using signal_receipt_Some [of env t name2 p2 key d2 j] r2 pr(6,8) by auto
  next
    case (queued p2)
    then have "signal_receipt env t name2 p2 key d2 = Inr None" by simp
    then show ?thesis using r2 by (auto simp: signal_receipt_def result_simps split: if_split_asm)
  qed
  ultimately show ?thesis by blast
qed

theorem signal_sent_once_witness:
  "\<exists>d1. send_signal_once demo_env 7 ''go'' () ''k'' 5 demo_runnable = Inr (1, d1) \<and>
     send_signal_once demo_env 7 ''go'' () ''k'' 6 d1 = Inr (1, d1)"
proof -
  obtain d1 where d1: "send_signal_once demo_env 7 ''go'' () ''k'' 5 demo_runnable = Inr (1, d1)"
    by (simp add: send_signal_once_def send_signal_inner_def validate_signal_name_def signal_receipt_def
        validate_key_def insert_signal_def store_receipt_def wake_waiter_def queue_signal_def inbox_of_def
        event_eval demo_env_def demo_runnable_def empty_db_def)
  have "uint (6 :: u64) \<le> i64_max" by (simp add: i64_max_def)
  from signal_sent_once [OF demo_runnable_ok d1 rtranclp.rtrancl_refl this] d1 show ?thesis by blast
qed

subsection \<open>Completion\<close>

lemma finish_task_stored:
  assumes ok: "store_ok env d"
    and fin: "finish_task env st clk t n v at lease d = Inr (True, d')"
  shows "\<exists>c. map_of (d_completions d') t = Some c \<and> cr_next_sequence c = uint n \<and>
    json_from_str env (cr_result_json c) = Some v \<and>
    (\<exists>json. json_to_string env v = Some json \<and> length json \<le> MAX_EVENT_PAYLOAD_BYTES)"
proof -
  obtain json where json: "json_to_string env v = Some json" "length json \<le> MAX_EVENT_PAYLOAD_BYTES"
    using fin by (auto simp: finish_task_def result_simps split: if_split_asm)
  show ?thesis
    using fin
  proof (cases rule: finish_task_cases)
    case (already c)
    then show ?thesis using json by auto
  next
    case (finished p json' time)
    have rows: "rows_ok env t (events_of d t)"
      using ok history_invD(1) [OF db_invD(1)] unfolding store_ok_def by blast
    then have "next_sequence d t = int (length (events_of d t))" by (rule next_sequence_length)
    then have "sql_nat (next_sequence d t)" using rows by (simp add: rows_ok_def)
    then have "uint n = next_sequence d t" unfolding finished(8) by (rule uint_sql_nat)
    then show ?thesis
      using finished json ok env_okD(2) [of env v json'] by (auto simp: store_ok_def)
  qed simp
qed

lemma completed_refuses:
  assumes "map_of (d_completions d) t = Some c"
  shows "append_event_json_at env st clk t n kind key payload at d \<noteq> Inr x"
    and "append_event_json_with_wakeup_at env st clk t n key payload at wake d \<noteq> Inr x"
    and "poll_signal env st clk t n name at wc d \<noteq> Inr y"
    and "claim_run env entropy clk t owner dur d = Inr (res, d') \<Longrightarrow> res = None \<and> d' = d"
  using assms
  by (auto simp: append_event_json_at_def append_event_json_with_wakeup_at_def insert_event_def
      poll_signal_def claim_run_def ensure_open_def rbind_Inr_iff split: if_split_asm)

lemma finish_completed:
  assumes "map_of (d_completions d) t = Some c"
    and "finish_task env st clk t n v at lease d = Inr (b, d')"
  shows "b \<and> d' = d \<and> uint n = cr_next_sequence c \<and> json_from_str env (cr_result_json c) = Some v"
  using assms(2) by (cases rule: finish_task_cases) (use assms(1) in auto)



subsection \<open>Retention\<close>

lemma delete_task_other:
  assumes "u \<noteq> t"
  shows "completion env u (delete_task t d) = completion env u d"
    and "program env u (delete_task t d) = program env u d"
    and "admission_of (delete_task t d) u = admission_of d u"
    and "log_of env (delete_task t d) u = log_of env d u"
    and "inbox_of (delete_task t d) u = inbox_of d u"
  using assms
  by (simp_all add: completion_def program_def select_program_def admission_of_def log_of_def
      map_of_delete_task events_of_delete_task inbox_of_delete_task)

lemma fold_delete_task_other:
  assumes "u \<notin> set ts"
  shows "completion env u (fold delete_task ts d) = completion env u d \<and>
    program env u (fold delete_task ts d) = program env u d \<and>
    admission_of (fold delete_task ts d) u = admission_of d u \<and>
    log_of env (fold delete_task ts d) u = log_of env d u \<and>
    inbox_of (fold delete_task ts d) u = inbox_of d u"
  using assms by (induction ts arbitrary: d) (auto simp: delete_task_other)

lemma fold_delete_task_frame:
  "d_wakeups (fold delete_task ts d) = d_wakeups d"
  "d_signal_waits (fold delete_task ts d) = d_signal_waits d"
  by (induction ts arbitrary: d) simp_all

lemma fold_delete_task_gone:
  "u \<in> set ts \<Longrightarrow> completion env u (fold delete_task ts d) = Inr None \<and>
     log_of env (fold delete_task ts d) u = []"
proof (induction ts rule: rev_induct)
  case (snoc t ts)
  then show ?case
    by (cases "u = t")
      (auto simp: delete_task_other completion_def map_of_delete_task log_of_def events_of_delete_task)
qed simp

lemma prune_candidates_nonempty:
  assumes "map_of (d_completions d) t = Some c" and "cr_completed_at_ms c < before" and "0 < limit"
  shows "prune_candidates before limit d \<noteq> []"
proof -
  have "(t, c) \<in> set (filter (\<lambda>(t, c). cr_completed_at_ms c < before) (d_completions d))"
    using assms(1,2) by (auto dest: map_of_SomeD)
  then have "0 < length (filter (\<lambda>(t, c). cr_completed_at_ms c < before) (d_completions d))"
    by (rule length_pos_if_in_set)
  moreover have "length (prune_candidates before limit d) =
      min (length (filter (\<lambda>(t, c). cr_completed_at_ms c < before) (d_completions d))) (min limit 100)"
    by (simp add: prune_candidates_def)
  ultimately have "0 < length (prune_candidates before limit d)" using assms(3) by linarith
  then show ?thesis by auto
qed

text \<open>
  C28. Retention forgets only what is finished and old. A call of \<open>prune_completed\<close> removes a list of
  distinct tasks, at most the given limit and at most 100, each of which had completed before the
  cutoff; their completions and histories are gone. Every other task keeps its history, completion,
  program, admission, pending signals, timers and waits. Whenever some task qualifies, at least one is
  removed, so repeated calls make progress.
\<close>

theorem prune_only_old_completed:
  assumes ok: "store_ok env d" and pr: "prune_completed before limit d = Inr (n, d')"
  shows "\<exists>ts. distinct ts \<and> length ts = n \<and> n \<le> min limit 100 \<and>
    (\<forall>t \<in> set ts. (\<exists>c. map_of (d_completions d) t = Some c \<and> cr_completed_at_ms c < uint before) \<and>
       completion env t d' = Inr None \<and> log_of env d' t = []) \<and>
    (\<forall>u. u \<notin> set ts \<longrightarrow> completion env u d' = completion env u d \<and> program env u d' = program env u d \<and>
       admission_of d' u = admission_of d u \<and> log_of env d' u = log_of env d u \<and>
       inbox_of d' u = inbox_of d u) \<and>
    d_wakeups d' = d_wakeups d \<and> d_signal_waits d' = d_signal_waits d \<and>
    (0 < limit \<and> (\<exists>t c. map_of (d_completions d) t = Some c \<and> cr_completed_at_ms c < uint before)
       \<longrightarrow> 0 < n)"
proof -
  have inv: "db_inv env d" using ok by (simp add: store_ok_def)
  show ?thesis
    using inv pr
  proof (cases rule: prune_completed_cases)
    case none
    then show ?thesis by (intro exI [of _ "[]"]) auto
  next
    case (some cs)
    note cand = prune_candidates_completed [OF inv, of "uint before" limit]
    have sub: "set cs \<subseteq> set (prune_candidates (uint before) limit d)"
      unfolding some(1) by (rule set_take_subset)
    have "distinct (map fst cs)"
      unfolding some(1) using cand(1) by (simp add: take_map [symmetric] distinct_take)
    moreover have "n \<le> min limit 100"
    proof -
      have "length (take n (prune_candidates (uint before) limit d)) = n" using some(1,2) by simp
      then have "n \<le> length (prune_candidates (uint before) limit d)" unfolding length_take by linarith
      then show ?thesis using cand(3) by linarith
    qed
    moreover have "\<exists>c. map_of (d_completions d) t = Some c \<and> cr_completed_at_ms c < uint before"
      if "t \<in> set (map fst cs)" for t
      using cand(2) sub that by fastforce
    moreover have "0 < n" if "\<exists>t c. map_of (d_completions d) t = Some c \<and> cr_completed_at_ms c < uint before"
      using some(4,5) that prune_candidates_nonempty by blast
    ultimately show ?thesis
      using fold_delete_task_gone [of _ "map fst cs" env d] fold_delete_task_frame [of "map fst cs" d]
        fold_delete_task_other [of _ "map fst cs" env d]
      by (intro exI [of _ "map fst cs"] conjI ballI allI impI)
        (simp_all add: some(3) some(2) del: set_map)
  qed
qed

definition demo_completed :: db where
  "demo_completed = demo_runnable\<lparr>d_completions := [(7, \<lparr>cr_next_sequence = 0, cr_result_json = ''null'',
     cr_completed_at_ms = 6\<rparr>)], d_program_stats := (0, 0)\<rparr>"

lemma demo_completed_ok: "store_ok demo_env demo_completed"
proof (rule store_step_ok [OF demo_runnable_ok])
  show "store_step demo_env demo_runnable demo_completed"
    by (rule st_finish [of demo_env free_store "\<lambda>_. 9" 7 0 "()" 6 None])
      (simp add: finish_task_def completion_time_def decrement_stats_def end_execution_def event_eval
        demo_env_def demo_completed_def demo_runnable_def demo_program_row_def empty_db_def)
qed

theorem prune_only_old_completed_witness:
  "\<exists>d'. prune_completed 7 5 demo_completed = Inr (1, d') \<and> completion demo_env 7 d' = Inr None"
proof -
  obtain d' where d': "prune_completed 7 5 demo_completed = Inr (1, d')"
    by (simp add: prune_completed_def prune_candidates_def to_sql_integer_def i64_max_def
        demo_completed_def demo_runnable_def empty_db_def)
  from prune_only_old_completed [OF demo_completed_ok d']
  obtain ts where ts: "length ts = 1"
      "\<forall>t \<in> set ts. (\<exists>c. map_of (d_completions demo_completed) t = Some c) \<and> completion demo_env t d' = Inr None"
    by fastforce
  then obtain t where "ts = [t]" by (metis One_nat_def length_0_conv length_Suc_conv)
  with ts(2) have "t = 7" and "completion demo_env t d' = Inr None"
    by (auto simp: demo_completed_def split: if_split_asm)
  with d' show ?thesis by blast
qed

end
