(* ===== verification/Durable_Mailbox.thy ===== *)
theory Durable_Mailbox
  imports Durable_Outcomes
begin

text \<open>
  Signals as mailboxes. For the tasks and the signal names, the inbox table is a family of queues:
  sending appends, polling takes the first element and turns it into an event of the task's history,
  and nothing else touches them. The contract is stated for any such provider in the locale
  \<open>mailboxes\<close>, with its consequence for runs of any length, and interpreted on the store.
\<close>

subsection \<open>The contract\<close>

datatype ('k, 'm) mail = Sent 'k 'm | Received 'k 'm

definition sent_to :: "'k \<Rightarrow> ('k, 'm) mail list \<Rightarrow> 'm list" where
  "sent_to k es = concat (map (\<lambda>e. case e of Sent j m \<Rightarrow> if j = k then [m] else [] | _ \<Rightarrow> []) es)"

definition received_from :: "'k \<Rightarrow> ('k, 'm) mail list \<Rightarrow> 'm list" where
  "received_from k es = concat (map (\<lambda>e. case e of Received j m \<Rightarrow> if j = k then [m] else [] | _ \<Rightarrow> []) es)"

lemma mail_simps [simp]:
  "sent_to k [] = []" "received_from k [] = []"
  "sent_to k (es @ fs) = sent_to k es @ sent_to k fs"
  "received_from k (es @ fs) = received_from k es @ received_from k fs"
  "sent_to k [Sent j m] = (if j = k then [m] else [])" "sent_to k [Received j m] = []"
  "received_from k [Received j m] = (if j = k then [m] else [])" "received_from k [Sent j m] = []"
  by (simp_all add: sent_to_def received_from_def)

inductive trace :: "('s \<Rightarrow> 'l list \<Rightarrow> 's \<Rightarrow> bool) \<Rightarrow> 's \<Rightarrow> 'l list \<Rightarrow> 's \<Rightarrow> bool" for step where
  trace_nil: "trace step s [] s"
| trace_snoc: "trace step s es s' \<Longrightarrow> step s' fs s'' \<Longrightarrow> trace step s (es @ fs) s''"

locale mailboxes =
  fixes valid :: "'s \<Rightarrow> bool"
    and step :: "'s \<Rightarrow> ('k, 'm) mail list \<Rightarrow> 's \<Rightarrow> bool"
    and contents :: "'s \<Rightarrow> 'k \<Rightarrow> 'm list"
    and capacity :: nat
  assumes valid_step: "valid s \<Longrightarrow> step s es s' \<Longrightarrow> valid s'"
    and one_event: "valid s \<Longrightarrow> step s es s' \<Longrightarrow> es = [] \<or> (\<exists>e. es = [e])"
    and quiet: "valid s \<Longrightarrow> step s [] s' \<Longrightarrow> contents s' k = contents s k"
    and send: "valid s \<Longrightarrow> step s [Sent j m] s' \<Longrightarrow>
      contents s' k = (if k = j then contents s k @ [m] else contents s k)"
    and receive: "valid s \<Longrightarrow> step s [Received j m] s' \<Longrightarrow>
      contents s k = (if k = j then m # contents s' k else contents s' k)"
    and bounded: "valid s \<Longrightarrow> length (contents s k) \<le> capacity"
begin

lemma trace_valid: "trace step s es s' \<Longrightarrow> valid s \<Longrightarrow> valid s'"
  by (induction rule: trace.induct) (auto intro: valid_step)

lemma step_balance:
  assumes "valid s" and "step s es s'"
  shows "contents s k @ sent_to k es = received_from k es @ contents s' k"
proof -
  consider "es = []" | j m where "es = [Sent j m]" | j m where "es = [Received j m]"
    using one_event [OF assms] by (metis mail.exhaust)
  then show ?thesis
  proof cases
    case 1
    then show ?thesis using quiet [of s s' k] assms by simp
  next
    case (2 j m)
    then show ?thesis using send [of s j m s' k] assms by simp
  next
    case (3 j m)
    then show ?thesis using receive [of s j m s' k] assms by simp
  qed
qed

theorem trace_balance:
  "trace step s es s' \<Longrightarrow> valid s \<Longrightarrow> contents s k @ sent_to k es = received_from k es @ contents s' k"
proof (induction rule: trace.induct)
  case (trace_snoc s es s' fs s'')
  then have "contents s' k @ sent_to k fs = received_from k fs @ contents s'' k"
    by (blast intro: step_balance trace_valid)
  with trace_snoc show ?case by (metis append.assoc mail_simps(3,4))
qed simp

theorem in_order_exactly_once:
  assumes "trace step s es s'" and "valid s" and "contents s k = []"
  shows "\<exists>pending. sent_to k es = received_from k es @ pending \<and> pending = contents s' k \<and>
    length pending \<le> capacity"
  using trace_balance [OF assms(1,2), of k] assms(3) bounded [OF trace_valid [OF assms(1,2)]] by simp

end

subsection \<open>The inbox of the store\<close>

definition mailbox :: "db \<Rightarrow> TaskId \<times> string \<Rightarrow> string list" where
  "mailbox d k = map (sr_payload \<circ> snd) (filter (\<lambda>(i, r). sr_signal_name r = snd k) (inbox_of d (fst k)))"

text \<open>A keyed request whose receipt is stored is answered from it and queues nothing.\<close>

definition answered :: "db \<Rightarrow> TaskId \<Rightarrow> string option \<Rightarrow> bool" where
  "answered d t key \<longleftrightarrow> (case key of None \<Rightarrow> False | Some k \<Rightarrow> map_of (d_receipts d) (t, k) \<noteq> None)"

inductive mail_step :: "'v durable_env \<Rightarrow> db \<Rightarrow> (TaskId \<times> string, string) mail list \<Rightarrow> db \<Rightarrow> bool" for env where
  ms_quiet: "quiet_step env d d' \<Longrightarrow> mail_step env d [] d'"
| ms_answered: "send_signal_inner env t name v at key d = Inr (i, d') \<Longrightarrow> answered d t key \<Longrightarrow>
    mail_step env d [] d'"
| ms_send: "send_signal_inner env t name v at key d = Inr (i, d') \<Longrightarrow> \<not> answered d t key \<Longrightarrow>
    json_to_string env v = Some payload \<Longrightarrow> mail_step env d [Sent (t, name) payload] d'"
| ms_wait: "poll_signal env st clk t n name at wc d = Inr (None, d') \<Longrightarrow> mail_step env d [] d'"
| ms_receive: "poll_signal env st clk t n name at wc d = Inr (Some e, d') \<Longrightarrow>
    mail_step env d [Received (t, name) (te_payload_json e)] d'"

inductive_cases mail_stepE: "mail_step env d es d'"

lemma mail_step_store_step: "mail_step env d es d' \<Longrightarrow> store_step env d d'"
  by (elim mail_stepE) (auto intro: ss_quiet st_send st_poll)

lemma store_step_mail_step:
  assumes "store_step env d d'"
  shows "\<exists>es. mail_step env d es d'"
  using assms
proof (cases rule: store_step.cases)
  case (st_send t name v at key i)
  then obtain p where "json_to_string env v = Some p" by (auto elim: send_signal_inner_cases)
  with st_send show ?thesis by (cases "answered d t key") (blast intro: mail_step.intros)+
next
  case (st_poll st clk t n name at wc e)
  then show ?thesis by (cases e) (auto intro: mail_step.intros)
qed (blast intro: ms_quiet)

subsection \<open>Operations that leave the inbox alone\<close>

lemma insert_event_inbox:
  "insert_event t expected event payload recorded d = Inr (s, d') \<Longrightarrow> d_signal_inbox d' = d_signal_inbox d"
  by (auto simp: insert_event_def Let_def result_simps split: if_split_asm option.split_asm)

lemma lease_row_inbox [simp]: "d_signal_inbox (lease_row t r owner until d) = d_signal_inbox d"
  by (simp add: lease_row_def)

lemma claim_candidates_inbox:
  "claim_candidates owner until usql nsql rows d = Inr (cs, d') \<Longrightarrow> d_signal_inbox d' = d_signal_inbox d"
  by (induction owner until usql nsql rows d arbitrary: cs d' rule: claim_candidates.induct)
    (fastforce simp: result_simps Let_def split: if_split_asm option.split_asm)+

lemma clear_wakeup_lease_inbox [simp]: "d_signal_inbox (clear_wakeup_lease t d) = d_signal_inbox d"
  by (simp add: clear_wakeup_lease_def split: option.splits)

lemma grant_run_inbox: "grant_run t g token until until_sql d = (w, d') \<Longrightarrow> d_signal_inbox d' = d_signal_inbox d"
  by (auto simp: grant_run_def upsert_execution_def Let_def split: option.split_asm)

lemma append_inbox:
  "append_event_json_at env st clk t n kind key payload at d = Inr (e, d') \<Longrightarrow> d_signal_inbox d' = d_signal_inbox d"
  "append_event_inner env st clk t n' event d = Inr (e, d') \<Longrightarrow> d_signal_inbox d' = d_signal_inbox d"
  "append_event_json_with_wakeup_at env st clk t n key payload at wake d = Inr (e, d') \<Longrightarrow>
     d_signal_inbox d' = d_signal_inbox d"
  "append_event_with_wakeup_inner env st clk t n' event wake d = Inr (e, d') \<Longrightarrow>
     d_signal_inbox d' = d_signal_inbox d"
  by (auto simp: append_event_json_at_def append_event_inner_def append_event_json_with_wakeup_at_def
      append_event_with_wakeup_inner_def Let_def result_simps dest!: insert_event_inbox)

lemma wakeup_ops_inbox:
  "schedule_wakeup w d = Inr (u, d') \<Longrightarrow> d_signal_inbox d' = d_signal_inbox d"
  "claim_due_wakeups at limit owner dur d = Inr (cs, d') \<Longrightarrow> d_signal_inbox d' = d_signal_inbox d"
  "claim_wakeup t at owner dur d = Inr (c, d') \<Longrightarrow> d_signal_inbox d' = d_signal_inbox d"
  "complete_wakeup st clk t n owner' at d = Inr (b, d') \<Longrightarrow> d_signal_inbox d' = d_signal_inbox d"
  "renew_wakeup_claim wc at dur d = Inr (c, d') \<Longrightarrow> d_signal_inbox d' = d_signal_inbox d"
  "release_wakeup_claim wc d = Inr (b, d') \<Longrightarrow> d_signal_inbox d' = d_signal_inbox d"
       apply (auto simp: schedule_wakeup_def result_simps)[1]
      apply (auto simp: claim_due_wakeups_def Let_def result_simps split: if_split_asm dest!: claim_candidates_inbox)[1]
     apply (auto simp: claim_wakeup_def Let_def result_simps split: if_split_asm option.split_asm)[1]
    apply (auto simp: complete_wakeup_def Let_def result_simps split: if_split_asm option.split_asm)[1]
   apply (auto simp: renew_wakeup_claim_def Let_def result_simps split: if_split_asm option.split_asm)[1]
  apply (auto simp: release_wakeup_claim_def Let_def result_simps split: if_split_asm option.split_asm)[1]
  done

lemma admit_inbox: "admit env t key source input time d = Inr (u, d') \<Longrightarrow> d_signal_inbox d' = d_signal_inbox d"
  by (erule admit_cases) (auto dest!: insert_event_inbox)

lemma decrement_stats_inbox: "decrement_stats b d = Inr d' \<Longrightarrow> d_signal_inbox d' = d_signal_inbox d"
  by (auto simp: decrement_stats_def Let_def split: if_split_asm prod.split_asm)

lemma put_program_inbox:
  "put_program_inner env t pk source at d = Inr (p, d') \<Longrightarrow> d_signal_inbox d' = d_signal_inbox d"
  by (erule put_program_inner_cases; simp)

lemma remove_program_inbox:
  assumes "remove_program env t d = Inr (q, d')"
  shows "d_signal_inbox d' = d_signal_inbox d"
proof -
  obtain existing where "select_program env t d = Inr existing"
    using assms by (auto simp: remove_program_def result_simps)
  then show ?thesis using assms
    by (cases existing) (auto simp: remove_program_def result_simps split: if_split_asm
        dest!: decrement_stats_inbox)
qed

lemma execution_ops_inbox:
  "claim_run env entropy clk t owner dur d = Inr (ec, d') \<Longrightarrow> d_signal_inbox d' = d_signal_inbox d"
  "release_run clk claim failed d = Inr (u, d') \<Longrightarrow> d_signal_inbox d' = d_signal_inbox d"
  "finish_task env st clk t n v at lease d = Inr (b, d') \<Longrightarrow> d_signal_inbox d' = d_signal_inbox d"
    apply (erule claim_run_cases; simp add: grant_run_inbox)
   apply (auto simp: release_run_def Let_def result_simps)[1]
  apply (erule finish_task_cases; simp)
  done

lemma quiet_step_inbox: "quiet_step env d d' \<Longrightarrow> d_signal_inbox d' = d_signal_inbox d"
  by (elim quiet_stepE) (rule append_inbox wakeup_ops_inbox admit_inbox put_program_inbox remove_program_inbox
      execution_ops_inbox; assumption)+

subsection \<open>The store keeps the contract\<close>

lemma mailbox_cong: "d_signal_inbox d' = d_signal_inbox d \<Longrightarrow> mailbox d' k = mailbox d k"
  by (simp add: mailbox_def inbox_of_def)

lemma mailbox_queue_signal:
  "mailbox (queue_signal r d) k =
     mailbox d k @ (if k = (sr_task_id r, sr_signal_name r) then [sr_payload r] else [])"
  by (cases k) (auto simp: mailbox_def queue_signal_def inbox_of_def)

lemma store_receipt_inbox:
  "store_receipt env t name payload key i d = Inr d' \<Longrightarrow> d_signal_inbox d' = d_signal_inbox d"
  by (drule store_receipt_result) auto

lemma insert_signal_mailbox:
  assumes "insert_signal env t name payload sent key d = Inr (i, d')"
  shows "mailbox d' k = mailbox d k @ (if k = (t, name) then [payload] else [])"
  using mailbox_cong [OF store_receipt_inbox [OF insert_signal_Inr(5) [OF assms]], of k]
    mailbox_cong [OF wake_waiter_simps(3), of t name sent _ k]
  by (simp add: mailbox_queue_signal)

lemma send_answered:
  assumes "send_signal_inner env t name v at key d = Inr (i, d')" and "answered d t key"
  shows "d' = d"
  using assms(1)
proof (cases rule: send_signal_inner_cases)
  case (queued p)
  then show ?thesis using assms(2)
    by (auto simp: answered_def signal_receipt_def result_simps split: if_split_asm)
qed

lemma send_mailbox:
  assumes "send_signal_inner env t name v at key d = Inr (i, d')" and "\<not> answered d t key"
    and "json_to_string env v = Some payload"
  shows "mailbox d' k = mailbox d k @ (if k = (t, name) then [payload] else [])"
  using assms(1)
proof (cases rule: send_signal_inner_cases)
  case (receipt k' p)
  then show ?thesis using assms(2)
    by (auto simp: answered_def signal_receipt_def result_simps split: option.split_asm if_split_asm)
next
  case (queued p)
  then show ?thesis using insert_signal_mailbox [OF queued(4), of k] assms(3) by simp
qed

text \<open>The inbox is sorted by id, so the oldest signal is the first one of the list.\<close>

lemma sorted_filter_head:
  assumes "sorted_wrt (<) (map fst (xs :: (int \<times> 'a) list))" and "filter P xs = (i, r) # ys"
  shows "filter P (AList.delete i xs) = ys"
proof -
  have "sorted_wrt (<) (map fst (filter P xs))" using assms(1) by (rule sorted_wrt_less_filter)
  then have "\<forall>x \<in> set ys. fst x \<noteq> i" unfolding assms(2) by fastforce
  then have "filter (\<lambda>x. fst x \<noteq> i) ys = ys" by (simp add: filter_id_conv)
  moreover have "filter P (AList.delete i xs) = filter (\<lambda>x. fst x \<noteq> i) (filter P xs)"
    unfolding AList.delete_eq filter_filter by (rule filter_cong) auto
  ultimately show ?thesis unfolding assms(2) by simp
qed

lemma sort_key_sorted:
  assumes "sorted_wrt (<) (map fst (xs :: (int \<times> 'a) list))"
  shows "sort_key fst xs = xs"
  using assms by (intro sort_key_id_if_sorted) (simp add: strict_sorted_imp_sorted)

lemma oldest_signal_first:
  assumes "inbox_inv env d" and "oldest_signal d t name = Some (i, r)"
  shows "\<exists>rest. filter (\<lambda>(i, r). sr_signal_name r = name) (inbox_of d t) = (i, r) # rest"
proof -
  let ?xs = "filter (\<lambda>(i, r). sr_signal_name r = name) (inbox_of d t)"
  have "sort_key fst ?xs = ?xs"
    using assms(1) unfolding inbox_of_def inbox_inv_def
    by (intro sort_key_sorted sorted_wrt_less_filter) simp
  then show ?thesis using assms(2) by (cases ?xs) (simp_all add: oldest_signal_def)
qed

lemma oldest_signal_none: "oldest_signal d t name = None \<Longrightarrow> mailbox d (t, name) = []"
proof -
  let ?xs = "filter (\<lambda>(i, r). sr_signal_name r = name) (inbox_of d t)"
  assume "oldest_signal d t name = None"
  then have "sort_key fst ?xs = []" by (cases "sort_key fst ?xs") (simp_all add: oldest_signal_def)
  then have "length ?xs = 0" by (metis length_sort list.size(3))
  then show ?thesis by (simp add: mailbox_def)
qed

lemma mailbox_delete_first:
  assumes "inbox_inv env d" and "oldest_signal d t name = Some (i, r)"
    and "d_signal_inbox d' = AList.delete i (d_signal_inbox d)"
  shows "mailbox d k = (if k = (t, name) then sr_payload r # mailbox d' k else mailbox d' k)"
proof -
  let ?P = "\<lambda>(t, name) (j :: int, s). sr_task_id s = t \<and> sr_signal_name s = name"
  have box: "mailbox e (u, n) = map (sr_payload \<circ> snd) (filter (?P (u, n)) (d_signal_inbox e))" for e u n
    unfolding mailbox_def inbox_of_def by (auto intro!: arg_cong [where f = "map _"] filter_cong)
  have sorted: "sorted_wrt (<) (map fst (d_signal_inbox d))" using assms(1) by (simp add: inbox_inv_def)
  obtain rest where rest: "filter (?P (t, name)) (d_signal_inbox d) = (i, r) # rest"
    using oldest_signal_first [OF assms(1,2)] by (auto simp: inbox_of_def case_prod_unfold)
  have mem: "(i, r) \<in> set (d_signal_inbox d)" "sr_task_id r = t" "sr_signal_name r = name"
    using oldest_signal_mem [OF assms(2)] by auto
  show ?thesis
  proof (cases "k = (t, name)")
    case True
    then show ?thesis using rest sorted_filter_head [OF sorted rest] assms(3) by (simp add: box)
  next
    case False
    obtain u n where k: "k = (u, n)" by (cases k)
    have dist: "distinct (map fst (d_signal_inbox d))" using sorted by (simp add: strict_sorted_iff)
    have same: "s = r" if "(i, s) \<in> set (d_signal_inbox d)" for s
      by (rule eq_key_imp_eq_value [OF dist that mem(1)])
    have keep: "j \<noteq> i" if "(j, s) \<in> set (d_signal_inbox d)" "?P (u, n) (j, s)" for j s
      using same [of s] that mem(2,3) False k by auto
    have "filter (?P (u, n)) (AList.delete i (d_signal_inbox d)) = filter (?P (u, n)) (d_signal_inbox d)"
      unfolding AList.delete_eq filter_filter using keep by (intro filter_cong) auto
    then show ?thesis using False assms(3) by (auto simp: k box)
  qed
qed

lemma take_signal_Inr:
  assumes "take_signal env st reading t n name now_sql claim queued d = Inr (res, d')"
  shows "\<exists>e. res = Some e \<and> te_payload_json e = sr_payload (snd queued) \<and>
    d_signal_inbox d' = AList.delete (fst queued) (d_signal_inbox d)"
proof -
  obtain d1 v s d2 e where d1: "consume_claim t n now_sql claim d = Inr d1"
      and ins: "insert_event t (Some n) (signal_event name v (word_of_int (sr_sent_at_ms (snd queued))))
         (sr_payload (snd queued)) (sr_sent_at_ms (snd queued)) d1 = Inr (s, d2)"
      and e: "stored_event t s (signal_event name v (word_of_int (sr_sent_at_ms (snd queued))))
         (sr_payload (snd queued)) = Inr e" "res = Some e"
      and d': "d' = remove_signal (fst queued) t s name d2"
    using assms by (auto simp: take_signal_def result_simps)
  have "d_signal_inbox d2 = d_signal_inbox d"
    using insert_event_inbox [OF ins] consume_claim_result [OF d1] by auto
  then show ?thesis using e d' by (auto simp: remove_signal_def Let_def stored_event_def result_simps)
qed

lemma poll_signal_none:
  assumes "poll_signal env st clk t n name at claim d = Inr (None, d')"
  shows "d_signal_inbox d' = d_signal_inbox d \<and> mailbox d (t, name) = [] \<and>
    register_signal_wait t n name d = Inr d'"
proof (cases "oldest_signal d t name")
  case None
  then have "register_signal_wait t n name d = Inr d'"
    using assms by (auto simp: poll_signal_def result_simps split: if_split_asm)
  then show ?thesis using register_signal_wait_result oldest_signal_none [OF None] by fastforce
next
  case (Some queued)
  then show ?thesis using assms take_signal_Inr
    by (fastforce simp: poll_signal_def result_simps split: if_split_asm)
qed

lemma poll_signal_some:
  assumes inv: "inbox_inv env d" and poll: "poll_signal env st clk t n name at claim d = Inr (Some e, d')"
  shows "mailbox d k = (if k = (t, name) then te_payload_json e # mailbox d' k else mailbox d' k)"
proof -
  obtain i r where ir: "oldest_signal d t name = Some (i, r)"
      and take: "take_signal env st (clk 1) t n name (uint at) claim (i, r) d = Inr (Some e, d')"
    using poll by (auto simp: poll_signal_def result_simps split: if_split_asm option.split_asm)
  from take_signal_Inr [OF take] mailbox_delete_first [OF inv ir, of d' k] show ?thesis by auto
qed

lemma mailbox_bounded: "inbox_inv env d \<Longrightarrow> length (mailbox d k) \<le> MAX_PENDING_SIGNALS"
  unfolding mailbox_def inbox_inv_def length_map by (meson le_trans length_filter_le)

interpretation signals: mailboxes "store_ok env" "mail_step env" mailbox MAX_PENDING_SIGNALS
  for env :: "'v durable_env"
proof
  fix s s' es k j m
  assume ok: "store_ok env s"
  then have inv: "inbox_inv env s" by (simp add: store_ok_def db_inv_def)
  show "length (mailbox s k) \<le> MAX_PENDING_SIGNALS" by (rule mailbox_bounded [OF inv])
  show "store_ok env s'" if "mail_step env s es s'"
    using ok mail_step_store_step [OF that] by (rule store_step_ok)
  show "es = [] \<or> (\<exists>e. es = [e])" if "mail_step env s es s'"
    using that by (cases rule: mail_step.cases) auto
  show "mailbox s' k = mailbox s k" if "mail_step env s [] s'"
    using that by (cases rule: mail_step.cases)
      (auto intro: mailbox_cong dest: quiet_step_inbox send_answered poll_signal_none)
  show "mailbox s' k = (if k = j then mailbox s k @ [m] else mailbox s k)" if "mail_step env s [Sent j m] s'"
    using that by (cases rule: mail_step.cases) (auto dest: send_mailbox [where k = k])
  show "mailbox s k = (if k = j then m # mailbox s' k else mailbox s' k)" if "mail_step env s [Received j m] s'"
    using that by (cases rule: mail_step.cases) (auto dest: poll_signal_some [OF inv, where k = k])
qed

subsection \<open>In order, exactly once\<close>

text \<open>Every run of the store is a trace of signals sent and received.\<close>

lemma run_trace: "(store_step env)\<^sup>*\<^sup>* d d' \<Longrightarrow> \<exists>es. trace (mail_step env) d es d'"
proof (induction rule: rtranclp_induct)
  case (step y z)
  then show ?case using store_step_mail_step trace_snoc by metis
qed (blast intro: trace_nil)


definition demo_inbox :: "int list \<Rightarrow> db" where
  "demo_inbox ids = empty_db\<lparr>d_signal_inbox := map (\<lambda>i. (i, \<lparr>sr_task_id = 7, sr_signal_name = ''go'',
     sr_payload = ''null'', sr_sent_at_ms = 5\<rparr>)) ids, d_inbox_seq := int (length ids)\<rparr>"

lemmas signal_eval = send_signal_inner_def validate_signal_name_def insert_signal_def ensure_open_def
  usize_checked_add_def i64_of_usize_def i64_checked_add_def inbox_of_def signal_size_def
  queue_signal_def wake_waiter_def store_receipt_def to_sql_integer_def from_sql_integer_def
  i64_max_def durable_limits Let_def

lemma demo_send:
  "send_signal_inner demo_env 7 ''go'' () 5 None (demo_inbox []) = Inr (1, demo_inbox [1])"
  "send_signal_inner demo_env 7 ''go'' () 5 None (demo_inbox [1]) = Inr (2, demo_inbox [1, 2])"
  by (simp_all add: signal_eval demo_env_def demo_inbox_def empty_db_def)

lemma demo_poll:
  "\<exists>e d. poll_signal demo_env free_store (\<lambda>_. 0) 7 0 ''go'' 6 None (demo_inbox [1, 2]) = Inr (Some e, d) \<and>
     te_payload_json e = ''null''"
  by (simp add: poll_signal_def take_signal_def signal_event_def remove_signal_def check_wait_def
      oldest_signal_def consume_claim_def sort_key_simps signal_eval event_eval demo_env_def
      demo_inbox_def empty_db_def)


end
