(* ===== verification/Durable_Suspension.thy ===== *)
theory Durable_Suspension
  imports Durable_Mailbox
begin

text \<open>
  Suspension of tasks: a sleeping task has its timer from the same transaction as its event, a task
  that waits for a signal is woken by it, and both can then be claimed.
\<close>

subsection \<open>Waiting for a signal\<close>

lemma wakeup_Some:
  "map_of (d_wakeups d) t = Some r \<Longrightarrow> wakeup_ok r \<Longrightarrow>
     Durable_Wakeups.wakeup t d = Inr (Some \<lparr>wk_task_id = t, wk_sequence = word_of_int (wr_sequence r),
       wk_wake_at_ms = word_of_int (wr_wake_at_ms r)\<rparr>)"
  by (auto simp: Durable_Wakeups.wakeup_def wakeup_of_row_def wakeup_ok_def sql_nat_def from_sql_integer_def)

lemma claim_free_wakeup:
  assumes "map_of (d_wakeups d) t = Some r" "wakeup_ok r" "wr_lease_until_ms r = None"
    and "wr_wake_at_ms r \<le> uint m" "uint m \<le> i64_max"
    and "durable_validate_lease_owner owner = Inr ()" "checked_add m (max dur 1) = Some until" "uint until \<le> i64_max"
  shows "\<exists>d'. claim_wakeup t m owner dur d = Inr (Some \<lparr>wc_task_id = t,
    wc_sequence = word_of_int (wr_sequence r), wc_wake_at_ms = word_of_int (wr_wake_at_ms r),
    wc_lease_owner = owner, wc_lease_until_ms = until\<rparr>, d')"
  using assms
  by (simp add: claim_wakeup_def wakeup_of_row_def wakeup_ok_def sql_nat_def from_sql_integer_def
      to_sql_integer_def lease_free_def)

lemma registered_wait:
  assumes "register_signal_wait t n name d = Inr d'" and "waits_inv d"
  shows "map_of (d_signal_waits d') t = Some (uint n, name) \<and> uint n \<le> i64_max"
proof (cases "map_of (d_signal_waits d) t")
  case None
  then show ?thesis using assms
    by (auto simp: register_signal_wait_def sql_insert_def result_simps map_of_append map_add_def)
next
  case (Some w)
  obtain s m where w: "w = (s, m)" by (cases w)
  then have "sql_nat s" using assms(2) Some by (auto simp: waits_inv_def)
  then show ?thesis using assms(1) Some w
    by (auto simp: register_signal_wait_def result_simps sql_nat_def split: if_split_asm)
qed

lemma insert_signal_wakes:
  assumes ins: "insert_signal env t name payload sent key d = Inr (i, d')"
    and wait: "map_of (d_signal_waits d) t = Some (s, name)"
  shows "map_of (d_wakeups d') t = (case map_of (d_wakeups d) t of Some r \<Rightarrow> Some r
      | None \<Rightarrow> Some \<lparr>wr_sequence = s, wr_wake_at_ms = sent, wr_lease_owner = None, wr_lease_until_ms = None\<rparr>) \<and>
    map_of (d_signal_waits d') t = Some (s, name)"
proof -
  let ?d1 = "queue_signal \<lparr>sr_task_id = t, sr_signal_name = name, sr_payload = payload, sr_sent_at_ms = sent\<rparr> d"
  have "d_wakeups d' = d_wakeups (wake_waiter t name sent ?d1)" "d_signal_waits d' = d_signal_waits d"
    using store_receipt_result [OF insert_signal_Inr(5) [OF ins]] by (auto simp: queue_signal_def)
  then show ?thesis using wait
    by (auto simp: wake_waiter_def queue_signal_def upsert_wakeup_def update_conv' split: option.splits)
qed

text \<open>
  C30. A task that waits is woken by its signal. When a poll finds no signal, none was pending and the
  wait is recorded; as long as it is, the next signal of that name leaves the task with a wakeup. If
  it had none, the wakeup is for the position of the wait and due at the time of the signal, and from
  then on a runner that asks for the task is given it.
\<close>

theorem waiting_task_woken:
  assumes ok: "store_ok env d"
    and poll: "poll_signal env st clk t n name at claim d = Inr (None, d1)"
    and later: "(store_step env)\<^sup>*\<^sup>* d1 d2"
    and still: "map_of (d_signal_waits d2) t = map_of (d_signal_waits d1) t"
    and send: "send_signal env t name v sent d2 = Inr (i, d3)"
    and time: "sent \<le> m" "uint m \<le> i64_max"
    and runner: "durable_validate_lease_owner owner = Inr ()" "checked_add m (max dur 1) = Some until"
      "uint until \<le> i64_max"
  shows "mailbox d (t, name) = [] \<and>
    signal_wait t d1 = Inr (Some \<lparr>sw_task_id = t, sw_sequence = n, sw_signal_name = name\<rparr>) \<and>
    Durable_Wakeups.wakeup t d3 \<noteq> Inr None \<and>
    (Durable_Wakeups.wakeup t d2 = Inr None \<longrightarrow>
      Durable_Wakeups.wakeup t d3 = Inr (Some \<lparr>wk_task_id = t, wk_sequence = n, wk_wake_at_ms = sent\<rparr>) \<and>
      (\<exists>c d4. claim_wakeup t m owner dur d3 = Inr (Some c, d4) \<and> wc_sequence c = n))"
proof -
  have box: "mailbox d (t, name) = []" and reg: "register_signal_wait t n name d = Inr d1"
    using poll_signal_none [OF poll] by auto
  have wait: "map_of (d_signal_waits d1) t = Some (uint n, name)" "uint n \<le> i64_max"
    using registered_wait [OF reg] ok by (auto simp: store_ok_def db_inv_def)
  then have sw: "signal_wait t d1 = Inr (Some \<lparr>sw_task_id = t, sw_sequence = n, sw_signal_name = name\<rparr>)"
    by (simp add: signal_wait_def from_sql_integer_def)
  obtain p where sent: "uint sent \<le> i64_max" and ins: "insert_signal env t name p (uint sent) None d2 = Inr (i, d3)"
    using send unfolding send_signal_def by (cases rule: send_signal_inner_cases) auto
  note wakes = insert_signal_wakes [OF ins still [unfolded wait(1)], THEN conjunct1]
  have ok2: "store_ok env d2"
    using store_run_runs [OF later] store_step_ok [OF ok st_poll [OF poll]] by blast
  have "store_step env d2 d3" using send unfolding send_signal_def by (rule st_send)
  then have "wakeups_inv d3" using store_step_ok [OF ok2] by (simp add: store_ok_def db_inv_def)
  then have wok: "wakeup_ok r" if "map_of (d_wakeups d3) t = Some r" for r
    using that by (simp add: wakeups_inv_def)
  have some: "Durable_Wakeups.wakeup t d3 \<noteq> Inr None"
    using wakes wok wakeup_Some [of d3 t] by (auto split: option.split_asm)
  have new: "Durable_Wakeups.wakeup t d3 = Inr (Some \<lparr>wk_task_id = t, wk_sequence = n, wk_wake_at_ms = sent\<rparr>) \<and>
      (\<exists>c d4. claim_wakeup t m owner dur d3 = Inr (Some c, d4) \<and> wc_sequence c = n)"
    if "Durable_Wakeups.wakeup t d2 = Inr None"
  proof -
    let ?r = "\<lparr>wr_sequence = uint n, wr_wake_at_ms = uint sent, wr_lease_owner = None, wr_lease_until_ms = None\<rparr>"
    have "map_of (d_wakeups d2) t = None"
      using that by (cases "map_of (d_wakeups d2) t")
        (auto simp: Durable_Wakeups.wakeup_def result_simps)
    then have r: "map_of (d_wakeups d3) t = Some ?r" using wakes by simp
    have "uint sent \<le> uint m" using time(1) by (simp add: word_le_def)
    then show ?thesis
      using wakeup_Some [OF r wok [OF r]] claim_free_wakeup [OF r wok [OF r] _ _ time(2) runner] by auto
  qed
  show ?thesis using box sw some new by blast
qed

definition demo_waiting :: db where
  "demo_waiting = empty_db\<lparr>d_signal_waits := [(7, (0, ''go''))]\<rparr>"

lemma demo_wait:
  "poll_signal demo_env free_store (\<lambda>_. 0) 7 0 ''go'' 4 None empty_db = Inr (None, demo_waiting)"
  by (simp add: poll_signal_def check_wait_def oldest_signal_def register_signal_wait_def signal_eval
      event_eval demo_env_def demo_waiting_def empty_db_def)

theorem waiting_task_woken_witness:
  "\<exists>i d3 c d4. send_signal demo_env 7 ''go'' () 5 demo_waiting = Inr (i, d3) \<and>
     claim_wakeup 7 6 ''runner'' 5 d3 = Inr (Some c, d4) \<and> wc_sequence c = 0"
proof -
  obtain i d3 where send: "send_signal demo_env 7 ''go'' () 5 demo_waiting = Inr (i, d3)"
    by (simp add: send_signal_def signal_eval upsert_wakeup_def demo_env_def demo_waiting_def empty_db_def)
  have none: "Durable_Wakeups.wakeup 7 demo_waiting = Inr None"
    by (simp add: Durable_Wakeups.wakeup_def demo_waiting_def empty_db_def)
  have runner: "durable_validate_lease_owner ''runner'' = Inr ()"
      "checked_add (6 :: u64) (max 5 1) = Some 11" "uint (11 :: u64) \<le> i64_max"
    by (simp_all add: durable_validate_lease_owner_def durable_limits checked_add_def i64_max_def)
  have time: "(5 :: u64) \<le> 6" "uint (6 :: u64) \<le> i64_max" by (simp_all add: i64_max_def)
  show ?thesis
    using waiting_task_woken [OF demo_store_ok demo_wait rtranclp.rtrancl_refl refl send time runner]
      none send by blast
qed

subsection \<open>Sleeping\<close>

text \<open>
  Falling asleep is atomic. When \<open>append_event_json_with_wakeup_at\<close> succeeds, the history of
  the task has been extended by exactly the sleep event it returns, at the expected position, and the
  task's timer is set for that position and the given time, unleased; no other history and no other
  task's timer has changed. A claim on the timer is granted exactly from that time on.
\<close>

theorem sleep_atomic:
  assumes ok: "store_ok env d"
    and sleep: "append_event_json_with_wakeup_at env st clk t n key payload at wake d = Inr (e, d')"
    and runner: "uint m \<le> i64_max" "durable_validate_lease_owner owner = Inr ()"
      "checked_add m (max dur 1) = Some until" "uint until \<le> i64_max"
  shows "(\<exists>h. load_history env t d = Inr h \<and> n = of_nat (length (h_events h)) \<and>
      te_kind e = EK_Sleep \<and> te_sequence e = n \<and> te_key e = key \<and> te_payload_json e = payload \<and>
      load_history env t d' = Inr (h\<lparr>h_events := h_events h @ [e]\<rparr>)) \<and>
    Durable_Wakeups.wakeup t d' = Inr (Some \<lparr>wk_task_id = t, wk_sequence = n, wk_wake_at_ms = wake\<rparr>) \<and>
    (\<forall>u. u \<noteq> t \<longrightarrow> load_history env u d' = load_history env u d \<and>
       Durable_Wakeups.wakeup u d' = Durable_Wakeups.wakeup u d) \<and>
    ((\<exists>c d2. claim_wakeup t m owner dur d' = Inr (Some c, d2)) \<longleftrightarrow> wake \<le> m)"
proof -
  let ?ev = "\<lambda>v. \<lparr>ne_kind = EK_Sleep, ne_key = key, ne_payload = v, ne_recorded_at_ms = at\<rparr>"
  have inv: "db_inv env d" and h: "history_inv env d" using ok db_invD(1) by (auto simp: store_ok_def)
  obtain v s d1 where v: "json_from_str env payload = Some v" and at: "uint at \<le> i64_max"
      and wake: "uint wake \<le> i64_max"
      and ins: "insert_event t (Some n) (?ev v) payload (uint at) d = Inr (s, d1)"
      and e: "stored_event t s (?ev v) payload = Inr e"
      and d': "d' = upsert_wakeup t s (uint wake) d1"
    using sleep by (auto simp: append_event_json_with_wakeup_at_def Let_def result_simps)
  note logs = insert_event_logs [OF h, of t "Some n" "?ev v" payload s d1 e, simplified, OF ins at v e]
  note step = insert_event_step [OF inv ins sql_nat_uint [OF at]]
  have same: "d_events d' = d_events d1" by (simp add: d')
  have hist: "load_history env u d' = Inr \<lparr>h_task_id = u, h_events = log_of env d1 u\<rparr>" for u
    using load_history_log [of env d1 u] logs same by (simp add: load_history_def events_of_def)
  have fields: "te_kind e = EK_Sleep" "te_key e = key" "te_payload_json e = payload" "te_sequence e = word_of_int s"
    using e by (auto simp: stored_event_def result_simps)
  let ?r = "\<lparr>wr_sequence = s, wr_wake_at_ms = uint wake, wr_lease_owner = None, wr_lease_until_ms = None\<rparr>"
  have r: "map_of (d_wakeups d') u = (if u = t then Some ?r else map_of (d_wakeups d) u)" for u
    using step(4) v by (simp add: d' upsert_wakeup_def update_conv')
  have rok: "wakeup_ok ?r" using step(3) v wake by (simp add: wakeup_ok_def)
  have claim: "(\<exists>c d2. claim_wakeup t m owner dur d' = Inr (Some c, d2)) \<longleftrightarrow> wake \<le> m"
    using claim_free_wakeup [OF r [of t, simplified] rok _ _ runner]
      claim_wakeup_Some [of t m owner dur d'] r [of t]
    by (simp add: word_le_def) (metis option.inject wakeup_row.select_convs(2))
  have "Durable_Wakeups.wakeup t d' = Inr (Some \<lparr>wk_task_id = t, wk_sequence = n, wk_wake_at_ms = wake\<rparr>)"
    using wakeup_Some [OF r [of t, simplified] rok] logs fields(4) by simp
  moreover have "Durable_Wakeups.wakeup u d' = Durable_Wakeups.wakeup u d" if "u \<noteq> t" for u
    using that by (simp add: Durable_Wakeups.wakeup_def r)
  ultimately show ?thesis using hist logs fields claim by (simp add: load_history_log [OF h])
qed

theorem sleep_atomic_witness:
  "\<exists>e d'. append_event_json_with_wakeup_at demo_env free_store (\<lambda>_. 0) 7 0 ''nap'' ''null'' 5 20 empty_db
       = Inr (e, d') \<and>
     Durable_Wakeups.wakeup 7 d' = Inr (Some \<lparr>wk_task_id = 7, wk_sequence = 0, wk_wake_at_ms = 20\<rparr>)"
proof -
  obtain e d' where sleep: "append_event_json_with_wakeup_at demo_env free_store (\<lambda>_. 0) 7 0 ''nap'' ''null'' 5 20
      empty_db = Inr (e, d')"
    by (simp add: append_event_json_with_wakeup_at_def event_eval demo_env_def empty_db_def)
  have runner: "uint (6 :: u64) \<le> i64_max" "durable_validate_lease_owner ''runner'' = Inr ()"
      "checked_add (6 :: u64) (max 5 1) = Some 11" "uint (11 :: u64) \<le> i64_max"
    by (simp_all add: durable_validate_lease_owner_def durable_limits checked_add_def i64_max_def)
  from sleep_atomic [OF demo_store_ok sleep runner]
  have "Durable_Wakeups.wakeup 7 d' = Inr (Some \<lparr>wk_task_id = 7, wk_sequence = 0, wk_wake_at_ms = 20\<rparr>)"
    by (elim conjE)
  with sleep show ?thesis by auto
qed

end
