(* ===== verification/Durable_Dispatch.thy ===== *)
theory Durable_Dispatch
  imports Durable_Suspension
begin

text \<open>
  Dispatch: what the poller is told is due can be claimed, and the catalog it reads never changes
  under a task.
\<close>

subsection \<open>Listing\<close>

lemma decode_program_rows_from_Inr:
  "decode_program_rows_from env rows acc bytes = Inr ps \<Longrightarrow>
     \<exists>qs. ps = acc @ qs \<and> list_all2 (\<lambda>row p. decode_program env (fst row) (snd row) = Inr p) rows qs"
proof (induction env rows acc bytes rule: decode_program_rows_from.induct)
  case (2 env t r rows programs bytes)
  then show ?case by (fastforce simp: result_simps split: if_split_asm)
qed simp

lemma decode_program_rows_Inr:
  "decode_program_rows env rows = Inr ps \<Longrightarrow>
     list_all2 (\<lambda>row p. decode_program env (fst row) (snd row) = Inr p) rows ps"
  using decode_program_rows_from_Inr by (fastforce simp: decode_program_rows_def)

lemma list_all2_in_set2: "list_all2 R xs ys \<Longrightarrow> y \<in> set ys \<Longrightarrow> \<exists>x \<in> set xs. R x y"
  by (induction rule: list_all2_induct) auto

lemma map_filter_mem: "y \<in> set (List.map_filter f xs) \<longleftrightarrow> (\<exists>x \<in> set xs. f x = Some y)"
  by (induction xs) (auto simp: List.map_filter_simps split: option.split)

lemma due_programs_mem:
  assumes "((at, t), r) \<in> set (due_programs n kind d)"
  shows "map_of (d_programs d) t = Some r \<and> pr_program_kind r = kind \<and> open_task d t \<and>
    (t \<in> fst ` set (due_by_wakeup n d) \<or> t \<in> fst ` set (due_by_execution n d))"
proof -
  obtain u at' where mem: "(u, at') \<in> set (due_by_wakeup n d @ due_by_execution n d)"
      and row: "(case map_of (d_programs d) u of None \<Rightarrow> None
        | Some p \<Rightarrow> if pr_program_kind p = kind \<and> open_task d u then Some ((at', u), p) else None) = Some ((at, t), r)"
    using assms unfolding due_programs_def map_filter_mem Bex_def split_paired_Ex prod.case by blast
  have "u = t \<and> map_of (d_programs d) t = Some r \<and> pr_program_kind r = kind \<and> open_task d t"
    using row by (cases "map_of (d_programs d) u") (auto split: if_split_asm)
  moreover have "u \<in> fst ` set (due_by_wakeup n d) \<or> u \<in> fst ` set (due_by_execution n d)"
    using mem by force
  ultimately show ?thesis by blast
qed

lemma sint_small:
  assumes "uint (w :: u64) \<le> i64_max"
  shows "sint w = uint w"
proof -
  have "- (2 ^ 63) \<le> uint w" by (rule order_trans [OF _ uint_ge_0]) simp
  then show ?thesis using assms by (simp add: sint_uint signed_take_bit_int_eq_self_iff i64_max_def)
qed

lemma due_not_blocked:
  assumes dist: "distinct (map fst (d_wakeups d))" "distinct (map fst (d_executions d))"
    and range: "uint time \<le> i64_max"
    and due: "t \<in> fst ` set (due_by_wakeup (uint time) d) \<or> t \<in> fst ` set (due_by_execution (uint time) d)"
  shows "\<not> run_blocked t time d"
  using due
proof
  assume "t \<in> fst ` set (due_by_wakeup (uint time) d)"
  then obtain w where w: "(t, w) \<in> set (d_wakeups d)" "wr_wake_at_ms w \<le> uint time"
      "lease_free (wr_lease_until_ms w) (uint time)"
      "case map_of (d_executions d) t of None \<Rightarrow> True
       | Some r \<Rightarrow> xr_state r \<in> {ES_ready, ES_running, ES_suspended} \<and> lease_free (xr_lease_until_ms r) (uint time)"
    unfolding due_by_wakeup_def by auto
  have "map_of (d_wakeups d) t = Some w" using map_of_is_SomeI [OF dist(1) w(1)] .
  with w show ?thesis
    by (auto simp: run_blocked_def sint_small [OF range] lease_free_def split: option.split_asm)
next
  assume "t \<in> fst ` set (due_by_execution (uint time) d)"
  then obtain r where r: "(t, r) \<in> set (d_executions d)" "xr_state r \<in> {ES_ready, ES_running}"
      "lease_free (xr_lease_until_ms r) (uint time)" "map_of (d_wakeups d) t = None"
      "map_of (d_signal_waits d) t = None"
    unfolding due_by_execution_def by auto
  have "map_of (d_executions d) t = Some r" using map_of_is_SomeI [OF dist(2) r(1)] .
  with r show ?thesis
    by (auto simp: run_blocked_def sint_small [OF range] lease_free_def split: option.split_asm)
qed

lemma next_generation_fresh:
  assumes "executions_inv d" and "run_generation d t < nat i64_max"
  shows "\<exists>g. next_generation t d = Inr g"
proof (cases "map_of (d_executions d) t")
  case (Some r)
  then have "0 \<le> xr_generation r" "xr_generation r < i64_max"
    using assms by (auto simp: executions_inv_def run_generation_def sql_nat_def)
  then show ?thesis using Some by (simp add: next_generation_def i64_checked_add_def i64_max_def)
qed (simp add: next_generation_def)

lemma claim_run_granted:
  assumes "owner_token env entropy owner = Inr token" "open_task d t" "map_of (d_programs d) t \<noteq> None"
    and "now (clk 0) = Inr time" "lease_deadline time dur = Inr until" "\<not> run_blocked t time d"
    and "next_generation t d = Inr g" "uint until \<le> i64_max" "now (clk 1) = Inr later" "later < until"
  shows "\<exists>c d'. claim_run env entropy clk t owner dur d = Inr (Some c, d') \<and> ec_task_id c = t \<and>
    ec_generation c = word_of_int g \<and> ec_lease_until_ms c = until"
  using assms by (auto simp: claim_run_def to_sql_integer_def split: prod.split)

text \<open>
  C31. What is listed as due can be run. Every program that \<open>load_due_programs_batch\<close> returns for a time
  is the registered program of its task, of the requested kind, and no more than the requested number
  are returned; an executor that claims such a task at that time, with a valid name and a lease that
  fits the clock, is granted it. So the poller does not spend its batch on tasks it cannot run.
\<close>

theorem due_program_claimable:
  assumes ok: "store_ok env d"
    and due: "load_due_programs_batch env time kind limit d = Inr ps"
    and p: "p \<in> set ps"
    and clock: "now (clk 0) = Inr time" "now (clk 1) = Inr later" "later < until"
    and runner: "owner_token env entropy owner = Inr token"
      "lease_deadline time dur = Inr until" "uint until \<le> i64_max"
    and fresh: "run_generation d (dp_task_id p) < nat i64_max"
  shows "length ps \<le> limit \<and> dp_kind p = kind \<and> program env (dp_task_id p) d = Inr (Some p) \<and>
    (\<exists>c d'. claim_run env entropy clk (dp_task_id p) owner dur d = Inr (Some c, d') \<and>
       ec_task_id c = dp_task_id p \<and> ec_lease_until_ms c = until)"
proof -
  let ?rows = "take (min limit MAX_DURABLE_PROGRAMS)
    (sort_key fst (due_programs (uint time) (DurableProgramKind_as_str kind) d))"
  have time: "uint time \<le> i64_max"
      and rows: "decode_program_rows env (map (\<lambda>(k, p). (snd k, p)) ?rows) = Inr ps"
    using due by (auto simp: load_due_programs_batch_def result_simps)
  note all = decode_program_rows_Inr [OF rows]
  have len: "length ps \<le> limit" using list_all2_lengthD [OF all] by simp
  obtain at t r where mem: "((at, t), r) \<in> set ?rows" and dec: "decode_program env t r = Inr p"
    using list_all2_in_set2 [OF all p] by auto
  have row: "map_of (d_programs d) t = Some r" "pr_program_kind r = DurableProgramKind_as_str kind" "open_task d t"
      and t: "t \<in> fst ` set (due_by_wakeup (uint time) d) \<or> t \<in> fst ` set (due_by_execution (uint time) d)"
    using due_programs_mem [of at t r] in_set_takeD [OF mem] by auto
  have pt: "dp_task_id p = t" and kind: "dp_kind p = kind"
    using dec row(2) by (auto simp: decode_program_def result_simps split: if_split_asm)
  have dist: "distinct (map fst (d_wakeups d))" "distinct (map fst (d_executions d))"
    using ok by (auto simp: store_ok_def db_inv_def wakeups_inv_def executions_inv_def)
  obtain g where g: "next_generation t d = Inr g"
    using next_generation_fresh [of d t] fresh ok by (auto simp: pt store_ok_def db_inv_def)
  have "\<exists>c d'. claim_run env entropy clk t owner dur d = Inr (Some c, d') \<and> ec_task_id c = t \<and>
      ec_lease_until_ms c = until"
    using claim_run_granted [where clk = clk, OF runner(1) row(3) _ clock(1) runner(2) due_not_blocked [OF dist time t]
        g runner(3) clock(2,3)] row(1) by blast
  moreover have "program env t d = Inr (Some p)" using row(1) dec by (simp add: program_def select_program_def)
  ultimately show ?thesis using len kind pt by simp
qed

definition demo_program :: DurableProgram where
  "demo_program = \<lparr>dp_task_id = 7, dp_kind = PK_Module, dp_source = ''x'',
     dp_source_sha256 = replicate 32 (CHR ''x''), dp_registered_at_ms = 5\<rparr>"

lemmas program_eval = decode_program_def validate_program_source_def DurableProgramKind_parse_def
  demo_program_row_def demo_program_def from_sql_integer_def i64_max_def durable_limits

lemma demo_due: "load_due_programs_batch demo_env 15 PK_Module 10 (demo_running 1 15) = Inr [demo_program]"
  by (simp add: load_due_programs_batch_def due_programs_def due_by_wakeup_def due_by_execution_def
      decode_program_rows_def usize_checked_add_def lease_free_def List.map_filter_simps
      to_sql_integer_def program_eval demo_running_def demo_runnable_def empty_db_def demo_env_def)

lemma demo_running_ok: "store_ok demo_env (demo_running 1 15)"
  by (rule store_step_ok [OF demo_runnable_ok st_claim_run [OF demo_first_claim]])

theorem due_program_claimable_witness:
  "\<exists>c d'. claim_run demo_env (Some ''r'') (\<lambda>_. 15) (dp_task_id demo_program) ''v'' 5 (demo_running 1 15)
     = Inr (Some c, d') \<and> ec_lease_until_ms c = 20"
proof -
  have p: "demo_program \<in> set [demo_program]" by simp
  have clock: "now 15 = Inr (15 :: u64)" "(15 :: u64) < 20"
    by (simp_all add: now_def word_less_nat_alt)
  have runner: "owner_token demo_env (Some ''r'') ''v'' = Inr demo_token"
      "lease_deadline (15 :: u64) 5 = Inr 20" "uint (20 :: u64) \<le> i64_max"
    by (simp_all add: owner_token_def durable_validate_lease_owner_def durable_limits demo_token_eq
        lease_deadline_def checked_add_def i64_max_def word_less_nat_alt)
  have fresh: "run_generation (demo_running 1 15) (dp_task_id demo_program) < nat i64_max"
    by (simp add: run_generation_def demo_running_def demo_program_def i64_max_def)
  from due_program_claimable [where clk = "\<lambda>_. 15", OF demo_running_ok demo_due p clock(1,1,2) runner fresh]
  show ?thesis by blast
qed

subsection \<open>The program of a task with a history\<close>

text \<open>
  History and program stay together. Once a task has an event, its registered program can be
  neither removed nor replaced: in every later state the program reads back as it was, and a
  registration that is accepted for the task is the same one and changes nothing. So a history is only
  ever replayed against the text that produced it.
\<close>

theorem program_bound_to_history:
  assumes ok: "store_ok env d"
    and prog: "program env t d = Inr (Some p)" and hist: "log_of env d t \<noteq> []"
    and later: "(store_step env)\<^sup>*\<^sup>* d d2"
  shows "program env t d2 = Inr (Some p) \<and>
    (\<forall>q d3. remove_program env t d2 \<noteq> Inr (q, d3)) \<and>
    (\<forall>kind source at q d3. put_program_inner env t kind source at d2 = Inr (q, d3) \<longrightarrow>
       kind = dp_kind p \<and> source = dp_source p \<and> q = Some p \<and> d3 = d2)"
proof -
  obtain r where r: "map_of (d_programs d) t = Some r" "decode_program env t r = Inr p"
    using prog by (auto simp: program_def select_program_Some)
  have "events_of d t \<noteq> []" using hist by (auto simp: log_of_def)
  with r(1) have r2: "map_of (d_programs d2) t = Some r" "events_of d2 t \<noteq> []"
    using table_run_program store_run_runs [OF later ok] by blast+
  then have sel: "select_program env t d2 = Inr (Some p)" using r(2) by (simp add: select_program_def)
  have "remove_program env t d2 \<noteq> Inr (q, d3)" for q d3
    using sel r2(2) by (auto simp: remove_program_def result_simps)
  moreover have "kind = dp_kind p \<and> source = dp_source p \<and> q = Some p \<and> d3 = d2"
    if "put_program_inner env t kind source at d2 = Inr (q, d3)" for kind source at q d3
    using that by (cases rule: put_program_inner_cases) (use sel r2(1) in auto)
  ultimately show ?thesis using sel by (simp add: program_def)
qed

theorem program_bound_to_history_witness:
  "\<exists>e d. append_event_json_at demo_env free_store (\<lambda>_. 9) 7 0 EK_Step ''a'' ''null'' 5 demo_runnable = Inr (e, d) \<and>
     program demo_env 7 d = Inr (Some demo_program) \<and> (\<forall>q d3. remove_program demo_env 7 d \<noteq> Inr (q, d3))"
proof -
  obtain e d where app: "append_event_json_at demo_env free_store (\<lambda>_. 9) 7 0 EK_Step ''a'' ''null'' 5 demo_runnable
      = Inr (e, d)" and prog: "program demo_env 7 d = Inr (Some demo_program)" and hist: "log_of demo_env d 7 \<noteq> []"
    by (simp add: append_event_json_at_def event_eval program_def select_program_def program_eval
        log_of_def demo_runnable_def empty_db_def demo_env_def)
  have ok: "store_ok demo_env d" by (rule store_step_ok [OF demo_runnable_ok st_append_json [OF app]])
  from program_bound_to_history [OF ok prog hist rtranclp.rtrancl_refl] app prog show ?thesis by blast
qed

end
