(* ===== verification/Durable_Schema.thy ===== *)
theory Durable_Schema
  imports Durable_Dispatch
begin

text \<open>
  Opening a store (\<open>initialize_schema\<close>, \<open>read_log_version\<close> and the column migrations of
  \<open>src/crates/tysel-durable/src/lib.rs\<close>, the \<open>initialize\<close> functions of \<open>lifecycle.rs\<close> and
  \<open>execution.rs\<close>). A file is its tables together with what the schema tells about them: the metadata
  table if there is one, the columns of the two tables that have changed shape, and whether the row
  of catalog counters is there. A table that does not exist yet is empty in \<open>sf_db\<close>, and the value of
  a column that a table does not have yet is whatever the migration makes it.
\<close>

subsection \<open>Files\<close>

record store_file =
  sf_metadata :: "(string \<times> int) list option"
  sf_wakeup_columns :: "string list option"
  sf_program_columns :: "string list option"
  sf_program_stats :: bool
  sf_db :: db

definition new_file :: store_file where
  "new_file = \<lparr>sf_metadata = None, sf_wakeup_columns = None, sf_program_columns = None,
     sf_program_stats = False, sf_db = empty_db\<rparr>"

definition read_log_version :: "store_file \<Rightarrow> (DurableError, u32 option) result" where
  "read_log_version f =
     (case sf_metadata f of
        None \<Rightarrow> Inr None
      | Some metadata \<Rightarrow>
          (case map_of metadata ''schema_version'' of
             None \<Rightarrow> Inl DE_InvalidLogVersion
           | Some raw \<Rightarrow>
               if 0 \<le> raw \<and> raw < 2 ^ 32 then Inr (Some (word_of_int raw)) else Inl DE_InvalidLogVersion))"

definition wakeup_columns :: "string list" where
  "wakeup_columns = [''task_id'', ''sequence'', ''wake_at_ms'', ''lease_owner'', ''lease_until_ms'']"

definition program_columns :: "string list" where
  "program_columns = [''task_id'', ''program_kind'', ''source'', ''source_sha256'', ''registered_at_ms'']"

text \<open>The \<open>CREATE TABLE IF NOT EXISTS\<close> batch.\<close>

definition create_tables :: "store_file \<Rightarrow> store_file" where
  "create_tables f =
     f\<lparr>sf_metadata := Some (case sf_metadata f of None \<Rightarrow> [] | Some m \<Rightarrow> m),
       sf_wakeup_columns := Some (case sf_wakeup_columns f of None \<Rightarrow> wakeup_columns | Some c \<Rightarrow> c),
       sf_program_columns := Some (case sf_program_columns f of None \<Rightarrow> program_columns | Some c \<Rightarrow> c)\<rparr>"

definition lifecycle_initialize :: "store_file \<Rightarrow> store_file" where
  "lifecycle_initialize f =
     (if sf_program_stats f then f
      else
        let d = sf_db f;
            active = filter (\<lambda>(t, r). map_of (d_completions d) t = None) (d_programs d) in
        f\<lparr>sf_program_stats := True,
          sf_db := d\<lparr>d_program_stats :=
            (int (length active), int (sum_list (map (\<lambda>(t, r). length (pr_source r)) active)))\<rparr>\<rparr>)"

definition migrate_program_columns :: "store_file \<Rightarrow> store_file" where
  "migrate_program_columns f =
     (let columns = the (sf_program_columns f); d = sf_db f in
      if ''program_kind'' \<notin> set columns
      then f\<lparr>sf_program_columns := Some (columns @ [''program_kind'']),
             sf_db := d\<lparr>d_programs := map (\<lambda>(t, r). (t, r\<lparr>pr_program_kind := ''script''\<rparr>)) (d_programs d)\<rparr>\<rparr>
      else f)"

definition add_wakeup_column ::
  "string \<Rightarrow> string list \<Rightarrow> (wakeup_row \<Rightarrow> wakeup_row) \<Rightarrow> store_file \<Rightarrow> store_file" where
  "add_wakeup_column column columns fill f =
     (if column \<notin> set columns
      then let d = sf_db f in
        f\<lparr>sf_wakeup_columns := Some (the (sf_wakeup_columns f) @ [column]),
          sf_db := d\<lparr>d_wakeups := map (\<lambda>(t, r). (t, fill r)) (d_wakeups d)\<rparr>\<rparr>
      else f)"

definition migrate_wakeup_columns :: "store_file \<Rightarrow> bool \<times> store_file" where
  "migrate_wakeup_columns f =
     (let columns = the (sf_wakeup_columns f);
          f1 = add_wakeup_column ''sequence'' columns (\<lambda>r. r\<lparr>wr_sequence := 0\<rparr>) f;
          f2 = add_wakeup_column ''lease_owner'' columns (\<lambda>r. r\<lparr>wr_lease_owner := None\<rparr>) f1;
          f3 = add_wakeup_column ''lease_until_ms'' columns (\<lambda>r. r\<lparr>wr_lease_until_ms := None\<rparr>) f2 in
      (''sequence'' \<notin> set columns, f3))"

text \<open>A timer of the first schema belongs to the last sleep of its task.\<close>

definition last_sleep :: "db \<Rightarrow> TaskId \<Rightarrow> int option" where
  "last_sleep d t =
     (let sleeps = filter (\<lambda>(s, r). er_kind r = ''sleep'') (events_of d t) in
      if sleeps = [] then None else Some (Max (set (map fst sleeps))))"

definition backfill_sequence :: "store_file \<Rightarrow> store_file" where
  "backfill_sequence f =
     (let d = sf_db f in
      f\<lparr>sf_db := d\<lparr>d_wakeups := map (\<lambda>(t, r). (t, r\<lparr>wr_sequence :=
          (case last_sleep d t of None \<Rightarrow> wr_sequence r | Some s \<Rightarrow> s)\<rparr>)) (d_wakeups d)\<rparr>\<rparr>)"

definition rebuild_history_stats :: "store_file \<Rightarrow> store_file" where
  "rebuild_history_stats f =
     (let d = sf_db f in
      f\<lparr>sf_db := d\<lparr>d_history_stats :=
        fold (\<lambda>t. AList.update t (int (length (events_of d t)), int (history_size (events_of d t))))
          (remdups (map (fst \<circ> fst) (d_events d))) (d_history_stats d)\<rparr>\<rparr>)"

definition initialize_schema :: "store_file \<Rightarrow> (DurableError, store_file) result" where
  "initialize_schema f =
     rbind (read_log_version f) (\<lambda>previous_version.
     if (case previous_version of None \<Rightarrow> False | Some found \<Rightarrow> found > DURABLE_LOG_VERSION)
     then Inl (DE_UnsupportedLogVersion (the previous_version) DURABLE_LOG_VERSION)
     else
     let f1 = migrate_program_columns (lifecycle_initialize (create_tables f));
         (sequence_added, f2) = migrate_wakeup_columns f1;
         f3 = (if sequence_added then backfill_sequence f2 else f2);
         f4 = (if (case previous_version of None \<Rightarrow> 0 | Some v \<Rightarrow> v) < 2 then rebuild_history_stats f3 else f3) in
     Inr (f4\<lparr>sf_metadata := map_option (AList.update ''schema_version'' (uint DURABLE_LOG_VERSION))
                              (sf_metadata f4)\<rparr>))"

definition log_version :: "store_file \<Rightarrow> (DurableError, u32) result" where
  "log_version f =
     rbind (read_log_version f) (\<lambda>version. ok_or version DE_InvalidLogVersion)"

subsection \<open>Opening\<close>

definition file_current :: "store_file \<Rightarrow> bool" where
  "file_current f \<longleftrightarrow>
     (\<exists>m. sf_metadata f = Some m \<and> map_of m ''schema_version'' = Some (uint DURABLE_LOG_VERSION)) \<and>
     (\<exists>c. sf_wakeup_columns f = Some c \<and> {''sequence'', ''lease_owner'', ''lease_until_ms''} \<subseteq> set c) \<and>
     (\<exists>c. sf_program_columns f = Some c \<and> ''program_kind'' \<in> set c) \<and> sf_program_stats f"

lemma file_current_version: "file_current f \<Longrightarrow> read_log_version f = Inr (Some DURABLE_LOG_VERSION)"
  by (auto simp: file_current_def read_log_version_def DURABLE_LOG_VERSION_def)

lemma current_steps:
  assumes "file_current f"
  shows "create_tables f = f" "lifecycle_initialize f = f" "migrate_program_columns f = f"
    "migrate_wakeup_columns f = (False, f)"
    "f\<lparr>sf_metadata := map_option (AList.update ''schema_version'' (uint DURABLE_LOG_VERSION)) (sf_metadata f)\<rparr> = f"
  using assms
  by (cases f; auto simp: file_current_def create_tables_def lifecycle_initialize_def
      migrate_program_columns_def migrate_wakeup_columns_def add_wakeup_column_def update_triv Let_def)+

lemma initialize_current:
  assumes "file_current f"
  shows "initialize_schema f = Inr f"
  unfolding initialize_schema_def file_current_version [OF assms] rbind.simps Let_def option.case
    current_steps(1-4) [OF assms] prod.case
  using current_steps(5) [OF assms] by (simp add: DURABLE_LOG_VERSION_def)

lemma migrate_wakeup_columns_shape:
  assumes "migrate_wakeup_columns f = (added, f')" and "sf_wakeup_columns f = Some c"
  shows "(\<exists>c'. sf_wakeup_columns f' = Some c' \<and> {''sequence'', ''lease_owner'', ''lease_until_ms''} \<subseteq> set c')"
    "sf_program_columns f' = sf_program_columns f" "sf_metadata f' = sf_metadata f"
    "sf_program_stats f' = sf_program_stats f" "added \<longleftrightarrow> ''sequence'' \<notin> set c"
  using assms by (auto simp: migrate_wakeup_columns_def add_wakeup_column_def Let_def split: if_split_asm)

lemma first_steps_shape:
  "sf_metadata (migrate_program_columns (lifecycle_initialize (create_tables f))) =
     Some (case sf_metadata f of None \<Rightarrow> [] | Some m \<Rightarrow> m)"
  "sf_wakeup_columns (migrate_program_columns (lifecycle_initialize (create_tables f))) =
     Some (case sf_wakeup_columns f of None \<Rightarrow> wakeup_columns | Some c \<Rightarrow> c)"
  "\<exists>c. sf_program_columns (migrate_program_columns (lifecycle_initialize (create_tables f))) = Some c \<and>
     ''program_kind'' \<in> set c"
  "sf_program_stats (migrate_program_columns (lifecycle_initialize (create_tables f)))"
  by (simp_all add: migrate_program_columns_def lifecycle_initialize_def create_tables_def Let_def)

lemma last_steps_shape [simp]:
  "sf_metadata (backfill_sequence f) = sf_metadata f" "sf_metadata (rebuild_history_stats f) = sf_metadata f"
  "sf_wakeup_columns (backfill_sequence f) = sf_wakeup_columns f"
  "sf_wakeup_columns (rebuild_history_stats f) = sf_wakeup_columns f"
  "sf_program_columns (backfill_sequence f) = sf_program_columns f"
  "sf_program_columns (rebuild_history_stats f) = sf_program_columns f"
  "sf_program_stats (backfill_sequence f) = sf_program_stats f"
  "sf_program_stats (rebuild_history_stats f) = sf_program_stats f"
  by (simp_all add: backfill_sequence_def rebuild_history_stats_def Let_def)

lemma initialize_schema_cases:
  assumes "initialize_schema f = Inr f'"
  obtains version added f1 f2 f3 where "read_log_version f = Inr version"
    "\<And>v. version = Some v \<Longrightarrow> v \<le> DURABLE_LOG_VERSION"
    "f1 = migrate_program_columns (lifecycle_initialize (create_tables f))"
    "migrate_wakeup_columns f1 = (added, f2)" "f3 = (if added then backfill_sequence f2 else f2)"
    "sf_db f' = sf_db (if (case version of None \<Rightarrow> 0 | Some v \<Rightarrow> v) < 2 then rebuild_history_stats f3 else f3)"
    "file_current f'"
proof -
  obtain version where v: "read_log_version f = Inr version" using assms by (auto simp: initialize_schema_def result_simps)
  define f1 where f1: "f1 = migrate_program_columns (lifecycle_initialize (create_tables f))"
  obtain added f2 where f2: "migrate_wakeup_columns f1 = (added, f2)" by fastforce
  define f3 where f3: "f3 = (if added then backfill_sequence f2 else f2)"
  define f4 where f4: "f4 = (if (case version of None \<Rightarrow> 0 | Some v \<Rightarrow> v) < 2 then rebuild_history_stats f3 else f3)"
  have le: "w \<le> DURABLE_LOG_VERSION" if "version = Some w" for w
    using assms v that by (auto simp: initialize_schema_def split: if_split_asm)
  then have f': "f' = f4\<lparr>sf_metadata := map_option (AList.update ''schema_version'' (uint DURABLE_LOG_VERSION))
      (sf_metadata f4)\<rparr>"
    using assms v f2 unfolding initialize_schema_def Let_def f1 [symmetric] f4 f3
    by (simp add: linorder_not_less split: option.split_asm if_split_asm)
  note shape = migrate_wakeup_columns_shape [OF f2 first_steps_shape(2) [of f, folded f1]]
  have "file_current f'"
    using shape(1) first_steps_shape [of f, folded f1] unfolding file_current_def f' f4 f3
    by (simp add: shape(2-4) update_conv')
  with v le f1 f2 f3 f4 f' show ?thesis by (intro that) auto
qed

text \<open>A new file opens as the empty store, where \<open>store_reachable\<close> starts.\<close>

lemma open_new_file: "\<exists>f. initialize_schema new_file = Inr f \<and> sf_db f = empty_db"
  by (simp add: initialize_schema_def read_log_version_def new_file_def create_tables_def lifecycle_initialize_def
      migrate_program_columns_def migrate_wakeup_columns_def add_wakeup_column_def rebuild_history_stats_def
      program_columns_def wakeup_columns_def empty_db_def Let_def)

text \<open>
  C32. Opening is safe to repeat and refuses what it does not understand. \<open>initialize_schema\<close> fails only
  when the recorded version cannot be read or is newer than the supported one, and then, as the
  transaction is rolled back, the file is untouched. When it succeeds, the store reports the supported
  version, and opening it again changes nothing at all.
\<close>

theorem open_store:
  "case initialize_schema f of
     Inl e \<Rightarrow> read_log_version f = Inl e \<or>
       (\<exists>found. read_log_version f = Inr (Some found) \<and> DURABLE_LOG_VERSION < found \<and>
          e = DE_UnsupportedLogVersion found DURABLE_LOG_VERSION)
   | Inr f' \<Rightarrow> log_version f' = Inr DURABLE_LOG_VERSION \<and> initialize_schema f' = Inr f' \<and>
       (\<exists>v. read_log_version f = Inr v \<and> (case v of None \<Rightarrow> True | Some w \<Rightarrow> w \<le> DURABLE_LOG_VERSION))"
proof (cases "initialize_schema f")
  case (Inl e)
  then show ?thesis
    by (auto simp: initialize_schema_def result_simps Let_def split: if_split_asm option.split_asm prod.split_asm)
next
  case (Inr f')
  then obtain version where v: "read_log_version f = Inr version"
      "\<And>v. version = Some v \<Longrightarrow> v \<le> DURABLE_LOG_VERSION" "file_current f'"
    by (rule initialize_schema_cases) blast
  show ?thesis using v Inr initialize_current [OF v(3)] file_current_version [OF v(3)]
    by (auto simp: log_version_def split: option.split)
qed

subsection \<open>Migration\<close>

lemma map_of_map_value: "map_of (map (\<lambda>(k, v). (k, g k v)) xs) k = map_option (g k) (map_of xs k)"
  by (induction xs) auto

lemma map_of_fold_update:
  "map_of (fold (\<lambda>k. AList.update k (g k)) ks tbl) j = (if j \<in> set ks then Some (g j) else map_of tbl j)"
  by (induction ks arbitrary: tbl) (auto simp: update_conv')

lemma first_steps_db:
  fixes f :: store_file
  defines "d1 \<equiv> sf_db (migrate_program_columns (lifecycle_initialize (create_tables f)))"
  shows "d_events d1 = d_events (sf_db f)" "d_history_stats d1 = d_history_stats (sf_db f)"
    "d_wakeups d1 = d_wakeups (sf_db f)" "d_completions d1 = d_completions (sf_db f)"
  by (simp_all add: d1_def migrate_program_columns_def lifecycle_initialize_def create_tables_def Let_def)

lemma first_steps_counters:
  assumes "\<not> sf_program_stats f"
  defines "d1 \<equiv> sf_db (migrate_program_columns (lifecycle_initialize (create_tables f)))"
  shows "d_program_stats d1 = (int (length (active_programs d1)), int (source_bytes (active_programs d1)))"
  using assms(1)
  by (auto simp: d1_def migrate_program_columns_def lifecycle_initialize_def create_tables_def Let_def
      active_programs_def source_bytes_def filter_map o_def case_prod_unfold)

lemma migrate_wakeup_columns_db:
  assumes "migrate_wakeup_columns f = (added, f')" and "sf_wakeup_columns f = Some c"
  shows "\<exists>g. d_wakeups (sf_db f') = map (\<lambda>(t, r). (t, g r)) (d_wakeups (sf_db f)) \<and>
      (\<forall>r. wr_wake_at_ms (g r) = wr_wake_at_ms r \<and> wr_sequence (g r) = (if added then 0 else wr_sequence r)) \<and>
      sf_db f' = (sf_db f)\<lparr>d_wakeups := d_wakeups (sf_db f')\<rparr>"
proof -
  let ?g = "\<lambda>r. (if ''lease_until_ms'' \<notin> set c then (\<lambda>r. r\<lparr>wr_lease_until_ms := None\<rparr>) else (\<lambda>r. r))
    ((if ''lease_owner'' \<notin> set c then (\<lambda>r. r\<lparr>wr_lease_owner := None\<rparr>) else (\<lambda>r. r))
      ((if ''sequence'' \<notin> set c then (\<lambda>r. r\<lparr>wr_sequence := 0\<rparr>) else (\<lambda>r. r)) r))"
  show ?thesis
    using assms by (intro exI [of _ ?g])
      (auto simp: migrate_wakeup_columns_def add_wakeup_column_def Let_def o_def case_prod_unfold)
qed

lemma backfill_sequence_db:
  "\<exists>g. d_wakeups (sf_db (backfill_sequence f)) = map (\<lambda>(t, r). (t, g t r)) (d_wakeups (sf_db f)) \<and>
     (\<forall>t r. wr_wake_at_ms (g t r) = wr_wake_at_ms r \<and>
        wr_sequence (g t r) = (case last_sleep (sf_db f) t of None \<Rightarrow> wr_sequence r | Some s \<Rightarrow> s)) \<and>
     sf_db (backfill_sequence f) = (sf_db f)\<lparr>d_wakeups := d_wakeups (sf_db (backfill_sequence f))\<rparr>"
  unfolding backfill_sequence_def Let_def
  by (rule exI [of _ "\<lambda>t r. r\<lparr>wr_sequence := (case last_sleep (sf_db f) t of None \<Rightarrow> wr_sequence r | Some s \<Rightarrow> s)\<rparr>"])
    simp

lemma wakeup_steps:
  assumes mig: "migrate_wakeup_columns f = (added, f2)" and cols: "sf_wakeup_columns f = Some c"
    and f3: "f3 = (if added then backfill_sequence f2 else f2)"
  shows "\<exists>w. sf_db f3 = (sf_db f)\<lparr>d_wakeups := w\<rparr> \<and>
    (\<forall>t. case map_of (d_wakeups (sf_db f)) t of None \<Rightarrow> map_of w t = None
       | Some r \<Rightarrow> \<exists>r'. map_of w t = Some r' \<and> wr_wake_at_ms r' = wr_wake_at_ms r \<and>
           wr_sequence r' = (if ''sequence'' \<in> set c then wr_sequence r
             else (case last_sleep (sf_db f) t of None \<Rightarrow> 0 | Some s \<Rightarrow> s)))"
proof -
  obtain g where g: "d_wakeups (sf_db f2) = map (\<lambda>(t, r). (t, g r)) (d_wakeups (sf_db f))"
      "\<And>r. wr_wake_at_ms (g r) = wr_wake_at_ms r \<and> wr_sequence (g r) = (if added then 0 else wr_sequence r)"
      "sf_db f2 = (sf_db f)\<lparr>d_wakeups := d_wakeups (sf_db f2)\<rparr>"
    using migrate_wakeup_columns_db [OF mig cols] by blast
  obtain b where b: "d_wakeups (sf_db (backfill_sequence f2)) = map (\<lambda>(t, r). (t, b t r)) (d_wakeups (sf_db f2))"
      "\<And>t r. wr_wake_at_ms (b t r) = wr_wake_at_ms r \<and>
        wr_sequence (b t r) = (case last_sleep (sf_db f2) t of None \<Rightarrow> wr_sequence r | Some s \<Rightarrow> s)"
      "sf_db (backfill_sequence f2) = (sf_db f2)\<lparr>d_wakeups := d_wakeups (sf_db (backfill_sequence f2))\<rparr>"
    using backfill_sequence_db by blast
  have added: "added \<longleftrightarrow> ''sequence'' \<notin> set c" by (rule migrate_wakeup_columns_shape(5) [OF mig cols])
  have "d_events (sf_db f2) = d_events (sf_db f)" by (subst g(3)) simp
  then have sleep: "last_sleep (sf_db f2) = last_sleep (sf_db f)"
    by (simp add: last_sleep_def events_of_def fun_eq_iff)
  have "sf_db f3 = (sf_db f)\<lparr>d_wakeups := d_wakeups (sf_db f3)\<rparr>"
    using g(3) b(3) by (cases added) (simp_all add: f3, metis db.surjective db.update_convs(2))
  moreover have "case map_of (d_wakeups (sf_db f)) t of None \<Rightarrow> map_of (d_wakeups (sf_db f3)) t = None
       | Some r \<Rightarrow> \<exists>r'. map_of (d_wakeups (sf_db f3)) t = Some r' \<and> wr_wake_at_ms r' = wr_wake_at_ms r \<and>
           wr_sequence r' = (if ''sequence'' \<in> set c then wr_sequence r
             else (case last_sleep (sf_db f) t of None \<Rightarrow> 0 | Some s \<Rightarrow> s))" for t
    by (auto simp: f3 b(1,2) g(1,2) added sleep map_of_map_value simp del: map_map split: option.split)
  ultimately show ?thesis by blast
qed


definition legacy_file :: store_file where
  "legacy_file = \<lparr>sf_metadata = None, sf_wakeup_columns = Some [''task_id'', ''wake_at_ms''],
     sf_program_columns = None, sf_program_stats = False,
     sf_db = empty_db\<lparr>d_events := [((12, 0), demo_row), ((12, 1), demo_row\<lparr>er_kind := ''sleep''\<rparr>)],
       d_wakeups := [(12, \<lparr>wr_sequence = 99, wr_wake_at_ms = 15, wr_lease_owner = None, wr_lease_until_ms = None\<rparr>)]\<rparr>\<rparr>"

lemma legacy_events:
  "events_of (sf_db legacy_file) t = (if t = 12 then [(0, demo_row), (1, demo_row\<lparr>er_kind := ''sleep''\<rparr>)] else [])"
  by (simp add: legacy_file_def events_of_def empty_db_def)

lemma legacy_rows: "rows_ok demo_env t (events_of (sf_db legacy_file) t)"
  by (auto simp: legacy_events rows_ok_def history_size_def event_size_def durable_limits demo_row_def
      decode_event_def EventKind_parse_def from_sql_integer_def i64_max_def demo_env_def)


end
