(* ===== verification/Spec2Isabelle.thy ===== *)
theory Spec2Isabelle
  imports Scheduler Capability Ipc Task_Sessions Broker_Replies Ingress_Polls Tap Durable_Schema
begin

text \<open>Header.\<close>

end
